(* ===== verification/Prelude.thy ===== *)
theory Prelude
  imports Main "HOL-Library.Multiset"
begin

text \<open>
  Shared vocabulary of the development: the collections the component theories feed and use,
  and generic lemmas on lists and options that several components share.

  \<^item> \<open>op_defs\<close> collects the definitions of modelled operations, so that
    \<open>simp add: op_defs\<close> unfolds an operation down to its branches;
  \<^item> \<open>inv_defs\<close> collects the definitions of well-formedness predicates.
\<close>

named_theorems op_defs \<open>definitions of the modelled operations\<close>
named_theorems inv_defs \<open>definitions of the well-formedness predicates\<close>

type_synonym usize = nat

section \<open>Lists\<close>

text \<open>
  Rust's \<open>retain\<close> with a closure that captures a mutable flag: the first element that
  satisfies the predicate is dropped and sets the flag, everything after it is kept.
\<close>

fun retain_but_first :: "('a \<Rightarrow> bool) \<Rightarrow> bool \<Rightarrow> 'a list \<Rightarrow> 'a list" where
  "retain_but_first P entry_removed [] = []"
| "retain_but_first P entry_removed (d # ds) =
     (if entry_removed then d # retain_but_first P entry_removed ds
      else if P d then retain_but_first P True ds
      else d # retain_but_first P entry_removed ds)"

lemma retain_but_first_True [simp]: "retain_but_first P True ds = ds"
  by (induction ds) auto

lemma retain_but_first_none: "\<not> list_ex P ds \<Longrightarrow> retain_but_first P False ds = ds"
  by (induction ds) auto

lemma retain_but_first_some:
  "list_ex P ds \<Longrightarrow>
   \<exists>pre d post. ds = pre @ d # post \<and> P d \<and> \<not> list_ex P pre \<and>
     retain_but_first P False ds = pre @ post"
proof (induction ds)
  case Nil
  then show ?case by simp
next
  case (Cons x xs)
  show ?case
  proof (cases "P x")
    case True
    then show ?thesis by (intro exI [of _ "[]"] exI [of _ x] exI [of _ xs]) simp
  next
    case False
    with Cons obtain pre d post where "xs = pre @ d # post" "P d" "\<not> list_ex P pre"
      "retain_but_first P False xs = pre @ post" by auto
    with False show ?thesis
      by (intro exI [of _ "x # pre"] exI [of _ d] exI [of _ post]) simp
  qed
qed

lemma length_retain_but_first:
  "length (retain_but_first P False ds) = length ds - (if list_ex P ds then 1 else 0)"
  using retain_but_first_none [of P ds] retain_but_first_some [of P ds] by (cases "list_ex P ds") auto

lemma length_retain_but_first_le: "length (retain_but_first P False ds) \<le> length ds"
  by (simp add: length_retain_but_first)

lemma filter_retain_but_first:
  "(\<And>d. Q d \<Longrightarrow> \<not> P d) \<Longrightarrow> filter Q (retain_but_first P b ds) = filter Q ds"
  by (induction P b ds rule: retain_but_first.induct) auto

lemma set_retain_but_first: "set (retain_but_first P b ds) \<subseteq> set ds"
  by (induction P b ds rule: retain_but_first.induct) auto

lemma mset_retain_but_first: "mset (retain_but_first P b ds) \<subseteq># mset ds"
  by (induction P b ds rule: retain_but_first.induct) (auto intro: subset_mset.order_trans)

lemma filter_filter_imp:
  "(\<And>x. x \<in> set xs \<Longrightarrow> Q x \<Longrightarrow> P x) \<Longrightarrow> filter Q (filter P xs) = filter Q xs"
  by (induction xs) auto

lemma filter_same_length: "length (filter P xs) = length xs \<Longrightarrow> filter P xs = xs"
  by (metis filter_True length_filter_less less_irrefl)

lemma mset_rotate [simp]: "mset (rotate n xs) = mset xs"
proof -
  have "mset (rotate n xs) = mset (take (n mod length xs) xs @ drop (n mod length xs) xs)"
    unfolding rotate_drop_take by (simp only: mset_append add.commute)
  then show ?thesis by simp
qed

text \<open>Chaining two accounts of what went in and what came out.\<close>

lemma trace_step:
  fixes A :: "'x multiset"
  assumes "A + B' \<subseteq># B + S" and "R + B \<subseteq># E + T"
  shows "R + (A + B') \<subseteq># E + T + S"
proof (rule mset_subset_eqI)
  fix x
  from assms have "count (A + B') x \<le> count (B + S) x" "count (R + B) x \<le> count (E + T) x"
    by (simp_all only: mset_subset_eq_count)
  then show "count (R + (A + B')) x \<le> count (E + T + S) x" by simp
qed

end
