(* ===== verification/Rtsc_Error.thy ===== *)
theory Rtsc_Error
  imports Prelude
begin

text \<open>
  The crate's error type (\<open>src/src/lib.rs\<close>), the messages its \<open>Display\<close> prints, and the
  result type \<open>Result<T>\<close> as a sum with the error on the left. A \<open>std::io::Error\<close> is
  carried as the message it prints.
\<close>

datatype error =
    ChannelFull
  | ChannelSkipped
  | ChannelClosed
  | ChannelEmpty
  | Unimplemented
  | Timeout
  | InvalidData string
  | Failed string
  | AccessDenied
  | IO string
  | RTSchedSetAffinity string
  | RTSchedSetScheduler string

type_synonym 'a result = "error + 'a"

fun error_display :: "error \<Rightarrow> string" where
  "error_display ChannelFull = ''channel full''"
| "error_display ChannelSkipped = ''channel message skipped''"
| "error_display ChannelClosed = ''channel closed''"
| "error_display ChannelEmpty = ''channel closed''"
| "error_display Unimplemented = ''not implemented''"
| "error_display Timeout = ''timed out''"
| "error_display (InvalidData s) = ''Invalid data''"
| "error_display (Failed s) = ''operation failed: '' @ s"
| "error_display AccessDenied = ''access denied''"
| "error_display (IO e) = ''I/O error: '' @ e"
| "error_display (RTSchedSetAffinity s) = ''CPU affinity set error: '' @ s"
| "error_display (RTSchedSetScheduler s) = ''Real-time priority set error: '' @ s"

text \<open>\<open>Result::ok\<close>: the value of a success, nothing for an error.\<close>

fun result_ok :: "'a result \<Rightarrow> 'a option" where
  "result_ok (Inl e) = None"
| "result_ok (Inr x) = Some x"

lemma result_ok_Some [simp]: "result_ok r = Some x \<longleftrightarrow> r = Inr x"
  by (cases r) auto

end
