(* ===== verification/Data_Policy.thy ===== *)
theory Data_Policy
  imports Rtsc_Error
begin

text \<open>
  \<open>src/src/data_policy.rs\<close>: the delivery policies, their textual names, the trait
  \<open>DataDeliveryPolicy\<close> as a record of the functions an implementing type provides, and the
  result of a storage push.

  The implementations of the trait are client code. \<open>is_expired\<close> usually reads the clock, so
  one value of the record describes the trait's answers at one moment; operations that run at
  different moments get different records.
\<close>

section \<open>Delivery policies\<close>

datatype delivery_policy = Always | Latest | Optional | Single | SingleOptional

definition delivery_policy_default :: delivery_policy where
  "delivery_policy_default = Always"

text \<open>
  \<open>str::to_lowercase\<close> on the bytes of the string. No character outside ASCII has a lower-case
  form made of the letters of the five names, so for the comparison in \<open>from_str\<close> the ASCII
  case mapping decides.
\<close>

definition char_to_lower :: "char \<Rightarrow> char" where
  "char_to_lower c =
     (let n = (of_char c :: nat) in if 65 \<le> n \<and> n \<le> 90 then char_of (n + 32) else c)"

definition to_lowercase :: "string \<Rightarrow> string" where
  "to_lowercase s = map char_to_lower s"

definition from_str :: "string \<Rightarrow> delivery_policy result" where
  "from_str s =
     (let l = to_lowercase s in
      if l = ''always'' then Inr Always
      else if l = ''optional'' then Inr Optional
      else if l = ''single'' then Inr Single
      else if l = ''single-optional'' then Inr SingleOptional
      else Inl (InvalidData s))"

fun policy_display :: "delivery_policy \<Rightarrow> string" where
  "policy_display Always = ''always''"
| "policy_display Latest = ''latest''"
| "policy_display Optional = ''optional''"
| "policy_display Single = ''single''"
| "policy_display SingleOptional = ''single-optional''"

section \<open>The trait\<close>

record 'a data_delivery =
  delivery_policy :: "'a \<Rightarrow> delivery_policy"
  priority :: "'a \<Rightarrow> usize"
  eq_kind :: "'a \<Rightarrow> 'a \<Rightarrow> bool"
  is_expired :: "'a \<Rightarrow> bool"

text \<open>
  The trait's default methods. \<open>mem::discriminant\<close> depends on the implementing type and is an
  argument.
\<close>

definition default_data_delivery :: "('a \<Rightarrow> nat) \<Rightarrow> 'a data_delivery" where
  "default_data_delivery discriminant =
     \<lparr> delivery_policy = (\<lambda>_. Always),
       priority = (\<lambda>_. 100),
       eq_kind = (\<lambda>a b. discriminant a = discriminant b),
       is_expired = (\<lambda>_. False) \<rparr>"

definition is_delivery_policy_single :: "'a data_delivery \<Rightarrow> 'a \<Rightarrow> bool" where
  "is_delivery_policy_single dp a =
     (delivery_policy dp a = Single \<or> delivery_policy dp a = SingleOptional)"

definition is_delivery_policy_optional :: "'a data_delivery \<Rightarrow> 'a \<Rightarrow> bool" where
  "is_delivery_policy_optional dp a =
     (delivery_policy dp a = Optional \<or> delivery_policy dp a = SingleOptional)"

declare is_delivery_policy_single_def [op_defs]
  is_delivery_policy_optional_def [op_defs]

section \<open>The result of a push\<close>

datatype 'a storage_try_push_output = Pushed | Skipped | Full 'a

section \<open>Properties\<close>

lemma to_lowercase_idem: "to_lowercase (to_lowercase s) = to_lowercase s"
proof -
  have "char_to_lower (char_to_lower c) = char_to_lower c" for c
    by (auto simp: char_to_lower_def Let_def)
  then show ?thesis by (simp add: to_lowercase_def)
qed

text \<open>
  C19: parsing what \<open>Display\<close> prints gives the policy back for every policy but \<open>Latest\<close>, whose
  name the parser does not know and reports as invalid data.
\<close>

theorem from_str_policy_display:
  "from_str (policy_display p) = (if p = Latest then Inl (InvalidData ''latest'') else Inr p)"
  by (cases p) (simp_all add: from_str_def to_lowercase_def char_to_lower_def Let_def)

text \<open>
  The parser ignores case, and every name it accepts is the one \<open>Display\<close> prints.
\<close>

theorem from_str_accepts:
  "from_str s = Inr p \<longleftrightarrow> p \<noteq> Latest \<and> to_lowercase s = policy_display p"
  by (cases p) (auto simp: from_str_def Let_def)

end
