(* ===== verification/Vec_Deque.thy ===== *)
theory Vec_Deque
  imports Prelude
begin

text \<open>
  The part of the standard library's \<open>VecDeque\<close> the crate uses: a growable ring buffer. The
  record keeps the logical contents, the physical index of the first element and the size of the
  allocation, because \<open>as_slices\<close> exposes the layout: the contents lie in the buffer from
  \<open>head\<close> on and continue at its start once they reach its end, and the second slice is the part
  that continues there.

  The allocator decides how much room it gives for a requested capacity and by how much a full
  buffer grows; it is a parameter.
\<close>

record allocator =
  al_with_capacity :: "usize \<Rightarrow> usize"
  al_grow :: "usize \<Rightarrow> usize"

text \<open>What the documentation promises: at least the requested room, and growth makes room.\<close>

definition allocator_ok :: "allocator \<Rightarrow> bool" where
  "allocator_ok al \<longleftrightarrow> (\<forall>n. n \<le> al_with_capacity al n) \<and> (\<forall>n. n < al_grow al n)"

definition exact_allocator :: allocator where
  "exact_allocator = \<lparr> al_with_capacity = (\<lambda>n. n), al_grow = (\<lambda>n. max 4 (2 * n)) \<rparr>"

lemma exact_allocator_ok [simp]: "allocator_ok exact_allocator"
  by (auto simp: allocator_ok_def exact_allocator_def)

record 'a vec_deque =
  vd_elems :: "'a list"
  vd_head :: usize
  vd_cap :: usize

definition vd_wf :: "'a vec_deque \<Rightarrow> bool" where
  [inv_defs]: "vd_wf v \<longleftrightarrow>
     length (vd_elems v) \<le> vd_cap v \<and> (vd_head v < vd_cap v \<or> vd_head v = 0)"

section \<open>Operations\<close>

definition vd_new :: "'a vec_deque" where
  "vd_new = \<lparr> vd_elems = [], vd_head = 0, vd_cap = 0 \<rparr>"

definition vd_with_capacity :: "allocator \<Rightarrow> usize \<Rightarrow> 'a vec_deque" where
  "vd_with_capacity al n = \<lparr> vd_elems = [], vd_head = 0, vd_cap = al_with_capacity al n \<rparr>"

definition vd_len :: "'a vec_deque \<Rightarrow> usize" where
  [op_defs]: "vd_len v = length (vd_elems v)"

definition vd_wrap :: "'a vec_deque \<Rightarrow> usize \<Rightarrow> usize" where
  "vd_wrap v i = (if vd_cap v \<le> i then i - vd_cap v else i)"

text \<open>\<open>as_slices().1.len()\<close>\<close>

definition vd_second_len :: "'a vec_deque \<Rightarrow> usize" where
  "vd_second_len v = vd_head v + vd_len v - vd_cap v"

text \<open>
  Growing a full buffer: contiguous contents stay where they are; otherwise the shorter of the
  two slices moves, the second one behind the first if it fits there, or the first one to the end
  of the new allocation.
\<close>

definition vd_grow :: "allocator \<Rightarrow> 'a vec_deque \<Rightarrow> 'a vec_deque" where
  "vd_grow al v =
     (let new_cap = al_grow al (vd_cap v);
          head_len = vd_cap v - vd_head v;
          tail_len = vd_len v - head_len
      in if vd_head v \<le> vd_cap v - vd_len v
         then v\<lparr> vd_cap := new_cap \<rparr>
         else if head_len > tail_len \<and> tail_len \<le> new_cap - vd_cap v
         then v\<lparr> vd_cap := new_cap \<rparr>
         else v\<lparr> vd_cap := new_cap, vd_head := new_cap - head_len \<rparr>)"

definition vd_push_back :: "allocator \<Rightarrow> 'a vec_deque \<Rightarrow> 'a \<Rightarrow> 'a vec_deque" where
  "vd_push_back al v x =
     (let v' = (if vd_len v = vd_cap v then vd_grow al v else v)
      in v'\<lparr> vd_elems := vd_elems v' @ [x] \<rparr>)"

definition vd_pop_front :: "'a vec_deque \<Rightarrow> 'a vec_deque \<times> 'a option" where
  "vd_pop_front v =
     (case vd_elems v of
        [] \<Rightarrow> (v, None)
      | x # xs \<Rightarrow> (v\<lparr> vd_elems := xs, vd_head := vd_wrap v (vd_head v + 1) \<rparr>, Some x))"

text \<open>
  \<open>retain\<close> compacts the kept elements towards the first one; the argument says which elements the
  closure keeps. \<open>truncate\<close> to the kept length leaves the head where it is.
\<close>

definition vd_retain :: "('a list \<Rightarrow> 'a list) \<Rightarrow> 'a vec_deque \<Rightarrow> 'a vec_deque" where
  "vd_retain f v = v\<lparr> vd_elems := f (vd_elems v) \<rparr>"

definition vd_clear :: "'a vec_deque \<Rightarrow> 'a vec_deque" where
  "vd_clear v = v\<lparr> vd_elems := [], vd_head := 0 \<rparr>"

text \<open>
  \<open>rotate_right(n)\<close>, with \<open>n\<close> at most the length (otherwise it panics): the contents rotate
  logically. Physically the last \<open>n\<close> elements move in front of the first, or, when that is
  shorter, the others move behind the last, and the head follows.
\<close>

definition vd_rotate_right :: "usize \<Rightarrow> 'a vec_deque \<Rightarrow> 'a vec_deque option" where
  "vd_rotate_right n v =
     (if vd_len v < n then None
      else let k = vd_len v - n in
        Some (v\<lparr> vd_elems := drop k (vd_elems v) @ take k (vd_elems v),
                 vd_head := (if n \<le> k then vd_wrap v (vd_head v + vd_cap v - n)
                             else vd_wrap v (vd_head v + k)) \<rparr>))"

text \<open>The stable \<open>sort_by\<close> on the first slice only.\<close>

definition vd_sort_first :: "('a \<Rightarrow> usize) \<Rightarrow> 'a vec_deque \<Rightarrow> 'a vec_deque" where
  "vd_sort_first f v =
     (let k = vd_len v - vd_second_len v
      in v\<lparr> vd_elems := sort_key f (take k (vd_elems v)) @ drop k (vd_elems v) \<rparr>)"

text \<open>\<open>Clone\<close>: a fresh buffer for the current length, filled in order.\<close>

definition vd_clone :: "allocator \<Rightarrow> 'a vec_deque \<Rightarrow> 'a vec_deque" where
  "vd_clone al v =
     \<lparr> vd_elems = vd_elems v, vd_head = 0, vd_cap = al_with_capacity al (vd_len v) \<rparr>"

section \<open>Well-formedness\<close>

lemma vd_new_wf [simp]: "vd_wf vd_new"
  by (simp add: vd_wf_def vd_new_def)

lemma vd_with_capacity_wf [simp]: "vd_wf (vd_with_capacity al n)"
  by (simp add: vd_wf_def vd_with_capacity_def)

lemma vd_grow_wf:
  assumes "allocator_ok al" and "vd_wf v"
  shows "vd_wf (vd_grow al v)"
proof -
  from assms(1) have "vd_cap v < al_grow al (vd_cap v)" by (simp add: allocator_ok_def)
  moreover have "al_grow al (vd_cap v) - (vd_cap v - vd_head v) < al_grow al (vd_cap v)"
    if "\<not> vd_head v \<le> vd_cap v - vd_len v" using assms(2) that calculation by (auto simp: vd_wf_def)
  ultimately show ?thesis using assms(2) by (auto simp: vd_wf_def vd_grow_def Let_def)
qed

lemma vd_grow_elems [simp]: "vd_elems (vd_grow al v) = vd_elems v"
  by (simp add: vd_grow_def Let_def)

lemma vd_grow_cap [simp]: "vd_cap (vd_grow al v) = al_grow al (vd_cap v)"
  by (simp add: vd_grow_def Let_def)

lemma vd_push_back_wf:
  assumes "allocator_ok al" and "vd_wf v"
  shows "vd_wf (vd_push_back al v x)"
proof (cases "vd_len v = vd_cap v")
  case True
  with assms have "length (vd_elems v) < vd_cap (vd_grow al v)"
    by (simp add: allocator_ok_def vd_len_def)
  with vd_grow_wf [OF assms] True show ?thesis
    by (auto simp: vd_push_back_def vd_wf_def)
next
  case False
  with assms show ?thesis by (auto simp: vd_push_back_def vd_wf_def vd_len_def)
qed

lemma vd_push_back_elems [simp]: "vd_elems (vd_push_back al v x) = vd_elems v @ [x]"
  by (simp add: vd_push_back_def Let_def)

lemma vd_pop_front_None: "vd_pop_front v = (v', None) \<Longrightarrow> v' = v \<and> vd_elems v = []"
  by (auto simp: vd_pop_front_def split: list.splits)

lemma vd_pop_front_Some:
  "vd_pop_front v = (v', Some x) \<Longrightarrow> vd_elems v = x # vd_elems v' \<and> vd_cap v' = vd_cap v"
  by (auto simp: vd_pop_front_def split: list.splits)

lemma vd_pop_front_wf: "vd_wf v \<Longrightarrow> vd_wf (fst (vd_pop_front v))"
  by (auto simp: vd_pop_front_def vd_wf_def vd_wrap_def split: list.splits)

lemma vd_retain_wf:
  "vd_wf v \<Longrightarrow> length (f (vd_elems v)) \<le> length (vd_elems v) \<Longrightarrow> vd_wf (vd_retain f v)"
  by (auto simp: vd_retain_def vd_wf_def)

lemma vd_retain_elems [simp]: "vd_elems (vd_retain f v) = f (vd_elems v)"
  by (simp add: vd_retain_def)

lemma vd_clear_wf: "vd_wf v \<Longrightarrow> vd_wf (vd_clear v)"
  by (auto simp: vd_clear_def vd_wf_def)

lemma vd_clone_wf: "allocator_ok al \<Longrightarrow> vd_wf (vd_clone al v)"
  by (simp add: vd_clone_def vd_wf_def vd_len_def allocator_ok_def)

section \<open>Making the contents contiguous\<close>

lemma vd_second_len_le: "vd_wf v \<Longrightarrow> vd_second_len v \<le> vd_len v"
  by (auto simp: vd_wf_def vd_second_len_def vd_len_def)

text \<open>Rotating right by the length of the second slice leaves a single slice.\<close>

lemma vd_rotate_right_contiguous:
  assumes "vd_wf v"
  obtains v' where "vd_rotate_right (vd_second_len v) v = Some v'" and "vd_wf v'"
    and "vd_second_len v' = 0" and "vd_cap v' = vd_cap v"
    and "vd_elems v' = rotate (vd_len v - vd_second_len v) (vd_elems v)"
proof -
  let ?s = "vd_second_len v" and ?n = "vd_len v"
  from assms have s: "?s \<le> ?n" by (rule vd_second_len_le)
  then obtain v' where v': "vd_rotate_right ?s v = Some v'"
    by (auto simp: vd_rotate_right_def Let_def)
  have elems: "vd_elems v' = rotate (?n - ?s) (vd_elems v)"
  proof (cases "?n - ?s = length (vd_elems v)")
    case True
    with v' show ?thesis by (auto simp: vd_rotate_right_def Let_def vd_len_def split: if_splits)
  next
    case False
    then have "?n - ?s < length (vd_elems v)" by (simp add: vd_len_def)
    with v' show ?thesis
      by (auto simp: vd_rotate_right_def Let_def rotate_drop_take split: if_splits)
  qed
  from v' s assms have "vd_second_len v' = 0" "vd_wf v'" "vd_cap v' = vd_cap v"
    by (auto simp: vd_rotate_right_def Let_def vd_second_len_def vd_len_def vd_wf_def vd_wrap_def
        split: if_splits)
  with v' elems that show thesis by blast
qed

end
