(* ===== verification/PDeque.thy ===== *)
theory PDeque
  imports Data_Policy Vec_Deque
begin

text \<open>
  \<open>src/src/pdeque.rs\<close>: the bounded deque that respects the delivery policies. The state is the
  ring buffer, the capacity limit and the ordering flag. Every operation takes the trait's answers
  (a \<open>data_delivery\<close> record) at the moment it runs; a push also takes the allocator.

  A push returns an option: \<open>None\<close> is the panic of the assertion in \<open>sort_by_priority\<close> (or of
  \<open>rotate_right\<close>), which \<open>try_push_total\<close> shows not to happen.
\<close>

record 'a deque =
  dq_data :: "'a vec_deque"
  dq_capacity :: usize
  dq_ordered :: bool

abbreviation dq_elems :: "'a deque \<Rightarrow> 'a list" where
  "dq_elems d \<equiv> vd_elems (dq_data d)"

section \<open>Operations\<close>

definition bounded :: "allocator \<Rightarrow> usize \<Rightarrow> 'a deque" where
  "bounded al cap =
     \<lparr> dq_data = vd_with_capacity al cap, dq_capacity = cap, dq_ordered = False \<rparr>"

definition set_ordering :: "bool \<Rightarrow> 'a deque \<Rightarrow> 'a deque" where
  "set_ordering v d = d\<lparr> dq_ordered := v \<rparr>"

definition deque_clone :: "allocator \<Rightarrow> 'a deque \<Rightarrow> 'a deque" where
  "deque_clone al d = d\<lparr> dq_data := vd_clone al (dq_data d) \<rparr>"

definition sort_by_priority :: "'a data_delivery \<Rightarrow> 'a vec_deque \<Rightarrow> 'a vec_deque option" where
  "sort_by_priority dp v =
     (case vd_rotate_right (vd_second_len v) v of
        None \<Rightarrow> None
      | Some v' \<Rightarrow>
          if vd_second_len v' = 0 then Some (vd_sort_first (priority dp) v') else None)"

text \<open>The macros \<open>push!\<close> and \<open>push_final!\<close> of \<open>try_push\<close>.\<close>

definition push :: "allocator \<Rightarrow> 'a data_delivery \<Rightarrow> 'a deque \<Rightarrow> 'a \<Rightarrow>
    ('a deque \<times> 'a storage_try_push_output) option" where
  "push al dp d value =
     (let v = vd_push_back al (dq_data d) value in
      if dq_ordered d
      then (case sort_by_priority dp v of
              None \<Rightarrow> None
            | Some v' \<Rightarrow> Some (d\<lparr> dq_data := v' \<rparr>, Pushed))
      else Some (d\<lparr> dq_data := v \<rparr>, Pushed))"

definition push_final :: "allocator \<Rightarrow> 'a data_delivery \<Rightarrow> 'a deque \<Rightarrow> 'a \<Rightarrow>
    ('a deque \<times> 'a storage_try_push_output) option" where
  "push_final al dp d value =
     (if vd_len (dq_data d) < dq_capacity d then push al dp d value else Some (d, Full value))"

definition try_push :: "allocator \<Rightarrow> 'a data_delivery \<Rightarrow> 'a deque \<Rightarrow> 'a \<Rightarrow>
    ('a deque \<times> 'a storage_try_push_output) option" where
  "try_push al dp d0 value =
     (if is_expired dp value then Some (d0, Pushed)
      else
        let d = (if is_delivery_policy_single dp value
                 then d0\<lparr> dq_data := vd_retain
                        (filter (\<lambda>x. \<not> eq_kind dp x value \<and> \<not> is_expired dp x)) (dq_data d0) \<rparr>
                 else d0)
        in if vd_len (dq_data d) < dq_capacity d then push al dp d value
           else (case delivery_policy dp value of
                Always \<Rightarrow>
                  push_final al dp (d\<lparr> dq_data := vd_retain
                    (retain_but_first (\<lambda>x. is_expired dp x \<or> is_delivery_policy_optional dp x) False)
                    (dq_data d) \<rparr>) value
              | Single \<Rightarrow>
                  push_final al dp (d\<lparr> dq_data := vd_retain
                    (retain_but_first (\<lambda>x. is_expired dp x \<or> is_delivery_policy_optional dp x) False)
                    (dq_data d) \<rparr>) value
              | Latest \<Rightarrow>
                  push_final al dp (d\<lparr> dq_data := vd_retain
                    (retain_but_first (\<lambda>x. is_expired dp x \<or> is_delivery_policy_optional dp x
                       \<or> eq_kind dp x value) False)
                    (dq_data d) \<rparr>) value
              | Optional \<Rightarrow> Some (d, Skipped)
              | SingleOptional \<Rightarrow> Some (d, Skipped)))"

text \<open>The loop of \<open>get\<close>: pop until an unexpired value or the end.\<close>

function get_loop :: "'a data_delivery \<Rightarrow> 'a vec_deque \<Rightarrow> 'a vec_deque \<times> 'a option" where
  "get_loop dp v =
     (case vd_pop_front v of
        (v', Some val) \<Rightarrow> if \<not> is_expired dp val then (v', Some val) else get_loop dp v'
      | (v', None) \<Rightarrow> (v', None))"
  by pat_completeness auto
termination
  by (relation "measure (\<lambda>(dp, v). length (vd_elems v))")
    (auto dest!: sym [of "(_, Some _)"] vd_pop_front_Some)

declare get_loop.simps [simp del]

definition get :: "'a data_delivery \<Rightarrow> 'a deque \<Rightarrow> 'a deque \<times> 'a option" where
  "get dp d = (let (v, r) = get_loop dp (dq_data d) in (d\<lparr> dq_data := v \<rparr>, r))"

definition clear :: "'a deque \<Rightarrow> 'a deque" where
  "clear d = d\<lparr> dq_data := vd_clear (dq_data d) \<rparr>"

definition len :: "'a deque \<Rightarrow> usize" where
  "len d = vd_len (dq_data d)"

definition is_full :: "'a deque \<Rightarrow> bool" where
  "is_full d = (len d = dq_capacity d)"

definition is_empty :: "'a deque \<Rightarrow> bool" where
  "is_empty d = (vd_elems (dq_data d) = [])"

section \<open>Invariant\<close>

definition dq_wf :: "'a deque \<Rightarrow> bool" where
  [inv_defs]: "dq_wf d \<longleftrightarrow> vd_wf (dq_data d) \<and> length (dq_elems d) \<le> dq_capacity d"

lemma bounded_wf [simp]: "dq_wf (bounded al n)"
  by (simp add: bounded_def dq_wf_def vd_with_capacity_def vd_wf_def)

lemma set_ordering_wf [simp]: "dq_wf (set_ordering b d) = dq_wf d"
  by (simp add: set_ordering_def dq_wf_def)

lemma clear_wf: "dq_wf d \<Longrightarrow> dq_wf (clear d)"
  by (auto simp: clear_def dq_wf_def vd_clear_wf) (simp add: vd_clear_def)

lemma deque_clone_wf: "allocator_ok al \<Longrightarrow> dq_wf d \<Longrightarrow> dq_wf (deque_clone al d)"
  by (simp add: deque_clone_def dq_wf_def vd_clone_wf) (simp add: vd_clone_def)

section \<open>What a push does, on lists\<close>

text \<open>
  The contents after the evictions a push makes, before the value itself is stored: a single-copy
  value first drops the values of its kind and the expired ones; if there is still no room, a
  value that must be delivered drops the first entry it may displace.
\<close>

definition displaceable :: "'a data_delivery \<Rightarrow> 'a \<Rightarrow> 'a \<Rightarrow> bool" where
  "displaceable dp a x \<longleftrightarrow>
     is_expired dp x \<or> is_delivery_policy_optional dp x \<or>
     (delivery_policy dp a = Latest \<and> eq_kind dp x a)"

definition drop_kind :: "'a data_delivery \<Rightarrow> 'a \<Rightarrow> 'a list \<Rightarrow> 'a list" where
  "drop_kind dp a xs =
     (if is_delivery_policy_single dp a
      then filter (\<lambda>x. \<not> eq_kind dp x a \<and> \<not> is_expired dp x) xs else xs)"

definition make_room :: "'a data_delivery \<Rightarrow> usize \<Rightarrow> 'a \<Rightarrow> 'a list \<Rightarrow> 'a list" where
  "make_room dp cap a xs =
     (let ys = drop_kind dp a xs in
      if length ys < cap \<or> is_delivery_policy_optional dp a then ys
      else retain_but_first (displaceable dp a) False ys)"

text \<open>
  How the stored contents are laid out: as they are in an unordered deque; in an ordered one
  sorted by priority after some rotation (the ring buffer is made contiguous first).
\<close>

definition arranged :: "'a data_delivery \<Rightarrow> bool \<Rightarrow> 'a list \<Rightarrow> 'a list \<Rightarrow> bool" where
  "arranged dp ord xs ys \<longleftrightarrow>
     (if ord then \<exists>k. ys = sort_key (priority dp) (rotate k xs) else ys = xs)"

lemma arranged_mset: "arranged dp ord xs ys \<Longrightarrow> mset ys = mset xs"
  by (auto simp: arranged_def split: if_splits)

lemma arranged_set: "arranged dp ord xs ys \<Longrightarrow> set ys = set xs"
  by (drule arranged_mset) (metis set_mset_mset)

lemma arranged_length: "arranged dp ord xs ys \<Longrightarrow> length ys = length xs"
  by (drule arranged_mset) (metis size_mset)

lemma arranged_sorted: "arranged dp True xs ys \<Longrightarrow> sorted (map (priority dp) ys)"
  by (auto simp: arranged_def)

lemma length_drop_kind: "length (drop_kind dp a xs) \<le> length xs"
  by (simp add: drop_kind_def)

lemma mset_make_room: "mset (make_room dp cap a xs) \<subseteq># mset xs"
proof -
  have "mset (drop_kind dp a xs) \<subseteq># mset xs" by (simp add: drop_kind_def multiset_filter_subset)
  then show ?thesis
    by (auto simp: make_room_def Let_def intro: subset_mset.order_trans [OF mset_retain_but_first])
qed

lemma length_make_room: "length (make_room dp cap a xs) \<le> length xs"
  using length_drop_kind [of dp a xs]
    length_retain_but_first_le [of "displaceable dp a" "drop_kind dp a xs"]
  by (simp add: make_room_def Let_def del: retain_but_first.simps)

section \<open>The operations against the list description\<close>

lemma sort_by_priority_spec:
  assumes "vd_wf v"
  obtains v' k where "sort_by_priority dp v = Some v'" and "vd_wf v'" and "vd_cap v' = vd_cap v"
    and "k = vd_len v - vd_second_len v"
    and "vd_elems v' = sort_key (priority dp) (rotate k (vd_elems v))"
proof -
  obtain w where w: "vd_rotate_right (vd_second_len v) v = Some w" "vd_wf w"
    "vd_second_len w = 0" "vd_cap w = vd_cap v"
    "vd_elems w = rotate (vd_len v - vd_second_len v) (vd_elems v)"
    using assms by (rule vd_rotate_right_contiguous)
  then have "sort_by_priority dp v = Some (vd_sort_first (priority dp) w)"
    by (simp add: sort_by_priority_def)
  moreover from w have "vd_wf (vd_sort_first (priority dp) w)"
    "vd_cap (vd_sort_first (priority dp) w) = vd_cap v"
    "vd_elems (vd_sort_first (priority dp) w) =
       sort_key (priority dp) (rotate (vd_len v - vd_second_len v) (vd_elems v))"
    by (simp_all add: vd_sort_first_def vd_wf_def vd_len_def)
  ultimately show thesis using that by blast
qed

lemma push_spec:
  assumes "allocator_ok al" and "dq_wf d" and "length (dq_elems d) < dq_capacity d"
  obtains d' where "push al dp d a = Some (d', Pushed)" and "dq_wf d'"
    and "dq_capacity d' = dq_capacity d" and "dq_ordered d' = dq_ordered d"
    and "arranged dp (dq_ordered d) (dq_elems d @ [a]) (dq_elems d')"
proof -
  let ?v = "vd_push_back al (dq_data d) a"
  from assms have wf: "vd_wf ?v" by (simp add: dq_wf_def vd_push_back_wf)
  show thesis
  proof (cases "dq_ordered d")
    case True
    obtain v' k where v': "sort_by_priority dp ?v = Some v'" "vd_wf v'"
      "vd_elems v' = sort_key (priority dp) (rotate k (vd_elems ?v))"
      using wf by (rule sort_by_priority_spec)
    from v' True assms(3) show thesis
      by (intro that [of "d\<lparr> dq_data := v' \<rparr>"]) (auto simp: push_def dq_wf_def arranged_def)
  next
    case False
    with wf assms(3) show thesis
      by (intro that [of "d\<lparr> dq_data := ?v \<rparr>"]) (auto simp: push_def dq_wf_def arranged_def)
  qed
qed

text \<open>The evictions of \<open>try_push\<close>, as an operation on the whole deque.\<close>

definition evict :: "'a data_delivery \<Rightarrow> 'a \<Rightarrow> 'a deque \<Rightarrow> 'a deque" where
  "evict dp a d = d\<lparr> dq_data := vd_retain (make_room dp (dq_capacity d) a) (dq_data d) \<rparr>"

lemma evict_wf: "dq_wf d \<Longrightarrow> dq_wf (evict dp a d)"
  using length_make_room [of dp "dq_capacity d" a "dq_elems d"]
  by (auto simp: evict_def dq_wf_def intro: vd_retain_wf)

lemma displaceable_abs:
  "displaceable dp a =
     (\<lambda>x. is_expired dp x \<or> is_delivery_policy_optional dp x \<or>
        (delivery_policy dp a = Latest \<and> eq_kind dp x a))"
  by (simp add: displaceable_def fun_eq_iff)

lemma vd_retain_id: "f (vd_elems v) = vd_elems v \<Longrightarrow> vd_retain f v = v"
  by (simp add: vd_retain_def)

lemma try_push_evict:
  "\<not> is_expired dp a \<Longrightarrow>
   try_push al dp d a =
     (let e = evict dp a d in
      if length (dq_elems e) < dq_capacity e then push al dp e a
      else Some (e, if is_delivery_policy_optional dp a then Skipped else Full a))"
  by (cases "delivery_policy dp a")
    (simp_all add: try_push_def evict_def make_room_def drop_kind_def displaceable_abs
      push_final_def is_delivery_policy_single_def is_delivery_policy_optional_def vd_len_def
      vd_retain_def Let_def)

lemma try_push_expired: "is_expired dp a \<Longrightarrow> try_push al dp d a = Some (d, Pushed)"
  by (simp add: try_push_def)

lemma try_push_cases:
  assumes "allocator_ok al" and "dq_wf d"
  obtains (expired) "is_expired dp a" and "try_push al dp d a = Some (d, Pushed)"
  | (pushed) d' where "\<not> is_expired dp a" and "try_push al dp d a = Some (d', Pushed)"
      and "dq_wf d'" and "dq_capacity d' = dq_capacity d" and "dq_ordered d' = dq_ordered d"
      and "length (make_room dp (dq_capacity d) a (dq_elems d)) < dq_capacity d"
      and "arranged dp (dq_ordered d) (make_room dp (dq_capacity d) a (dq_elems d) @ [a])
             (dq_elems d')"
  | (refused) d' r where "\<not> is_expired dp a" and "try_push al dp d a = Some (d', r)"
      and "dq_wf d'" and "dq_capacity d' = dq_capacity d" and "dq_ordered d' = dq_ordered d"
      and "\<not> length (make_room dp (dq_capacity d) a (dq_elems d)) < dq_capacity d"
      and "dq_elems d' = make_room dp (dq_capacity d) a (dq_elems d)"
      and "r = (if is_delivery_policy_optional dp a then Skipped else Full a)"
proof (cases "is_expired dp a")
  case True
  then show thesis using expired by (simp add: try_push_expired)
next
  case False
  let ?e = "evict dp a d"
  have e: "dq_wf ?e" "dq_capacity ?e = dq_capacity d" "dq_ordered ?e = dq_ordered d"
    "dq_elems ?e = make_room dp (dq_capacity d) a (dq_elems d)"
    using evict_wf [OF assms(2)] by (simp_all add: evict_def)
  show thesis
  proof (cases "length (dq_elems ?e) < dq_capacity ?e")
    case True
    from push_spec [OF assms(1) e(1) True, of dp a] obtain d' where d':
      "push al dp ?e a = Some (d', Pushed)" "dq_wf d'" "dq_capacity d' = dq_capacity ?e"
      "dq_ordered d' = dq_ordered ?e" "arranged dp (dq_ordered ?e) (dq_elems ?e @ [a]) (dq_elems d')"
      by blast
    with False True e show thesis
      by (intro pushed [of d']) (simp_all add: try_push_evict Let_def)
  next
    case full: False
    with False e show thesis
      by (intro refused [of ?e]) (simp_all add: try_push_evict Let_def)
  qed
qed

lemma filter_make_room:
  assumes "\<And>x. Q x \<Longrightarrow> \<not> displaceable dp a x \<and> \<not> (is_delivery_policy_single dp a \<and> eq_kind dp x a)"
  shows "filter Q (make_room dp cap a xs) = filter Q xs"
proof -
  from assms have "filter Q (drop_kind dp a xs) = filter Q xs"
    by (auto simp: drop_kind_def displaceable_def intro!: filter_cong)
  with assms show ?thesis
    by (simp add: make_room_def Let_def filter_retain_but_first)
qed

lemma set_make_room: "set (make_room dp cap a xs) \<subseteq> set (drop_kind dp a xs)"
  by (simp add: make_room_def Let_def set_retain_but_first)

lemma make_room_full:
  assumes "length xs \<le> cap" and "\<not> length (make_room dp cap a xs) < cap"
  shows "make_room dp cap a xs = xs" and "length xs = cap"
    and "is_delivery_policy_optional dp a \<or> \<not> list_ex (displaceable dp a) xs"
proof -
  let ?ys = "drop_kind dp a xs"
  from assms have "length (make_room dp cap a xs) = cap"
    using length_make_room [of dp cap a xs] by simp
  with assms length_drop_kind [of dp a xs] length_retain_but_first_le [of "displaceable dp a" ?ys]
  have len: "length xs = cap" "length ?ys = length xs"
    by (auto simp: make_room_def Let_def split: if_splits)
  then show "length xs = cap" by simp
  from len(2) have ys: "?ys = xs"
    by (simp add: drop_kind_def filter_same_length split: if_splits)
  show "is_delivery_policy_optional dp a \<or> \<not> list_ex (displaceable dp a) xs"
  proof (rule ccontr)
    assume neg: "\<not> ?thesis"
    with len ys have "make_room dp cap a xs = retain_but_first (displaceable dp a) False xs"
      by (simp add: make_room_def)
    with neg assms(2) len have "length xs = 0"
      by (simp add: length_retain_but_first split: if_splits)
    with neg show False by simp
  qed
  with len ys show "make_room dp cap a xs = xs"
    by (auto simp: make_room_def Let_def retain_but_first_none)
qed

text \<open>Evaluation of pushes and reads on concrete deques.\<close>

lemmas vec_deque_eval =
  vd_new_def vd_with_capacity_def vd_len_def vd_wrap_def vd_second_len_def vd_grow_def
  vd_push_back_def vd_pop_front_def vd_retain_def vd_rotate_right_def vd_sort_first_def
  sort_key_def exact_allocator_def Let_def

lemmas deque_eval =
  vec_deque_eval bounded_def set_ordering_def sort_by_priority_def push_def push_final_def
  try_push_def get_loop.simps get_def default_data_delivery_def
  is_delivery_policy_single_def is_delivery_policy_optional_def

section \<open>Properties of a push\<close>

text \<open>
  C1: with a well-formed deque a push never panics, keeps the deque well formed (ring buffer
  consistent, never more elements than the capacity), and does what the list description says: an
  expired value is reported as pushed and not stored; otherwise the evictions are made, and the
  value is stored if that left room, else skipped when it is optional and given back when not.
\<close>

theorem try_push_spec:
  assumes "allocator_ok al" and "dq_wf d"
  shows "\<exists>d' r. try_push al dp d a = Some (d', r) \<and> dq_wf d' \<and>
    dq_capacity d' = dq_capacity d \<and> dq_ordered d' = dq_ordered d \<and>
    (if is_expired dp a then d' = d \<and> r = Pushed
     else let xs = make_room dp (dq_capacity d) a (dq_elems d) in
       if length xs < dq_capacity d
       then r = Pushed \<and> arranged dp (dq_ordered d) (xs @ [a]) (dq_elems d')
       else dq_elems d' = xs \<and> r = (if is_delivery_policy_optional dp a then Skipped else Full a))"
  using assms by (rule try_push_cases [where dp = dp and a = a]) (use assms in auto)

theorem try_push_spec_witness:
  "\<exists>d'. try_push exact_allocator
     \<lparr> delivery_policy = (\<lambda>x. if x < 2 then Optional else Always), priority = (\<lambda>x. 100), eq_kind = (=),
       is_expired = (\<lambda>x. False) \<rparr>
     \<lparr> dq_data = \<lparr> vd_elems = [1, 2], vd_head = 0, vd_cap = 2 \<rparr>, dq_capacity = 2, dq_ordered = False \<rparr>
     (7 :: nat) = Some (d', Pushed) \<and> dq_wf d' \<and> dq_elems d' = [2, 7]"
proof -
  let ?dp = "\<lparr> delivery_policy = (\<lambda>x. if x < 2 then Optional else Always), priority = (\<lambda>x. 100), eq_kind = (=),
    is_expired = (\<lambda>x. False) \<rparr> :: nat data_delivery"
  let ?d = "\<lparr> dq_data = \<lparr> vd_elems = [1, 2], vd_head = 0, vd_cap = 2 \<rparr>, dq_capacity = 2,
    dq_ordered = False \<rparr>"
  have run: "\<exists>d'. try_push exact_allocator ?dp ?d 7 = Some (d', Pushed) \<and> dq_elems d' = [2, 7]"
    by (simp add: deque_eval)
  have "dq_wf ?d" by (simp add: dq_wf_def vd_wf_def)
  from try_push_spec [OF exact_allocator_ok this, of ?dp 7] run show ?thesis by auto
qed

text \<open>
  C10: a push never loses a protected value: whatever is not expired, not optional and not of
  the kind that the policy of the pushed value replaces is still stored afterwards, as often as
  before.
\<close>

theorem try_push_protects:
  assumes "allocator_ok al" and "dq_wf d" and "try_push al dp d a = Some (d', r)"
  shows "filter_mset (\<lambda>x. \<not> displaceable dp a x \<and> \<not> (is_delivery_policy_single dp a \<and> eq_kind dp x a))
           (mset (dq_elems d)) \<subseteq># mset (dq_elems d')"
proof -
  let ?Q = "\<lambda>x. \<not> displaceable dp a x \<and> \<not> (is_delivery_policy_single dp a \<and> eq_kind dp x a)"
  let ?room = "make_room dp (dq_capacity d) a (dq_elems d)"
  have "filter_mset ?Q (mset (dq_elems d)) = mset (filter ?Q ?room)"
    by (simp add: filter_make_room)
  then have keep: "filter_mset ?Q (mset (dq_elems d)) \<subseteq># mset ?room" by simp
  from assms(1,2) show ?thesis
  proof (cases rule: try_push_cases [where dp = dp and a = a])
    case expired
    with assms(3) show ?thesis by simp
  next
    case (pushed e)
    with assms(3) have eq: "mset (dq_elems d') = mset ?room + {#a#}"
      by (simp add: arranged_mset)
    show ?thesis unfolding eq by (rule subset_mset.order_trans [OF keep mset_subset_eq_add_left])
  next
    case (refused e s)
    with assms(3) keep show ?thesis by simp
  qed
qed

theorem try_push_protects_witness:
  "try_push exact_allocator (default_data_delivery (\<lambda>_. 0))
     \<lparr> dq_data = \<lparr> vd_elems = [1, 2], vd_head = 0, vd_cap = 3 \<rparr>, dq_capacity = 3, dq_ordered = False \<rparr> (9 :: nat) =
   Some (\<lparr> dq_data = \<lparr> vd_elems = [1, 2, 9], vd_head = 0, vd_cap = 3 \<rparr>, dq_capacity = 3,
     dq_ordered = False \<rparr>, Pushed) \<and>
   filter_mset (\<lambda>x. \<not> displaceable (default_data_delivery (\<lambda>_. 0)) 9 x \<and>
       \<not> (is_delivery_policy_single (default_data_delivery (\<lambda>_. 0)) (9 :: nat) \<and>
          eq_kind (default_data_delivery (\<lambda>_. 0)) x 9)) {#1, 2#} \<subseteq># mset [1, 2, 9]"
  using try_push_protects [of exact_allocator
      "\<lparr> dq_data = \<lparr> vd_elems = [1, 2], vd_head = 0, vd_cap = 3 \<rparr>, dq_capacity = 3,
         dq_ordered = False \<rparr>" "default_data_delivery (\<lambda>_. 0)" "9 :: nat"
      "\<lparr> dq_data = \<lparr> vd_elems = [1, 2, 9], vd_head = 0, vd_cap = 3 \<rparr>, dq_capacity = 3,
         dq_ordered = False \<rparr>" Pushed]
  by (simp add: deque_eval dq_wf_def vd_wf_def)

text \<open>
  A refused push changes nothing: when the result is not \<open>Pushed\<close> the stored values are
  exactly those from before, the deque is full, and a value given back is the pushed value, which
  then is not optional and finds nothing it may displace.
\<close>

theorem try_push_refused:
  assumes "allocator_ok al" and "dq_wf d" and "try_push al dp d a = Some (d', r)" and "r \<noteq> Pushed"
  shows "dq_elems d' = dq_elems d \<and> length (dq_elems d) = dq_capacity d \<and>
    (r = Skipped \<and> is_delivery_policy_optional dp a \<or>
     r = Full a \<and> \<not> is_delivery_policy_optional dp a \<and> \<not> list_ex (displaceable dp a) (dq_elems d))"
  using assms(1,2)
proof (cases rule: try_push_cases [where dp = dp and a = a])
  case (refused e s)
  from assms(2) have "length (dq_elems d) \<le> dq_capacity d" by (simp add: dq_wf_def)
  from make_room_full [OF this refused(6)] refused assms(3) show ?thesis by auto
qed (use assms in auto)

theorem try_push_refused_witness:
  "try_push exact_allocator (default_data_delivery (\<lambda>_. 0))
     \<lparr> dq_data = \<lparr> vd_elems = [1, 2], vd_head = 1, vd_cap = 2 \<rparr>, dq_capacity = 2,
        dq_ordered = True \<rparr> (9 :: nat) =
     Some (\<lparr> dq_data = \<lparr> vd_elems = [1, 2], vd_head = 1, vd_cap = 2 \<rparr>, dq_capacity = 2,
        dq_ordered = True \<rparr>, Full 9) \<and>
   \<not> list_ex (displaceable (default_data_delivery (\<lambda>_. 0)) 9) [1, 2 :: nat]"
proof -
  let ?d = "\<lparr> dq_data = \<lparr> vd_elems = [1, 2], vd_head = 1, vd_cap = 2 \<rparr>, dq_capacity = 2,
        dq_ordered = True \<rparr>"
  have run: "try_push exact_allocator (default_data_delivery (\<lambda>_. 0)) ?d (9 :: nat) = Some (?d, Full 9)"
    by (simp add: deque_eval)
  have wf: "dq_wf ?d" by (simp add: dq_wf_def vd_wf_def)
  from try_push_refused [OF exact_allocator_ok wf run] run show ?thesis by simp
qed

text \<open>
  After an unexpired single-copy value was stored, it is the only stored value of its
  kind (for a kind relation the value satisfies with itself).
\<close>

theorem try_push_single_copy:
  assumes "allocator_ok al" and "dq_wf d" and "try_push al dp d a = Some (d', Pushed)"
    and "is_delivery_policy_single dp a" and "\<not> is_expired dp a" and "eq_kind dp a a"
  shows "filter (\<lambda>x. eq_kind dp x a) (dq_elems d') = [a]"
  using assms(1,2)
proof (cases rule: try_push_cases [where dp = dp and a = a])
  case (pushed e)
  let ?room = "make_room dp (dq_capacity d) a (dq_elems d)"
  from assms(4) set_make_room [of dp "dq_capacity d" a "dq_elems d"] have "filter (\<lambda>x. eq_kind dp x a) ?room = []"
    by (fastforce simp: drop_kind_def filter_empty_conv)
  moreover from pushed(2) assms(3) have "d' = e" by simp
  then have "mset (dq_elems d') = mset (?room @ [a])" using pushed(7) by (simp add: arranged_mset)
  then have "mset (filter (\<lambda>x. eq_kind dp x a) (dq_elems d')) =
             mset (filter (\<lambda>x. eq_kind dp x a) (?room @ [a]))"
    by (simp only: mset_filter)
  ultimately have "mset (filter (\<lambda>x. eq_kind dp x a) (dq_elems d')) = {#a#}"
    using assms(6) by simp
  then show ?thesis by (simp only: mset_single_iff)
qed (use assms in \<open>auto simp: is_delivery_policy_single_def is_delivery_policy_optional_def split: if_splits\<close>)

theorem try_push_single_copy_witness:
  "filter (\<lambda>x. x = (5 :: nat)) [2, 5] = [5]"
proof -
  let ?dp = "\<lparr> delivery_policy = (\<lambda>_. Single), priority = (\<lambda>_. 100), eq_kind = (=),
    is_expired = (\<lambda>_. False) \<rparr> :: nat data_delivery"
  let ?d = "\<lambda>xs. \<lparr> dq_data = \<lparr> vd_elems = xs, vd_head = 0, vd_cap = 2 \<rparr>, dq_capacity = 2,
    dq_ordered = False \<rparr>"
  have run: "try_push exact_allocator ?dp (?d [5, 2]) 5 = Some (?d [2, 5], Pushed)"
    by (simp add: deque_eval)
  have "dq_wf (?d [5, 2])" by (simp add: dq_wf_def vd_wf_def)
  from try_push_single_copy [OF exact_allocator_ok this run] show ?thesis
    by (simp add: is_delivery_policy_single_def)
qed

section \<open>Priority ordering\<close>

text \<open>
  After an unexpired value was stored in an ordered deque, the contents are sorted by
  priority, lowest first, whatever order they were in before.
\<close>

theorem try_push_sorted:
  assumes "allocator_ok al" and "dq_wf d" and "try_push al dp d a = Some (d', Pushed)"
    and "dq_ordered d" and "\<not> is_expired dp a"
  shows "sorted (map (priority dp) (dq_elems d'))"
  using assms(1,2)
proof (cases rule: try_push_cases [where dp = dp and a = a])
  case (pushed e)
  with assms(3,4) show ?thesis by (auto intro: arranged_sorted)
qed (use assms in \<open>auto split: if_splits\<close>)

theorem try_push_sorted_witness: "sorted [1, 2, 3 :: nat]"
proof -
  let ?dp = "(default_data_delivery (\<lambda>_. 0))\<lparr> priority := \<lambda>x. x \<rparr> :: nat data_delivery"
  let ?d = "\<lambda>xs. \<lparr> dq_data = \<lparr> vd_elems = xs, vd_head = 0, vd_cap = 3 \<rparr>, dq_capacity = 3,
    dq_ordered = True \<rparr>"
  have run: "try_push exact_allocator ?dp (?d [3, 2]) 1 = Some (?d [1, 2, 3], Pushed)"
    by (simp add: deque_eval)
  have "dq_wf (?d [3, 2])" by (simp add: dq_wf_def vd_wf_def)
  from try_push_sorted [OF exact_allocator_ok this run] show ?thesis
    by (simp add: default_data_delivery_def)
qed

lemma push_contiguous:
  assumes "dq_wf d" and "dq_ordered d"
    and "vd_head (dq_data d) + length (dq_elems d) < vd_cap (dq_data d)"
    and "push al dp d a = Some (d', r)"
  shows "dq_elems d' = sort_key (priority dp) (dq_elems d @ [a])"
proof -
  let ?v = "vd_push_back al (dq_data d) a"
  from assms(3) have v: "?v = (dq_data d)\<lparr> vd_elems := dq_elems d @ [a] \<rparr>"
    by (simp add: vd_push_back_def vd_len_def Let_def)
  with assms have wf: "vd_wf ?v" and second: "vd_second_len ?v = 0"
    by (auto simp: dq_wf_def vd_wf_def vd_second_len_def vd_len_def)
  from wf obtain v' k where v': "sort_by_priority dp ?v = Some v'"
    "k = vd_len ?v - vd_second_len ?v" "vd_elems v' = sort_key (priority dp) (rotate k (vd_elems ?v))"
    by (rule sort_by_priority_spec)
  from v'(2) second have "k mod length (vd_elems ?v) = 0"
    by (simp add: vd_len_def)
  then have "rotate k (vd_elems ?v) = vd_elems ?v" by (rule rotate_id)
  with v' assms(2,4) show ?thesis by (auto simp: push_def)
qed

text \<open>
  As long as the new value does not wrap around the end of the ring buffer, the order
  of arrival is kept among values of the same priority: the new one comes last among its equals.
\<close>

theorem try_push_stable:
  assumes "allocator_ok al" and "dq_wf d" and "try_push al dp d a = Some (d', Pushed)"
    and "dq_ordered d" and "\<not> is_expired dp a"
    and "vd_head (dq_data d) + length (dq_elems d) < vd_cap (dq_data d)"
  shows "filter (\<lambda>x. priority dp x = p) (dq_elems d') =
    filter (\<lambda>x. priority dp x = p) (make_room dp (dq_capacity d) a (dq_elems d) @ [a])"
proof -
  let ?e = "evict dp a d"
  have e: "dq_elems ?e = make_room dp (dq_capacity d) a (dq_elems d)" "dq_ordered ?e"
    "vd_head (dq_data ?e) = vd_head (dq_data d)" "vd_cap (dq_data ?e) = vd_cap (dq_data d)"
    using assms(4) by (simp_all add: evict_def vd_retain_def)
  from assms(3,5) have "push al dp ?e a = Some (d', Pushed)"
    by (auto simp: try_push_evict Let_def split: if_splits)
  moreover from e assms(6) length_make_room [of dp "dq_capacity d" a "dq_elems d"]
  have "vd_head (dq_data ?e) + length (dq_elems ?e) < vd_cap (dq_data ?e)" by simp
  ultimately have "dq_elems d' = sort_key (priority dp) (dq_elems ?e @ [a])"
    using evict_wf [OF assms(2)] e(2) by (intro push_contiguous)
  with e(1) show ?thesis by (simp only: sort_key_stable)
qed

theorem try_push_stable_witness:
  "filter (\<lambda>x. x div 10 = 1) [11, 12, 20 :: nat] = filter (\<lambda>x. x div 10 = 1) [11, 20, 12]"
proof -
  let ?dp = "(default_data_delivery (\<lambda>_. 0))\<lparr> priority := \<lambda>x. x div 10 \<rparr> :: nat data_delivery"
  let ?d = "\<lambda>xs. \<lparr> dq_data = \<lparr> vd_elems = xs, vd_head = 0, vd_cap = 3 \<rparr>, dq_capacity = 3,
    dq_ordered = True \<rparr>"
  have run: "try_push exact_allocator ?dp (?d [11, 20]) 12 = Some (?d [11, 12, 20], Pushed)"
    by (simp add: deque_eval)
  have "dq_wf (?d [11, 20])" by (simp add: dq_wf_def vd_wf_def)
  from try_push_stable [OF exact_allocator_ok this run, of 1] show ?thesis
    by (simp add: default_data_delivery_def make_room_def drop_kind_def
        is_delivery_policy_single_def)
qed


section \<open>Taking values out\<close>

lemma get_loop_spec:
  "vd_elems (fst (get_loop dp v)) = tl (dropWhile (is_expired dp) (vd_elems v)) \<and>
   snd (get_loop dp v) =
     (case dropWhile (is_expired dp) (vd_elems v) of [] \<Rightarrow> None | x # _ \<Rightarrow> Some x) \<and>
   vd_cap (fst (get_loop dp v)) = vd_cap v \<and> (vd_wf v \<longrightarrow> vd_wf (fst (get_loop dp v)))"
proof (induction dp v rule: get_loop.induct)
  case (1 dp v)
  show ?case
  proof (cases "vd_pop_front v")
    case (Pair v' r)
    have wf: "vd_wf v \<Longrightarrow> vd_wf v'" using vd_pop_front_wf [of v] Pair by simp
    show ?thesis
    proof (cases r)
      case None
      with Pair vd_pop_front_None [of v v'] wf show ?thesis by (simp add: get_loop.simps [of dp v])
    next
      case (Some x)
      with Pair vd_pop_front_Some [of v v' x] wf "1.IH" [OF Pair [symmetric] Some] show ?thesis
        by (auto simp: get_loop.simps [of dp v])
    qed
  qed
qed

lemma get_alt:
  "get dp d = (d\<lparr> dq_data := fst (get_loop dp (dq_data d)) \<rparr>, snd (get_loop dp (dq_data d)))"
  by (simp add: get_def split_beta)

lemma get_elems: "dq_elems (fst (get dp d)) = tl (dropWhile (is_expired dp) (dq_elems d))"
  using get_loop_spec [of dp "dq_data d"] by (simp add: get_alt)

lemma get_result:
  "snd (get dp d) = (case dropWhile (is_expired dp) (dq_elems d) of [] \<Rightarrow> None | x # _ \<Rightarrow> Some x)"
  using get_loop_spec [of dp "dq_data d"] by (simp add: get_alt)

lemma get_frame [simp]:
  "dq_capacity (fst (get dp d)) = dq_capacity d" "dq_ordered (fst (get dp d)) = dq_ordered d"
  by (simp_all add: get_alt)

lemma length_get: "length (dq_elems (fst (get dp d))) \<le> length (dq_elems d)"
  using length_dropWhile_le [of "is_expired dp" "dq_elems d"] by (simp add: get_elems)

lemma get_wf: "dq_wf d \<Longrightarrow> dq_wf (fst (get dp d))"
  using get_loop_spec [of dp "dq_data d"] length_get [of dp d]
  by (simp add: dq_wf_def get_alt)

text \<open>
  C17: \<open>get\<close> always returns: it drops the expired values at the front, takes the first unexpired
  one out and leaves everything behind it; it returns nothing, and leaves the deque empty, just
  when every stored value has expired.
\<close>

theorem get_first_unexpired:
  "(case dropWhile (is_expired dp) (dq_elems d) of
      [] \<Rightarrow> snd (get dp d) = None \<and> dq_elems (fst (get dp d)) = []
    | x # xs \<Rightarrow> snd (get dp d) = Some x \<and> dq_elems (fst (get dp d)) = xs)"
  by (cases "dropWhile (is_expired dp) (dq_elems d)")
    (simp_all add: get_elems get_result del: dropWhile_eq_Nil_conv)

end
