(* ===== verification/Channel_Storage.thy ===== *)
theory Channel_Storage
  imports PDeque
begin

text \<open>
  The trait \<open>ChannelStorage\<close> of \<open>src/src/base_channel.rs\<close> as a record of operations, its two
  implementations in the crate, the plain \<open>VecDeque\<close> (\<open>src/src/channel.rs\<close>) and the policy deque
  (\<open>src/src/policy_channel.rs\<close>), and the contract the channels rely on as a locale, interpreted by
  both. A stricter contract holds for the first-in first-out storage only.

  An operation takes the environment of type \<open>'e\<close> it runs in: for the policy deque the answers of
  the value type's \<open>DataDeliveryPolicy\<close> at that moment, for the plain deque nothing. The
  constructor and the push return \<open>None\<close> for a panic.
\<close>

record ('e, 'a, 's) channel_storage =
  cs_with_capacity_and_ordering :: "usize \<Rightarrow> bool \<Rightarrow> 's option"
  cs_try_push :: "'e \<Rightarrow> 's \<Rightarrow> 'a \<Rightarrow> ('s \<times> 'a storage_try_push_output) option"
  cs_get :: "'e \<Rightarrow> 's \<Rightarrow> 's \<times> 'a option"
  cs_len :: "'s \<Rightarrow> usize"
  cs_is_full :: "'s \<Rightarrow> bool"
  cs_is_empty :: "'s \<Rightarrow> bool"

section \<open>The plain deque\<close>

definition vecdeque_try_push :: "allocator \<Rightarrow> 'a vec_deque \<Rightarrow> 'a \<Rightarrow>
    'a vec_deque \<times> 'a storage_try_push_output" where
  "vecdeque_try_push al v a =
     (if vd_len v = vd_cap v then (v, Full a) else (vd_push_back al v a, Pushed))"

definition vecdeque_storage :: "allocator \<Rightarrow> (unit, 'a, 'a vec_deque) channel_storage" where
  "vecdeque_storage al =
     \<lparr> cs_with_capacity_and_ordering =
         (\<lambda>cap ordering. if ordering then None else Some (vd_with_capacity al cap)),
       cs_try_push = (\<lambda>_ v a. Some (vecdeque_try_push al v a)),
       cs_get = (\<lambda>_ v. vd_pop_front v),
       cs_len = vd_len,
       cs_is_full = (\<lambda>v. vd_len v = vd_cap v),
       cs_is_empty = (\<lambda>v. vd_elems v = []) \<rparr>"

section \<open>The policy deque\<close>

definition deque_storage :: "allocator \<Rightarrow> ('a data_delivery, 'a, 'a deque) channel_storage" where
  "deque_storage al =
     \<lparr> cs_with_capacity_and_ordering =
         (\<lambda>cap ordering. Some (set_ordering ordering (bounded al cap))),
       cs_try_push = (\<lambda>dp d a. try_push al dp d a),
       cs_get = (\<lambda>dp d. get dp d),
       cs_len = len,
       cs_is_full = is_full,
       cs_is_empty = is_empty \<rparr>"

section \<open>What a channel relies on\<close>

text \<open>
  \<open>elems\<close> lists the stored values in the order they would leave. A storage may drop values on
  its own (expired or displaced ones); it never invents any, never gives back another value than
  the pushed one, and is empty when it has nothing to give.
\<close>

locale storage_contract =
  fixes st :: "('e, 'a, 's) channel_storage"
    and inv :: "'s \<Rightarrow> bool"
    and elems :: "'s \<Rightarrow> 'a list"
    and cap :: "'s \<Rightarrow> usize"
  assumes new_storage: "cs_with_capacity_and_ordering st n ordr = Some s \<Longrightarrow>
      inv s \<and> elems s = [] \<and> n \<le> cap s"
    and push_total: "inv s \<Longrightarrow> \<exists>s' r. cs_try_push st e s a = Some (s', r)"
    and push_inv: "inv s \<Longrightarrow> cs_try_push st e s a = Some (s', r) \<Longrightarrow> inv s' \<and> cap s' = cap s"
    and push_pushed: "inv s \<Longrightarrow> cs_try_push st e s a = Some (s', Pushed) \<Longrightarrow>
      mset (elems s') \<subseteq># add_mset a (mset (elems s))"
    and push_skipped: "inv s \<Longrightarrow> cs_try_push st e s a = Some (s', Skipped) \<Longrightarrow>
      elems s' = elems s"
    and push_full: "inv s \<Longrightarrow> cs_try_push st e s a = Some (s', Full b) \<Longrightarrow>
      b = a \<and> elems s' = elems s \<and> length (elems s) = cap s"
    and get_inv: "inv s \<Longrightarrow> cs_get st e s = (s', res) \<Longrightarrow> inv s' \<and> cap s' = cap s"
    and get_none: "inv s \<Longrightarrow> cs_get st e s = (s', None) \<Longrightarrow> elems s' = []"
    and get_some: "inv s \<Longrightarrow> cs_get st e s = (s', Some x) \<Longrightarrow>
      \<exists>pre. elems s = pre @ x # elems s'"
    and len_elems: "cs_len st s = length (elems s)"
    and is_empty_elems: "cs_is_empty st s \<longleftrightarrow> elems s = []"
    and is_full_elems: "cs_is_full st s \<longleftrightarrow> length (elems s) = cap s"
    and bounded_elems: "inv s \<Longrightarrow> length (elems s) \<le> cap s"
begin

lemma push_pushed_length: "inv s \<Longrightarrow> cs_try_push st e s a = Some (s', Pushed) \<Longrightarrow>
    length (elems s') \<le> Suc (length (elems s))"
  by (drule (1) push_pushed) (drule size_mset_mono, simp)

lemma get_some_mset: "inv s \<Longrightarrow> cs_get st e s = (s', Some x) \<Longrightarrow>
    add_mset x (mset (elems s')) \<subseteq># mset (elems s)"
  by (drule (1) get_some) auto

lemma get_some_less: "inv s \<Longrightarrow> cs_get st e s = (s', Some x) \<Longrightarrow> length (elems s') < length (elems s)"
  by (drule (1) get_some) auto

lemma get_subset: "inv s \<Longrightarrow> cs_get st e s = (s', r) \<Longrightarrow> set (elems s') \<subseteq> set (elems s)"
  by (cases r) (auto dest: get_none get_some)

lemma push_cases:
  assumes "inv s"
  obtains (pushed) s' where "cs_try_push st e s a = Some (s', Pushed)" and "inv s'"
      and "cap s' = cap s" and "length (elems s') \<le> Suc (length (elems s))"
  | (skipped) s' where "cs_try_push st e s a = Some (s', Skipped)" and "inv s'"
      and "cap s' = cap s" and "elems s' = elems s"
  | (full) s' where "cs_try_push st e s a = Some (s', Full a)" and "inv s'"
      and "cap s' = cap s" and "elems s' = elems s" and "length (elems s) = cap s"
proof -
  from push_total [OF assms] obtain s' r where p: "cs_try_push st e s a = Some (s', r)" by blast
  show thesis
  proof (cases r)
    case Pushed
    with p assms push_inv push_pushed_length pushed show thesis by blast
  next
    case Skipped
    with p assms push_inv push_skipped skipped show thesis by blast
  next
    case (Full b)
    with p assms push_inv push_full full show thesis by blast
  qed
qed

lemma get_cases:
  assumes "inv s"
  obtains (none) s' where "cs_get st e s = (s', None)" and "inv s'" and "cap s' = cap s"
      and "elems s' = []"
  | (some) s' x where "cs_get st e s = (s', Some x)" and "inv s'" and "cap s' = cap s"
      and "length (elems s') < length (elems s)"
proof -
  obtain s' r where g: "cs_get st e s = (s', r)" by (cases "cs_get st e s")
  show thesis
  proof (cases r)
    case None
    with g assms get_inv get_none none show thesis by blast
  next
    case (Some x)
    with g assms get_inv get_some_less some show thesis by blast
  qed
qed

end

text \<open>First in, first out, and nothing dropped: the contract of the plain deque.\<close>

locale fifo_storage_contract = storage_contract st inv elems cap
  for st :: "('e, 'a, 's) channel_storage" and inv :: "'s \<Rightarrow> bool"
    and elems :: "'s \<Rightarrow> 'a list" and cap :: "'s \<Rightarrow> usize" +
  assumes push_appends: "inv s \<Longrightarrow> cs_try_push st e s a = Some (s', Pushed) \<Longrightarrow>
      elems s' = elems s @ [a]"
    and push_never_skips: "inv s \<Longrightarrow> cs_try_push st e s a \<noteq> Some (s', Skipped)"
    and get_head: "inv s \<Longrightarrow> cs_get st e s = (s', Some x) \<Longrightarrow> elems s = x # elems s'"
    and get_none_empty: "inv s \<Longrightarrow> cs_get st e s = (s', None) \<Longrightarrow> elems s = []"

section \<open>Both storages keep the contract\<close>

lemma vecdeque_storage_sel [simp]:
  "cs_with_capacity_and_ordering (vecdeque_storage al) n b =
     (if b then None else Some (vd_with_capacity al n))"
  "cs_try_push (vecdeque_storage al) u v a = Some (vecdeque_try_push al v a)"
  "cs_get (vecdeque_storage al) u v = vd_pop_front v"
  "cs_len (vecdeque_storage al) v = length (vd_elems v)"
  "cs_is_full (vecdeque_storage al) v \<longleftrightarrow> length (vd_elems v) = vd_cap v"
  "cs_is_empty (vecdeque_storage al) v \<longleftrightarrow> vd_elems v = []"
  by (simp_all add: vecdeque_storage_def vd_len_def)

lemma deque_storage_sel [simp]:
  "cs_with_capacity_and_ordering (deque_storage al) n b = Some (set_ordering b (bounded al n))"
  "cs_try_push (deque_storage al) dp d a = try_push al dp d a"
  "cs_get (deque_storage al) dp d = get dp d"
  "cs_len (deque_storage al) d = length (dq_elems d)"
  "cs_is_full (deque_storage al) d \<longleftrightarrow> length (dq_elems d) = dq_capacity d"
  "cs_is_empty (deque_storage al) d \<longleftrightarrow> dq_elems d = []"
  by (simp_all add: deque_storage_def len_def is_full_def is_empty_def vd_len_def)

lemma vecdeque_try_push_Pushed:
  "allocator_ok al \<Longrightarrow> vd_wf v \<Longrightarrow> vecdeque_try_push al v a = (v', Pushed) \<Longrightarrow>
   vd_elems v' = vd_elems v @ [a] \<and> vd_wf v' \<and> vd_cap v' = vd_cap v"
  using vd_push_back_wf [of al v a]
  by (auto simp: vecdeque_try_push_def vd_push_back_def split: if_splits)

lemma vecdeque_try_push_Full:
  "vecdeque_try_push al v a = (v', Full b) \<Longrightarrow> b = a \<and> v' = v \<and> length (vd_elems v) = vd_cap v"
  by (simp add: vecdeque_try_push_def vd_len_def split: if_splits)

lemma vecdeque_try_push_Skipped: "vecdeque_try_push al v a \<noteq> (v', Skipped)"
  by (simp add: vecdeque_try_push_def)

lemma vd_pop_front_inv:
  "vd_wf v \<Longrightarrow> vd_pop_front v = (v', r) \<Longrightarrow> vd_wf v' \<and> vd_cap v' = vd_cap v"
  using vd_pop_front_wf [of v] by (auto simp: vd_pop_front_def split: list.splits)

lemma vecdeque_is_fifo:
  assumes al: "allocator_ok al"
  shows "fifo_storage_contract (vecdeque_storage al) vd_wf vd_elems vd_cap"
proof (unfold_locales, goal_cases)
  case (1 n b s)
  with al show ?case
    by (auto simp: vd_with_capacity_def vd_wf_def allocator_ok_def split: if_splits)
next
  case (3 s e a s' r)
  with al show ?case
    by (cases r) (auto dest: vecdeque_try_push_Pushed vecdeque_try_push_Full
        simp: vecdeque_try_push_Skipped)
next
  case (4 s e a s')
  with al show ?case by (auto dest: vecdeque_try_push_Pushed)
next
  case (7 s e s' r)
  then show ?case by (auto dest: vd_pop_front_inv)
next
  case (14 s e a s')
  with al show ?case by (auto dest: vecdeque_try_push_Pushed)
qed (auto simp: vecdeque_try_push_Skipped vd_wf_def
    dest: vecdeque_try_push_Full vd_pop_front_None vd_pop_front_Some)

lemma try_push_not_Pushed:
  assumes "allocator_ok al" and "dq_wf d" and "try_push al dp d a = Some (d', r)" and "r \<noteq> Pushed"
  shows "dq_elems d' = dq_elems d \<and> length (dq_elems d) = dq_capacity d \<and>
    r = (if is_delivery_policy_optional dp a then Skipped else Full a)"
  using assms(1,2)
proof (cases rule: try_push_cases [where dp = dp and a = a])
  case (refused e s)
  from assms(2) have "length (dq_elems d) \<le> dq_capacity d" by (simp add: dq_wf_def)
  from make_room_full [OF this refused(6)] refused assms(3) show ?thesis by auto
qed (use assms in auto)

lemma try_push_wf:
  assumes "allocator_ok al" and "dq_wf d" and "try_push al dp d a = Some (d', r)"
  shows "dq_wf d' \<and> dq_capacity d' = dq_capacity d"
  using assms(1,2) by (cases rule: try_push_cases [where dp = dp and a = a]) (use assms in auto)

lemma try_push_Pushed:
  assumes "allocator_ok al" and "dq_wf d" and "try_push al dp d a = Some (d', Pushed)"
  shows "mset (dq_elems d') \<subseteq># add_mset a (mset (dq_elems d))"
  using assms(1,2)
proof (cases rule: try_push_cases [where dp = dp and a = a])
  case (pushed e)
  let ?room = "make_room dp (dq_capacity d) a (dq_elems d)"
  have "mset (dq_elems e) = add_mset a (mset ?room)"
    using arranged_mset [OF pushed(7)] by simp
  with pushed(2) assms(3) mset_make_room [of dp "dq_capacity d" a "dq_elems d"] show ?thesis by simp
next
  case (refused e s)
  from try_push_not_Pushed [OF assms(1,2) refused(2)] refused assms(3) show ?thesis
    by (auto split: if_splits)
qed (use assms in auto)

lemma get_Some_split:
  assumes "get dp d = (d', Some x)"
  shows "\<exists>pre. dq_elems d = pre @ x # dq_elems d'"
proof -
  from assms get_elems [of dp d] get_result [of dp d]
  have "dropWhile (is_expired dp) (dq_elems d) = x # dq_elems d'"
    by (auto split: list.splits)
  then show ?thesis by (metis takeWhile_dropWhile_id)
qed

lemma get_None_empty:
  assumes "get dp d = (d', None)"
  shows "dq_elems d' = []"
proof -
  from assms get_result [of dp d] have "dropWhile (is_expired dp) (dq_elems d) = []"
    by (simp split: list.splits del: dropWhile_eq_Nil_conv)
  with assms get_elems [of dp d] show ?thesis by (simp del: dropWhile_eq_Nil_conv)
qed

lemma deque_is_storage:
  assumes al: "allocator_ok al"
  shows "storage_contract (deque_storage al) dq_wf dq_elems dq_capacity"
proof (unfold_locales, goal_cases)
  case (1 n b s)
  then show ?case
    by (auto simp: set_ordering_def bounded_def vd_with_capacity_def dq_wf_def vd_wf_def)
next
  case (2 s e a)
  with al show ?case by (cases rule: try_push_cases [where dp = e and a = a]) auto
next
  case (3 s e a s' r)
  with al show ?case by (auto dest: try_push_wf)
next
  case (4 s e a s')
  with al show ?case by (auto dest: try_push_Pushed)
next
  case (5 s e a s')
  with al try_push_not_Pushed [of al s e a s' Skipped] show ?case by simp
next
  case (6 s e a s' b)
  with al try_push_not_Pushed [of al s e a s' "Full b"] show ?case by (simp split: if_splits)
next
  case (7 s e s' r)
  then show ?case using get_wf [of s e] by (metis deque_storage_sel(3) fst_conv get_frame(1))
qed (auto simp: dq_wf_def dest: get_Some_split get_None_empty)

text \<open>
  The two contracts over the exact allocator; the channel theories use the contracts themselves
  for every allocator that keeps its promise.
\<close>

interpretation vdq: fifo_storage_contract
  "vecdeque_storage exact_allocator" vd_wf vd_elems vd_cap
  by (rule vecdeque_is_fifo) simp

interpretation pdq: storage_contract
  "deque_storage exact_allocator" dq_wf dq_elems dq_capacity
  by (rule deque_is_storage) simp

end
