(* ===== verification/Monitor.thy ===== *)
theory Monitor
  imports Rtsc_Error
begin

text \<open>
  The discipline every blocking component of the crate follows: shared data behind one mutex,
  condition variables to sleep on, and operations that run as critical sections. An operation
  locks the mutex, runs up to its return or to a \<open>wait\<close> on a condition variable, and after it was
  woken runs on from there, again under the lock. Each such stretch is atomic for the other
  threads.

  A component supplies the \<open>code\<close>: what one stretch from a program point does to the shared data,
  which notifications it sends, and how it ends. This theory supplies what the lock and the
  condition variables (\<open>condvar_api::RawCondvar\<close>) do with it: sleeping threads, woken threads that
  wait for the lock, timeouts, spurious wake-ups. Which of several sleepers a \<open>notify_one\<close> wakes,
  and which thread gets the lock next, is left open.
\<close>

datatype 'cv signal = Notify_One 'cv | Notify_All 'cv

text \<open>
  How a stretch ends: the operation returns; it waits on a condition variable, to run on from a
  program point, with the result it returns if a timed wait runs out (none for an untimed wait);
  or it panics.
\<close>

datatype ('op, 'cv, 'r) outcome = Return 'r | Wait 'cv 'op "'r option" | Panic

type_synonym ('e, 'h, 'op, 'cv, 'r) code =
  "'e \<Rightarrow> 'op \<Rightarrow> 'h \<Rightarrow> 'h \<times> 'cv signal list \<times> ('op, 'cv, 'r) outcome"

datatype ('t, 'cv, 'op, 'r) waiter =
  Waiter (w_thread: 't) (w_cv: 'cv) (w_op: 'op) (w_timeout: "'r option")

record ('t, 'h, 'op, 'cv, 'r) monitor =
  shared :: 'h
  asleep :: "('t, 'cv, 'op, 'r) waiter list"
  ready :: "('t \<times> 'op) list"

definition fresh_monitor :: "'h \<Rightarrow> ('t, 'h, 'op, 'cv, 'r) monitor" where
  "fresh_monitor h = \<lparr> shared = h, asleep = [], ready = [] \<rparr>"

section \<open>Notifications\<close>

definition wake :: "('t, 'cv, 'op, 'r) waiter \<Rightarrow> 't \<times> 'op" where
  "wake w = (w_thread w, w_op w)"

inductive notify :: "'cv signal \<Rightarrow> ('t, 'h, 'op, 'cv, 'r) monitor \<Rightarrow>
    ('t, 'h, 'op, 'cv, 'r) monitor \<Rightarrow> bool" where
  notify_some: "asleep m = xs @ w # ys \<Longrightarrow> w_cv w = cv \<Longrightarrow>
     notify (Notify_One cv) m (m\<lparr> asleep := xs @ ys, ready := wake w # ready m \<rparr>)"
| notify_none: "\<not> list_ex (\<lambda>w. w_cv w = cv) (asleep m) \<Longrightarrow> notify (Notify_One cv) m m"
| notify_every: "notify (Notify_All cv) m
     (m\<lparr> asleep := filter (\<lambda>w. w_cv w \<noteq> cv) (asleep m),
        ready := map wake (filter (\<lambda>w. w_cv w = cv) (asleep m)) @ ready m \<rparr>)"

inductive_simps notify_One_simps: "notify (Notify_One cv) m m'"
inductive_simps notify_All_simps [simp]: "notify (Notify_All cv) m m'"

fun notifies :: "'cv signal list \<Rightarrow> ('t, 'h, 'op, 'cv, 'r) monitor \<Rightarrow>
    ('t, 'h, 'op, 'cv, 'r) monitor \<Rightarrow> bool" where
  "notifies [] m m' \<longleftrightarrow> m' = m"
| "notifies (s # ss) m m' \<longleftrightarrow> (\<exists>m1. notify s m m1 \<and> notifies ss m1 m')"

fun settle :: "'t \<Rightarrow> ('op, 'cv, 'r) outcome \<Rightarrow> ('t, 'h, 'op, 'cv, 'r) monitor \<Rightarrow>
    ('t, 'h, 'op, 'cv, 'r) monitor" where
  "settle t (Return r) m = m"
| "settle t (Wait cv op tr) m = m\<lparr> asleep := asleep m @ [Waiter t cv op tr] \<rparr>"
| "settle t Panic m = m"

text \<open>A sleeper can always be found for a notification, or there is none: it is never stuck.\<close>

lemma notify_total: "\<exists>m'. notify sg m m'"
proof (cases sg)
  case (Notify_One cv)
  show ?thesis
  proof (cases "list_ex (\<lambda>w. w_cv w = cv) (asleep m)")
    case True
    then obtain w where "w \<in> set (asleep m)" and cv: "w_cv w = cv" by (auto simp: list_ex_iff)
    then obtain xs ys where "asleep m = xs @ w # ys" by (meson split_list)
    from notify_some [OF this cv] Notify_One show ?thesis by blast
  next
    case False
    from notify_none [of cv m, OF False] Notify_One show ?thesis by blast
  qed
next
  case (Notify_All cv)
  then show ?thesis by simp
qed

lemma notifies_total: "\<exists>m'. notifies ss m m'"
proof (induction ss arbitrary: m)
  case Nil
  show ?case by simp
next
  case (Cons sg ss)
  obtain m1 where "notify sg m m1" using notify_total by blast
  moreover obtain m' where "notifies ss m1 m'" using Cons by blast
  ultimately show ?case by auto
qed

section \<open>Steps and runs\<close>

datatype ('t, 'op, 'r) event =
    Finished 't 'op 'r
  | Blocked 't 'op
  | is_Panicked: Panicked 't 'op
  | Timed_Out 't 'op 'r
  | Woken 't 'op

fun outcome_event :: "'t \<Rightarrow> 'op \<Rightarrow> ('op, 'cv, 'r) outcome \<Rightarrow> ('t, 'op, 'r) event" where
  "outcome_event t op (Return r) = Finished t op r"
| "outcome_event t op (Wait cv op' tr) = Blocked t op"
| "outcome_event t op Panic = Panicked t op"

text \<open>
  \<open>admits m op\<close> says which operations a thread may start in a state (a client needs a live handle
  of the right kind); \<open>spurious\<close> whether condition variables may wake threads on their own.
\<close>

inductive mon_step :: "('e, 'h, 'op, 'cv, 'r) code \<Rightarrow>
    (('t, 'h, 'op, 'cv, 'r) monitor \<Rightarrow> 'op \<Rightarrow> bool) \<Rightarrow> bool \<Rightarrow>
    ('t, 'h, 'op, 'cv, 'r) monitor \<Rightarrow> ('t, 'op, 'r) event \<Rightarrow> ('t, 'h, 'op, 'cv, 'r) monitor \<Rightarrow> bool"
  for code admits spurious where
  call: "admits m op \<Longrightarrow> t \<notin> w_thread ` set (asleep m) \<Longrightarrow> t \<notin> fst ` set (ready m) \<Longrightarrow>
     code e op (shared m) = (h', sigs, out) \<Longrightarrow>
     notifies sigs (m\<lparr> shared := h' \<rparr>) m1 \<Longrightarrow>
     mon_step code admits spurious m (outcome_event t op out) (settle t out m1)"
| resume: "ready m = xs @ (t, op) # ys \<Longrightarrow>
     code e op (shared m) = (h', sigs, out) \<Longrightarrow>
     notifies sigs (m\<lparr> shared := h', ready := xs @ ys \<rparr>) m1 \<Longrightarrow>
     mon_step code admits spurious m (outcome_event t op out) (settle t out m1)"
| timeout: "asleep m = xs @ Waiter t cv op (Some r) # ys \<Longrightarrow>
     mon_step code admits spurious m (Timed_Out t op r) (m\<lparr> asleep := xs @ ys \<rparr>)"
| spurious_wake: "spurious \<Longrightarrow> asleep m = xs @ w # ys \<Longrightarrow>
     mon_step code admits spurious m (Woken (w_thread w) (w_op w))
       (m\<lparr> asleep := xs @ ys, ready := wake w # ready m \<rparr>)"

inductive mon_run :: "('e, 'h, 'op, 'cv, 'r) code \<Rightarrow>
    (('t, 'h, 'op, 'cv, 'r) monitor \<Rightarrow> 'op \<Rightarrow> bool) \<Rightarrow> bool \<Rightarrow>
    ('t, 'h, 'op, 'cv, 'r) monitor \<Rightarrow> ('t, 'op, 'r) event list \<Rightarrow> ('t, 'h, 'op, 'cv, 'r) monitor \<Rightarrow> bool"
  for code admits spurious m0 where
  run_start: "mon_run code admits spurious m0 [] m0"
| run_step: "mon_run code admits spurious m0 evs m \<Longrightarrow> mon_step code admits spurious m ev m' \<Longrightarrow>
     mon_run code admits spurious m0 (evs @ [ev]) m'"

lemma mon_run_trans:
  "mon_run code admits spurious m1 fs m2 \<Longrightarrow> mon_run code admits spurious m0 evs m1 \<Longrightarrow>
   mon_run code admits spurious m0 (evs @ fs) m2"
proof (induction rule: mon_run.induct)
  case run_start
  then show ?case by simp
next
  case (run_step fs m ev m')
  then have "mon_run code admits spurious m0 (evs @ fs) m" by simp
  from mon_run.run_step [OF this run_step.hyps(2)] show ?case by simp
qed

section \<open>Counting sleepers and woken threads\<close>

definition sleeping :: "'cv \<Rightarrow> ('t, 'h, 'op, 'cv, 'r) monitor \<Rightarrow> nat" where
  "sleeping cv m = length (filter (\<lambda>w. w_cv w = cv) (asleep m))"

text \<open>
  \<open>waits_on\<close> gives the condition variable a program point is reached from; every sleeper sleeps
  where its program point says.
\<close>

definition woken :: "('op \<Rightarrow> 'cv option) \<Rightarrow> 'cv \<Rightarrow> ('t, 'h, 'op, 'cv, 'r) monitor \<Rightarrow> nat" where
  "woken waits_on cv m = length (filter (\<lambda>(t, op). waits_on op = Some cv) (ready m))"

definition coherent :: "('op \<Rightarrow> 'cv option) \<Rightarrow> ('t, 'h, 'op, 'cv, 'r) monitor \<Rightarrow> bool" where
  "coherent waits_on m \<longleftrightarrow>
     (\<forall>w \<in> set (asleep m). waits_on (w_op w) = Some (w_cv w)) \<and>
     (\<forall>(t, op) \<in> set (ready m). waits_on op \<noteq> None)"

lemma fresh_monitor_simps [simp]:
  "shared (fresh_monitor h) = h" "asleep (fresh_monitor h) = []" "ready (fresh_monitor h) = []"
  "sleeping cv (fresh_monitor h) = 0" "woken f cv (fresh_monitor h) = 0"
  "coherent f (fresh_monitor h)"
  by (simp_all add: fresh_monitor_def sleeping_def woken_def coherent_def)

lemma notify_shared: "notify s m m' \<Longrightarrow> shared m' = shared m"
  by (induction rule: notify.induct) auto

lemma notifies_shared: "notifies ss m m' \<Longrightarrow> shared m' = shared m"
  by (induction ss arbitrary: m) (auto dest: notify_shared)

lemma settle_shared [simp]: "shared (settle t out m) = shared m"
  by (cases out) auto

lemma notify_coherent: "notify s m m' \<Longrightarrow> coherent f m \<Longrightarrow> coherent f m'"
  by (induction rule: notify.induct) (auto simp: coherent_def wake_def)

lemma notifies_coherent: "notifies ss m m' \<Longrightarrow> coherent f m \<Longrightarrow> coherent f m'"
  by (induction ss arbitrary: m) (auto dest: notify_coherent)

text \<open>
  \<open>n\<close> units are covered on \<open>cv\<close>: nobody sleeps there, or at least \<open>n\<close> threads were woken from
  there and have yet to run.
\<close>

definition covered :: "('op \<Rightarrow> 'cv option) \<Rightarrow> 'cv \<Rightarrow> nat \<Rightarrow> ('t, 'h, 'op, 'cv, 'r) monitor \<Rightarrow> bool" where
  "covered f cv n m \<longleftrightarrow> sleeping cv m = 0 \<or> n \<le> woken f cv m"

lemma covered_mono: "covered f cv n m \<Longrightarrow> k \<le> n \<Longrightarrow> covered f cv k m"
  by (auto simp: covered_def)

lemma covered_0 [simp]: "covered f cv 0 m"
  by (simp add: covered_def)

lemma notify_One_covered:
  assumes "notify (Notify_One c) m m'" and "coherent f m" and "covered f cv n m"
  shows "covered f cv (if c = cv then Suc n else n) m'"
  using assms
  by (auto simp: notify_One_simps covered_def sleeping_def woken_def coherent_def wake_def
      list_ex_iff filter_empty_conv)

lemma notify_All_sleeping: "notify (Notify_All c) m m' \<Longrightarrow> sleeping c m' = 0"
  by (simp add: sleeping_def)

lemma notify_All_covered: "notify (Notify_All c) m m' \<Longrightarrow> covered f cv n m \<Longrightarrow> covered f cv n m'"
  by (auto simp: covered_def sleeping_def woken_def filter_empty_conv)

lemma length_filter_conj: "length (filter (\<lambda>x. Q x \<and> P x) xs) \<le> length (filter P xs)"
  by (induction xs) auto

lemma notify_sleeping_le: "notify sg m m' \<Longrightarrow> sleeping cv m' \<le> sleeping cv m"
  by (induction rule: notify.induct) (auto simp: sleeping_def length_filter_conj)

lemma notifies_sleeping_le: "notifies ss m m' \<Longrightarrow> sleeping cv m' \<le> sleeping cv m"
proof (induction ss arbitrary: m)
  case (Cons sg ss)
  then obtain m1 where "notify sg m m1" "notifies ss m1 m'" by auto
  with Cons.IH [of m1] notify_sleeping_le [of sg m m1 cv] show ?case by simp
qed simp

lemma notifies_covered:
  "notifies ss m m' \<Longrightarrow> coherent f m \<Longrightarrow> covered f cv n m \<Longrightarrow>
   covered f cv (n + count_list ss (Notify_One cv)) m'"
proof (induction ss arbitrary: m n)
  case (Cons sg ss)
  then obtain m1 where m1: "notify sg m m1" "notifies ss m1 m'" by auto
  have coh: "coherent f m1" using notify_coherent [OF m1(1) Cons.prems(2)] .
  show ?case
  proof (cases sg)
    case (Notify_One c)
    with m1(1) notify_One_covered [of c m m1 f cv n] Cons.prems(2,3)
    have "covered f cv (if c = cv then Suc n else n) m1" by blast
    from Cons.IH [OF m1(2) coh this] Notify_One show ?thesis by (auto split: if_splits)
  next
    case (Notify_All c)
    from notify_All_covered [OF m1(1) [unfolded Notify_All] Cons.prems(3)]
    have "covered f cv n m1" .
    from Cons.IH [OF m1(2) coh this] Notify_All show ?thesis by simp
  qed
qed simp

lemma notifies_All_sleeping:
  "notifies ss m m' \<Longrightarrow> coherent f m \<Longrightarrow> Notify_All cv \<in> set ss \<Longrightarrow> sleeping cv m' = 0"
proof (induction ss arbitrary: m)
  case (Cons sg ss)
  then obtain m1 where m1: "notify sg m m1" "notifies ss m1 m'" by auto
  show ?case
  proof (cases "sg = Notify_All cv")
    case True
    from notify_All_sleeping [OF m1(1) [unfolded True]] notifies_sleeping_le [OF m1(2), of cv] show ?thesis by simp
  next
    case False
    with Cons.IH [OF m1(2)] notify_coherent [OF m1(1) Cons.prems(2)] Cons.prems(3) show ?thesis
      by simp
  qed
qed simp

text \<open>On the shared data a step is a stretch of code, or nothing.\<close>

lemma mon_step_shared:
  assumes "mon_step code admits spurious m ev m'"
  obtains (stretch) e op t sigs out where "code e op (shared m) = (shared m', sigs, out)"
      and "ev = outcome_event t op out"
  | (idle) t op where "shared m' = shared m" and "ev = Woken t op \<or> (\<exists>r. ev = Timed_Out t op r)"
  using assms
proof (cases rule: mon_step.cases)
  case (call op t e h' sigs out m1)
  with notifies_shared [OF call(7)] stretch [of e op sigs out t] show thesis by simp
next
  case (resume xs t op ys e h' sigs out m1)
  with notifies_shared [OF resume(5)] stretch [of e op sigs out t] show thesis by simp
next
  case (timeout xs t cv op r ys)
  with idle [of t op] show thesis by simp
next
  case (spurious_wake xs w ys)
  with idle [of "w_thread w" "w_op w"] show thesis by simp
qed

section \<open>Components whose stretches keep an invariant\<close>

text \<open>
  The contract of a component: a predicate on the shared data that every stretch of code keeps,
  whether it starts an operation the client may call or continues a woken one; and a program
  point it sleeps at that names the condition variable it sleeps on. No stretch panics.
\<close>

locale monitored =
  fixes code :: "('e, 'h, 'op, 'cv, 'r) code"
    and admits :: "('t, 'h, 'op, 'cv, 'r) monitor \<Rightarrow> 'op \<Rightarrow> bool"
    and waits_on :: "'op \<Rightarrow> 'cv option"
    and inv :: "'h \<Rightarrow> bool"
  assumes waits_on_wait:
      "inv h \<Longrightarrow> code e op h = (h', sigs, Wait cv op' tr) \<Longrightarrow> waits_on op' = Some cv"
    and keeps_inv_call: "inv (shared m) \<Longrightarrow> admits m op \<Longrightarrow> code e op (shared m) = (h', sigs, out) \<Longrightarrow>
      inv h' \<and> out \<noteq> Panic"
    and keeps_inv_resume: "inv h \<Longrightarrow> waits_on op \<noteq> None \<Longrightarrow> code e op h = (h', sigs, out) \<Longrightarrow>
      inv h' \<and> out \<noteq> Panic"
begin

definition good :: "('t, 'h, 'op, 'cv, 'r) monitor \<Rightarrow> bool" where
  "good m \<longleftrightarrow> inv (shared m) \<and> coherent waits_on m"

lemma settle_coherent:
  assumes "coherent waits_on m" and "inv h" and "code e op h = (h', sigs, out)"
  shows "coherent waits_on (settle t out m)"
  using assms by (cases out) (auto simp: coherent_def dest: waits_on_wait)

lemma step_good: "mon_step code admits spurious m ev m' \<Longrightarrow> good m \<Longrightarrow> good m'"
proof (induction rule: mon_step.induct)
  case (call m op t e h' sigs out m1)
  then have "coherent waits_on (m\<lparr> shared := h' \<rparr>)" by (simp add: good_def coherent_def)
  then have coh: "coherent waits_on m1" by (rule notifies_coherent [OF call(5)])
  from call(6) have inv: "inv (shared m)" by (simp add: good_def)
  from settle_coherent [OF coh inv call(4)] keeps_inv_call [OF inv call(1,4)]
    notifies_shared [OF call(5)] show ?case by (simp add: good_def)
next
  case (resume m xs t op ys e h' sigs out m1)
  then have op: "waits_on op \<noteq> None" by (auto simp: good_def coherent_def)
  from resume have "coherent waits_on (m\<lparr> shared := h', ready := xs @ ys \<rparr>)"
    by (auto simp: good_def coherent_def)
  then have coh: "coherent waits_on m1" by (rule notifies_coherent [OF resume(3)])
  from resume(4) have inv: "inv (shared m)" by (simp add: good_def)
  from settle_coherent [OF coh inv resume(2)] keeps_inv_resume [OF inv op resume(2)]
    notifies_shared [OF resume(3)] show ?case by (simp add: good_def)
next
  case (timeout m xs t cv op r ys)
  then show ?case by (auto simp: good_def coherent_def)
next
  case (spurious_wake m xs w ys)
  then show ?case by (auto simp: good_def coherent_def wake_def)
qed

lemma run_good:
  "mon_run code admits spurious m0 evs m \<Longrightarrow> good m0 \<Longrightarrow> good m"
  by (induction rule: mon_run.induct) (auto intro: step_good)

lemma step_no_panic:
  "mon_step code admits spurious m ev m' \<Longrightarrow> good m \<Longrightarrow> \<not> is_Panicked ev"
proof (induction rule: mon_step.induct)
  case (call m op t e h' sigs out m1)
  from call(6) have "inv (shared m)" by (simp add: good_def)
  from keeps_inv_call [OF this call(1,4)] show ?case by (cases out) auto
next
  case (resume m xs t op ys e h' sigs out m1)
  then have "inv (shared m)" and "waits_on op \<noteq> None" by (auto simp: good_def coherent_def)
  from keeps_inv_resume [OF this resume(2)] show ?case by (cases out) auto
qed simp_all

lemma run_no_panic:
  "mon_run code admits spurious m0 evs m \<Longrightarrow> good m0 \<Longrightarrow> \<not> list_ex is_Panicked evs"
proof (induction rule: mon_run.induct)
  case (run_step evs m ev m')
  with step_no_panic [OF run_step.hyps(2)] run_good [OF run_step.hyps(1)] show ?case by simp
qed simp

lemma good_fresh [simp]: "good (fresh_monitor h) \<longleftrightarrow> inv h"
  by (simp add: good_def)

lemma run_inv:
  "mon_run code admits spurious (fresh_monitor h0) evs m \<Longrightarrow> inv h0 \<Longrightarrow> inv (shared m)"
  using run_good [of spurious "fresh_monitor h0" evs m] by (simp add: good_def)

end

section \<open>Components that lose no wake-up\<close>

text \<open>
  \<open>avail h\<close> counts the units threads sleeping on \<open>cv\<close> wait for. A stretch goes to sleep on \<open>cv\<close>
  only when there are none; a woken thread uses up at most one; and whoever makes units available
  notifies: one sleeper for each new unit, or all of them.
\<close>

locale no_lost_wakeup = monitored code admits waits_on inv
  for code :: "('e, 'h, 'op, 'cv, 'r) code"
    and admits :: "('t, 'h, 'op, 'cv, 'r) monitor \<Rightarrow> 'op \<Rightarrow> bool"
    and waits_on :: "'op \<Rightarrow> 'cv option" and inv :: "'h \<Rightarrow> bool" +
  fixes cv :: 'cv and avail :: "'h \<Rightarrow> nat"
  assumes sleeps_without: "inv h \<Longrightarrow> code e op h = (h', sigs, Wait cv op' tr) \<Longrightarrow> avail h' = 0"
    and notifies_new: "inv (shared m) \<Longrightarrow> admits m op \<or> waits_on op \<noteq> None \<Longrightarrow>
      code e op (shared m) = (h', sigs, out) \<Longrightarrow> Notify_All cv \<notin> set sigs \<Longrightarrow>
      avail h' \<le> (if waits_on op = Some cv then avail (shared m) - 1 else avail (shared m)) +
        count_list sigs (Notify_One cv)"
begin

lemma settle_covered:
  assumes "covered waits_on cv (avail h') m1" and "inv h" and "code e op h = (h', sigs, out)"
  shows "covered waits_on cv (avail h') (settle t out m1)"
proof (cases out)
  case (Wait c op' tr)
  show ?thesis
  proof (cases "c = cv")
    case True
    with sleeps_without [OF assms(2)] assms(3) Wait have "avail h' = 0" by blast
    then show ?thesis by simp
  qed (use assms Wait in \<open>auto simp: covered_def sleeping_def woken_def\<close>)
qed (use assms in simp_all)

lemma stretch_covered:
  assumes "covered waits_on cv
      (if waits_on op = Some cv then avail (shared m) - 1 else avail (shared m)) m0"
    and "coherent waits_on m0" and "inv (shared m)" and "code e op (shared m) = (h', sigs, out)"
    and "notifies sigs m0 m1" and "admits m op \<or> waits_on op \<noteq> None"
  shows "covered waits_on cv (avail h') (settle t out m1)"
proof -
  have "covered waits_on cv (avail h') m1"
  proof (cases "Notify_All cv \<in> set sigs")
    case True
    from notifies_All_sleeping [OF assms(5,2) True] show ?thesis by (simp add: covered_def)
  next
    case False
    from notifies_covered [OF assms(5,2,1)] notifies_new [OF assms(3,6,4) False] show ?thesis
      by (rule covered_mono)
  qed
  then show ?thesis using assms(3,4) by (rule settle_covered)
qed

lemma step_covered:
  "mon_step code admits spurious m ev m' \<Longrightarrow> good m \<Longrightarrow> covered waits_on cv (avail (shared m)) m \<Longrightarrow>
   covered waits_on cv (avail (shared m')) m'"
proof (induction rule: mon_step.induct)
  case (call m op t e h' sigs out m1)
  let ?m0 = "m\<lparr> shared := h' \<rparr>"
  have "covered waits_on cv (avail (shared m)) ?m0"
    using call(7) by (simp add: covered_def sleeping_def woken_def)
  then have "covered waits_on cv (if waits_on op = Some cv then avail (shared m) - 1 else avail (shared m)) ?m0"
    by (rule covered_mono) simp
  moreover have "coherent waits_on ?m0" using call(6) by (simp add: good_def coherent_def)
  moreover have "inv (shared m)" using call(6) by (simp add: good_def)
  ultimately show ?case
    using stretch_covered [OF _ _ _ call(4,5) disjI1 [OF call(1)]] notifies_shared [OF call(5)]
    by simp
next
  case (resume m xs t op ys e h' sigs out m1)
  let ?m0 = "m\<lparr> shared := h', ready := xs @ ys \<rparr>"
  have "covered waits_on cv (if waits_on op = Some cv then avail (shared m) - 1 else avail (shared m)) ?m0"
    using resume(1,5) by (auto simp: covered_def sleeping_def woken_def)
  moreover have "coherent waits_on ?m0" using resume(1,4) by (auto simp: good_def coherent_def)
  moreover have "inv (shared m)" using resume(4) by (simp add: good_def)
  moreover have "waits_on op \<noteq> None" using resume(1,4) by (auto simp: good_def coherent_def)
  ultimately show ?case
    using stretch_covered [OF _ _ _ resume(2,3)] notifies_shared [OF resume(3)] by simp
next
  case (timeout m xs t c op r ys)
  then show ?case by (auto simp: covered_def sleeping_def woken_def split: if_splits)
next
  case (spurious_wake m xs w ys)
  then show ?case by (auto simp: covered_def sleeping_def woken_def wake_def split: if_splits)
qed

lemma run_covered:
  assumes "mon_run code admits spurious m0 evs m" and "good m0"
    and "covered waits_on cv (avail (shared m0)) m0"
  shows "covered waits_on cv (avail (shared m)) m"
  using assms
proof (induction rule: mon_run.induct)
  case (run_step evs m ev m')
  with run_good step_covered show ?case by blast
qed simp

text \<open>
  The consequence clients care about: when no woken thread is on its way, nobody sleeps while
  there is something to wake for.
\<close>

lemma quiescent_sleepers:
  assumes "mon_run code admits spurious (fresh_monitor h0) evs m" and "inv h0"
    and "ready m = []" and "sleeping cv m > 0"
  shows "avail (shared m) = 0"
proof -
  have "covered waits_on cv (avail (shared m)) m"
    using assms(1,2) by (intro run_covered [OF assms(1)]) (simp_all add: good_def covered_def)
  with assms(3,4) show ?thesis by (simp add: covered_def woken_def)
qed

end

section \<open>Components that wake everybody when they close\<close>

text \<open>
  When the condition \<open>closed\<close> becomes true, all sleepers on \<open>cv\<close> are woken, and nobody goes to
  sleep there any more: no thread sleeps on \<open>cv\<close> in a closed state.
\<close>

locale wakes_on_close = monitored code admits waits_on inv
  for code :: "('e, 'h, 'op, 'cv, 'r) code"
    and admits :: "('t, 'h, 'op, 'cv, 'r) monitor \<Rightarrow> 'op \<Rightarrow> bool"
    and waits_on :: "'op \<Rightarrow> 'cv option" and inv :: "'h \<Rightarrow> bool" +
  fixes cv :: 'cv and closed :: "'h \<Rightarrow> bool"
  assumes sleeps_open: "inv h \<Longrightarrow> code e op h = (h', sigs, Wait cv op' tr) \<Longrightarrow> \<not> closed h'"
    and closing_notifies: "inv h \<Longrightarrow> code e op h = (h', sigs, out) \<Longrightarrow> \<not> closed h \<Longrightarrow> closed h' \<Longrightarrow>
      Notify_All cv \<in> set sigs"
begin

lemma stretch_closed:
  assumes "closed h \<Longrightarrow> sleeping cv m0 = 0" and "coherent waits_on m0" and "inv h"
    and "code e op h = (h', sigs, out)" and "notifies sigs m0 m1" and "closed h'"
  shows "sleeping cv (settle t out m1) = 0"
proof -
  have "sleeping cv m1 = 0"
  proof (cases "closed h")
    case True
    with assms(1) notifies_sleeping_le [OF assms(5), of cv] show ?thesis by simp
  next
    case False
    from notifies_All_sleeping [OF assms(5,2) closing_notifies [OF assms(3,4) False assms(6)]]
    show ?thesis .
  qed
  moreover have "c \<noteq> cv" if "out = Wait c op' tr" for c op' tr
    using sleeps_open [OF assms(3)] assms(4,6) that by blast
  ultimately show ?thesis by (cases out) (auto simp: sleeping_def)
qed

lemma step_closed:
  "mon_step code admits spurious m ev m' \<Longrightarrow> good m \<Longrightarrow>
   (closed (shared m) \<Longrightarrow> sleeping cv m = 0) \<Longrightarrow> closed (shared m') \<Longrightarrow> sleeping cv m' = 0"
proof (induction rule: mon_step.induct)
  case (call m op t e h' sigs out m1)
  have inv: "inv (shared m)" "coherent waits_on (m\<lparr> shared := h' \<rparr>)"
    using call(6) by (simp_all add: good_def coherent_def)
  have "closed (shared m) \<Longrightarrow> sleeping cv (m\<lparr> shared := h' \<rparr>) = 0"
    using call(7) by (simp add: sleeping_def)
  from stretch_closed [OF this inv(2,1) call(4,5)] call(8) notifies_shared [OF call(5)]
  show ?case by simp
next
  case (resume m xs t op ys e h' sigs out m1)
  let ?m0 = "m\<lparr> shared := h', ready := xs @ ys \<rparr>"
  have inv: "inv (shared m)" "coherent waits_on ?m0"
    using resume(1,4) by (auto simp: good_def coherent_def)
  have "closed (shared m) \<Longrightarrow> sleeping cv ?m0 = 0"
    using resume(5) by (simp add: sleeping_def)
  from stretch_closed [OF this inv(2,1) resume(2,3)] resume(6) notifies_shared [OF resume(3)]
  show ?case by simp
next
  case (timeout m xs t c op r ys)
  then show ?case by (auto simp: sleeping_def split: if_splits)
next
  case (spurious_wake m xs w ys)
  then show ?case by (auto simp: sleeping_def split: if_splits)
qed

lemma run_closed:
  "mon_run code admits spurious m0 evs m \<Longrightarrow> good m0 \<Longrightarrow>
   (closed (shared m0) \<Longrightarrow> sleeping cv m0 = 0) \<Longrightarrow> closed (shared m) \<Longrightarrow> sleeping cv m = 0"
proof (induction rule: mon_run.induct)
  case (run_step evs m ev m')
  from run_good [OF run_step.hyps(1) run_step.prems(1)] step_closed [OF run_step.hyps(2)]
    run_step.IH run_step.prems show ?case by blast
qed simp

end

section \<open>Executing a schedule\<close>

text \<open>
  A schedule picks the next step: which thread calls what, which woken thread gets the lock, whose
  wait runs out; a \<open>notify_one\<close> wakes the sleeper that came first. It computes one run among
  those \<open>mon_run\<close> allows, so concrete runs are evaluated and not derived by hand.
\<close>

datatype ('t, 'e, 'op) choice = Call 't 'e 'op | Resume nat 'e | Time_Out nat

fun notify_first :: "'cv signal \<Rightarrow> ('t, 'h, 'op, 'cv, 'r) monitor \<Rightarrow> ('t, 'h, 'op, 'cv, 'r) monitor" where
  "notify_first (Notify_One cv) m =
     (case List.extract (\<lambda>w. w_cv w = cv) (asleep m) of
        Some (xs, w, ys) \<Rightarrow> m\<lparr> asleep := xs @ ys, ready := wake w # ready m \<rparr>
      | None \<Rightarrow> m)"
| "notify_first (Notify_All cv) m =
     m\<lparr> asleep := filter (\<lambda>w. w_cv w \<noteq> cv) (asleep m),
        ready := map wake (filter (\<lambda>w. w_cv w = cv) (asleep m)) @ ready m \<rparr>"

fun exec_step :: "('e, 'h, 'op, 'cv, 'r) code \<Rightarrow> (('t, 'h, 'op, 'cv, 'r) monitor \<Rightarrow> 'op \<Rightarrow> bool) \<Rightarrow>
    ('t, 'h, 'op, 'cv, 'r) monitor \<Rightarrow> ('t, 'e, 'op) choice \<Rightarrow>
    (('t, 'op, 'r) event \<times> ('t, 'h, 'op, 'cv, 'r) monitor) option" where
  "exec_step code admits m (Call t e op) =
     (if admits m op \<and> t \<notin> w_thread ` set (asleep m) \<and> t \<notin> fst ` set (ready m)
      then let (h', sigs, out) = code e op (shared m) in
        Some (outcome_event t op out, settle t out (fold notify_first sigs (m\<lparr> shared := h' \<rparr>)))
      else None)"
| "exec_step code admits m (Resume k e) =
     (if k < length (ready m)
      then let (t, op) = ready m ! k; (h', sigs, out) = code e op (shared m) in
        Some (outcome_event t op out, settle t out (fold notify_first sigs
          (m\<lparr> shared := h', ready := take k (ready m) @ drop (Suc k) (ready m) \<rparr>)))
      else None)"
| "exec_step code admits m (Time_Out k) =
     (if k < length (asleep m)
      then case asleep m ! k of
          Waiter t cv op (Some r) \<Rightarrow> Some (Timed_Out t op r,
            m\<lparr> asleep := take k (asleep m) @ drop (Suc k) (asleep m) \<rparr>)
        | Waiter t cv op None \<Rightarrow> None
      else None)"

fun exec :: "('e, 'h, 'op, 'cv, 'r) code \<Rightarrow> (('t, 'h, 'op, 'cv, 'r) monitor \<Rightarrow> 'op \<Rightarrow> bool) \<Rightarrow>
    ('t, 'h, 'op, 'cv, 'r) monitor \<Rightarrow> ('t, 'e, 'op) choice list \<Rightarrow>
    (('t, 'op, 'r) event list \<times> ('t, 'h, 'op, 'cv, 'r) monitor) option" where
  "exec code admits m [] = Some ([], m)"
| "exec code admits m (c # cs) =
     (case exec_step code admits m c of
        None \<Rightarrow> None
      | Some (ev, m1) \<Rightarrow> map_option (\<lambda>(evs, m'). (ev # evs, m')) (exec code admits m1 cs))"

lemma notify_first_notify: "notify sg m (notify_first sg m)"
proof (cases sg)
  case (Notify_One cv)
  show ?thesis
  proof (cases "List.extract (\<lambda>w. w_cv w = cv) (asleep m)")
    case None
    then have "\<not> list_ex (\<lambda>w. w_cv w = cv) (asleep m)"
      by (simp add: extract_None_iff list_ex_iff)
    from notify_none [OF this] None Notify_One show ?thesis by simp
  next
    case (Some p)
    obtain xs w ys where p: "p = (xs, w, ys)" by (cases p) auto
    from extract_SomeE [OF Some [unfolded p]] have "asleep m = xs @ w # ys" "w_cv w = cv"
      by simp_all
    from notify_some [OF this] Some p Notify_One show ?thesis by simp
  qed
qed simp

lemma fold_notify_first: "notifies ss m (fold notify_first ss m)"
  by (induction ss arbitrary: m) (auto intro: notify_first_notify)

lemma exec_step_mon_step:
  assumes "exec_step code admits m c = Some (ev, m')"
  shows "mon_step code admits spurious m ev m'"
proof (cases c)
  case (Call t e op)
  obtain h' sigs out where c: "code e op (shared m) = (h', sigs, out)" by (cases "code e op (shared m)")
  with assms Call have "admits m op" "t \<notin> w_thread ` set (asleep m)" "t \<notin> fst ` set (ready m)"
    by (auto split: if_splits)
  from mon_step.call [of admits m op t code e, OF this c fold_notify_first [of sigs "m\<lparr> shared := h' \<rparr>"]]
    assms Call c show ?thesis by (auto split: if_splits)
next
  case (Resume k e)
  obtain t op where r: "ready m ! k = (t, op)" by fastforce
  obtain h' sigs out where c: "code e op (shared m) = (h', sigs, out)" by (cases "code e op (shared m)")
  from assms Resume have k: "k < length (ready m)" by (simp split: if_splits)
  from id_take_nth_drop [OF this] r
  have "ready m = take k (ready m) @ (t, op) # drop (Suc k) (ready m)" by simp
  from mon_step.resume [of m _ t op _ code e, OF this c fold_notify_first [of sigs "m\<lparr> shared := h', ready := take k (ready m) @ drop (Suc k) (ready m) \<rparr>"]] assms Resume r c k show ?thesis by auto
next
  case (Time_Out k)
  from assms Time_Out have k: "k < length (asleep m)" by (simp split: if_splits)
  with assms Time_Out obtain t cv op r where w: "asleep m ! k = Waiter t cv op (Some r)"
    and ev: "ev = Timed_Out t op r"
    and m': "m' = m\<lparr> asleep := take k (asleep m) @ drop (Suc k) (asleep m) \<rparr>"
    by (auto split: waiter.splits option.splits)
  from id_take_nth_drop [OF k] w
  have "asleep m = take k (asleep m) @ Waiter t cv op (Some r) # drop (Suc k) (asleep m)" by simp
  from mon_step.timeout [OF this] ev m' show ?thesis by simp
qed

lemma exec_from:
  "exec code admits m cs = Some (evs, m') \<Longrightarrow> mon_run code admits spurious m0 fs m \<Longrightarrow>
   mon_run code admits spurious m0 (fs @ evs) m'"
proof (induction cs arbitrary: m evs fs)
  case (Cons c cs)
  then obtain ev m1 gs where "exec_step code admits m c = Some (ev, m1)"
    and rest: "exec code admits m1 cs = Some (gs, m')" and evs: "evs = ev # gs"
    by (auto split: option.splits)
  from run_step [OF Cons.prems(2) exec_step_mon_step [OF this(1)]]
  have "mon_run code admits spurious m0 (fs @ [ev]) m1" .
  from Cons.IH [OF rest this] evs show ?case by simp
qed simp

lemma exec_run: "exec code admits m cs = Some (evs, m') \<Longrightarrow> mon_run code admits spurious m evs m'"
  using exec_from [OF _ run_start] by fastforce

end
