(* ===== verification/Base_Channel.thy ===== *)
theory Base_Channel
  imports Channel_Storage Monitor
begin

text \<open>
  The synchronous channel of \<open>src/src/base_channel.rs\<close>: the queue and the handle counters behind
  one mutex, two condition variables, and the operations of senders and receivers as stretches of
  code for the monitor theory. The storage is a parameter: every lemma on a \<open>storage_contract\<close>
  holds for the plain and for the policy deque.
\<close>

section \<open>State\<close>

datatype chan_cv = Data_Available | Space_Available

record 's inner_data =
  queue :: 's
  senders :: usize
  receivers :: usize

text \<open>The constructor panics on a zero capacity (and when the storage's constructor does).\<close>

definition inner_new :: "('e, 'a, 's) channel_storage \<Rightarrow> usize \<Rightarrow> bool \<Rightarrow> 's inner_data option" where
  "inner_new st capacity ordr =
     (if capacity = 0 then None
      else map_option (\<lambda>q. \<lparr> queue = q, senders = 1, receivers = 1 \<rparr>)
             (cs_with_capacity_and_ordering st capacity ordr))"

section \<open>Operations\<close>

text \<open>
  The operations a thread may be in. A timed operation carries no duration: when a timed wait runs
  out is left open, so every duration is covered.
\<close>

datatype 'a chan_op =
    Send 'a | Send_Timeout 'a | Try_Send 'a
  | Recv | Recv_Timeout | Try_Recv
  | Clone_Sender | Drop_Sender | Clone_Receiver | Drop_Receiver
  | Len | Is_Full | Is_Empty | Sender_Is_Alive | Receiver_Is_Alive

datatype 'a chan_result =
    R_Unit "unit result" | R_Value "'a result" | R_Len usize | R_Bool bool | R_Done

type_synonym ('a, 's) chan_stretch =
  "'s inner_data \<times> chan_cv signal list \<times> ('a chan_op, chan_cv, 'a chan_result) outcome"

definition inner_send :: "('e, 'a, 's) channel_storage \<Rightarrow> 'e \<Rightarrow> 'a \<Rightarrow> 's inner_data \<Rightarrow>
    ('a, 's) chan_stretch" where
  [op_defs]: "inner_send st e a d =
     (if receivers d = 0 then (d, [], Return (R_Unit (Inl ChannelClosed)))
      else (case cs_try_push st e (queue d) a of
          None \<Rightarrow> (d, [], Panic)
        | Some (q, Full val) \<Rightarrow> (d\<lparr> queue := q \<rparr>, [], Wait Space_Available (Send val) None)
        | Some (q, Pushed) \<Rightarrow>
            (d\<lparr> queue := q \<rparr>, [Notify_One Data_Available], Return (R_Unit (Inr ())))
        | Some (q, Skipped) \<Rightarrow>
            (d\<lparr> queue := q \<rparr>, [], Return (R_Unit (Inl ChannelSkipped)))))"

definition inner_send_timeout :: "('e, 'a, 's) channel_storage \<Rightarrow> 'e \<Rightarrow> 'a \<Rightarrow> 's inner_data \<Rightarrow>
    ('a, 's) chan_stretch" where
  [op_defs]: "inner_send_timeout st e a d =
     (if receivers d = 0 then (d, [], Return (R_Unit (Inl ChannelClosed)))
      else (case cs_try_push st e (queue d) a of
          None \<Rightarrow> (d, [], Panic)
        | Some (q, Full val) \<Rightarrow>
            (d\<lparr> queue := q \<rparr>, [],
             Wait Space_Available (Send_Timeout val) (Some (R_Unit (Inl Timeout))))
        | Some (q, Pushed) \<Rightarrow>
            (d\<lparr> queue := q \<rparr>, [Notify_One Data_Available], Return (R_Unit (Inr ())))
        | Some (q, Skipped) \<Rightarrow>
            (d\<lparr> queue := q \<rparr>, [], Return (R_Unit (Inl ChannelSkipped)))))"

definition inner_try_send :: "('e, 'a, 's) channel_storage \<Rightarrow> 'e \<Rightarrow> 'a \<Rightarrow> 's inner_data \<Rightarrow>
    ('a, 's) chan_stretch" where
  [op_defs]: "inner_try_send st e a d =
     (if receivers d = 0 then (d, [], Return (R_Unit (Inl ChannelClosed)))
      else (case cs_try_push st e (queue d) a of
          None \<Rightarrow> (d, [], Panic)
        | Some (q, Pushed) \<Rightarrow>
            (d\<lparr> queue := q \<rparr>, [Notify_One Data_Available], Return (R_Unit (Inr ())))
        | Some (q, Skipped) \<Rightarrow>
            (d\<lparr> queue := q \<rparr>, [], Return (R_Unit (Inl ChannelSkipped)))
        | Some (q, Full val) \<Rightarrow>
            (d\<lparr> queue := q \<rparr>, [], Return (R_Unit (Inl ChannelFull)))))"

definition inner_recv :: "('e, 'a, 's) channel_storage \<Rightarrow> 'e \<Rightarrow> 's inner_data \<Rightarrow>
    ('a, 's) chan_stretch" where
  [op_defs]: "inner_recv st e d =
     (case cs_get st e (queue d) of
        (q, Some val) \<Rightarrow>
          (d\<lparr> queue := q \<rparr>, [Notify_One Space_Available], Return (R_Value (Inr val)))
      | (q, None) \<Rightarrow>
          if senders d = 0 then (d\<lparr> queue := q \<rparr>, [], Return (R_Value (Inl ChannelClosed)))
          else (d\<lparr> queue := q \<rparr>, [], Wait Data_Available Recv None))"

definition inner_recv_timeout :: "('e, 'a, 's) channel_storage \<Rightarrow> 'e \<Rightarrow> 's inner_data \<Rightarrow>
    ('a, 's) chan_stretch" where
  [op_defs]: "inner_recv_timeout st e d =
     (case cs_get st e (queue d) of
        (q, Some val) \<Rightarrow>
          (d\<lparr> queue := q \<rparr>, [Notify_One Space_Available], Return (R_Value (Inr val)))
      | (q, None) \<Rightarrow>
          if senders d = 0 then (d\<lparr> queue := q \<rparr>, [], Return (R_Value (Inl ChannelClosed)))
          else (d\<lparr> queue := q \<rparr>, [],
                Wait Data_Available Recv_Timeout (Some (R_Value (Inl Timeout)))))"

definition inner_try_recv :: "('e, 'a, 's) channel_storage \<Rightarrow> 'e \<Rightarrow> 's inner_data \<Rightarrow>
    ('a, 's) chan_stretch" where
  [op_defs]: "inner_try_recv st e d =
     (case cs_get st e (queue d) of
        (q, Some val) \<Rightarrow>
          (d\<lparr> queue := q \<rparr>, [Notify_One Space_Available], Return (R_Value (Inr val)))
      | (q, None) \<Rightarrow>
          if senders d = 0 then (d\<lparr> queue := q \<rparr>, [], Return (R_Value (Inl ChannelClosed)))
          else (d\<lparr> queue := q \<rparr>, [], Return (R_Value (Inl ChannelEmpty))))"

text \<open>
  Cloning and dropping handles. A drop with the counter at zero would underflow: \<open>None\<close>. Dropping
  the last receiver notifies \<open>data_available\<close>, as the code does.
\<close>

definition sender_clone :: "'s inner_data \<Rightarrow> 's inner_data" where
  [op_defs]: "sender_clone d = d\<lparr> senders := senders d + 1 \<rparr>"

definition sender_drop :: "'s inner_data \<Rightarrow> ('s inner_data \<times> chan_cv signal list) option" where
  [op_defs]: "sender_drop d =
     (if senders d = 0 then None
      else let d' = d\<lparr> senders := senders d - 1 \<rparr> in
        Some (d', if senders d' = 0 then [Notify_All Data_Available] else []))"

definition receiver_clone :: "'s inner_data \<Rightarrow> 's inner_data" where
  [op_defs]: "receiver_clone d = d\<lparr> receivers := receivers d + 1 \<rparr>"

definition receiver_drop :: "'s inner_data \<Rightarrow> ('s inner_data \<times> chan_cv signal list) option" where
  [op_defs]: "receiver_drop d =
     (if receivers d = 0 then None
      else let d' = d\<lparr> receivers := receivers d - 1 \<rparr> in
        Some (d', if receivers d' = 0 then [Notify_All Data_Available] else []))"

definition sender_is_alive :: "'s inner_data \<Rightarrow> bool" where
  [op_defs]: "sender_is_alive d \<longleftrightarrow> receivers d > 0"

definition receiver_is_alive :: "'s inner_data \<Rightarrow> bool" where
  [op_defs]: "receiver_is_alive d \<longleftrightarrow> senders d > 0"

section \<open>The trait for channels and hubs\<close>

text \<open>
  \<open>DataChannel\<close> on a sender and on a receiver: the operation it delegates to, or
  \<open>Unimplemented\<close>. The iterator of a receiver receives and drops the error.
\<close>

datatype 'a data_channel_call =
  DC_Send 'a | DC_Try_Send 'a | DC_Recv | DC_Try_Recv | DC_Is_Alive

fun sender_data_channel :: "'a data_channel_call \<Rightarrow> error + 'a chan_op" where
  "sender_data_channel (DC_Send a) = Inr (Send a)"
| "sender_data_channel (DC_Try_Send a) = Inr (Try_Send a)"
| "sender_data_channel DC_Try_Recv = Inl Unimplemented"
| "sender_data_channel DC_Recv = Inl Unimplemented"
| "sender_data_channel DC_Is_Alive = Inr Sender_Is_Alive"

fun receiver_data_channel :: "'a data_channel_call \<Rightarrow> error + 'a chan_op" where
  "receiver_data_channel (DC_Send a) = Inl Unimplemented"
| "receiver_data_channel (DC_Try_Send a) = Inl Unimplemented"
| "receiver_data_channel DC_Try_Recv = Inr Try_Recv"
| "receiver_data_channel DC_Recv = Inr Recv"
| "receiver_data_channel DC_Is_Alive = Inr Receiver_Is_Alive"

fun iterator_next :: "'a chan_result \<Rightarrow> 'a option" where
  "iterator_next (R_Value r) = result_ok r"
| "iterator_next _ = None"

section \<open>The channel and its clients\<close>

text \<open>
  The shared data of the monitor: the inner data and, not in the code, how many sender and
  receiver handles the clients hold. A client calls an operation of a handle it holds; it cannot
  drop the last handle of a side while a thread is inside a blocking operation of that side,
  which borrows it.
\<close>

record 's chan_shared =
  inner :: "'s inner_data"
  tx_live :: nat
  rx_live :: nat

definition make_channel :: "('e, 'a, 's) channel_storage \<Rightarrow> usize \<Rightarrow> bool \<Rightarrow> 's chan_shared option" where
  "make_channel st capacity ordr =
     map_option (\<lambda>d. \<lparr> inner = d, tx_live = 1, rx_live = 1 \<rparr>) (inner_new st capacity ordr)"

fun chan_code :: "('e, 'a, 's) channel_storage \<Rightarrow>
    ('e, 's chan_shared, 'a chan_op, chan_cv, 'a chan_result) code" where
  "chan_code st e (Send a) h =
     (let (d, r) = inner_send st e a (inner h) in (h\<lparr> inner := d \<rparr>, r))"
| "chan_code st e (Send_Timeout a) h =
     (let (d, r) = inner_send_timeout st e a (inner h) in (h\<lparr> inner := d \<rparr>, r))"
| "chan_code st e (Try_Send a) h =
     (let (d, r) = inner_try_send st e a (inner h) in (h\<lparr> inner := d \<rparr>, r))"
| "chan_code st e Recv h = (let (d, r) = inner_recv st e (inner h) in (h\<lparr> inner := d \<rparr>, r))"
| "chan_code st e Recv_Timeout h =
     (let (d, r) = inner_recv_timeout st e (inner h) in (h\<lparr> inner := d \<rparr>, r))"
| "chan_code st e Try_Recv h = (let (d, r) = inner_try_recv st e (inner h) in (h\<lparr> inner := d \<rparr>, r))"
| "chan_code st e Clone_Sender h =
     (h\<lparr> inner := sender_clone (inner h), tx_live := tx_live h + 1 \<rparr>, [], Return R_Done)"
| "chan_code st e Drop_Sender h =
     (case sender_drop (inner h) of
        None \<Rightarrow> (h, [], Panic)
      | Some (d, sigs) \<Rightarrow> (h\<lparr> inner := d, tx_live := tx_live h - 1 \<rparr>, sigs, Return R_Done))"
| "chan_code st e Clone_Receiver h =
     (h\<lparr> inner := receiver_clone (inner h), rx_live := rx_live h + 1 \<rparr>, [], Return R_Done)"
| "chan_code st e Drop_Receiver h =
     (case receiver_drop (inner h) of
        None \<Rightarrow> (h, [], Panic)
      | Some (d, sigs) \<Rightarrow> (h\<lparr> inner := d, rx_live := rx_live h - 1 \<rparr>, sigs, Return R_Done))"
| "chan_code st e Len h = (h, [], Return (R_Len (cs_len st (queue (inner h)))))"
| "chan_code st e Is_Full h = (h, [], Return (R_Bool (cs_is_full st (queue (inner h)))))"
| "chan_code st e Is_Empty h = (h, [], Return (R_Bool (cs_is_empty st (queue (inner h)))))"
| "chan_code st e Sender_Is_Alive h = (h, [], Return (R_Bool (sender_is_alive (inner h))))"
| "chan_code st e Receiver_Is_Alive h = (h, [], Return (R_Bool (receiver_is_alive (inner h))))"

fun chan_waits_on :: "'a chan_op \<Rightarrow> chan_cv option" where
  "chan_waits_on (Send a) = Some Space_Available"
| "chan_waits_on (Send_Timeout a) = Some Space_Available"
| "chan_waits_on Recv = Some Data_Available"
| "chan_waits_on Recv_Timeout = Some Data_Available"
| "chan_waits_on _ = None"

type_synonym ('a, 's) chan_monitor =
  "(nat, 's chan_shared, 'a chan_op, chan_cv, 'a chan_result) monitor"

definition in_flight :: "chan_cv \<Rightarrow> ('a, 's) chan_monitor \<Rightarrow> bool" where
  "in_flight cv m \<longleftrightarrow>
     list_ex (\<lambda>w. chan_waits_on (w_op w) = Some cv) (asleep m) \<or>
     list_ex (\<lambda>(t, op). chan_waits_on op = Some cv) (ready m)"

fun chan_admits :: "('a, 's) chan_monitor \<Rightarrow> 'a chan_op \<Rightarrow> bool" where
  "chan_admits m (Send a) \<longleftrightarrow> tx_live (shared m) > 0"
| "chan_admits m (Send_Timeout a) \<longleftrightarrow> tx_live (shared m) > 0"
| "chan_admits m (Try_Send a) \<longleftrightarrow> tx_live (shared m) > 0"
| "chan_admits m Sender_Is_Alive \<longleftrightarrow> tx_live (shared m) > 0"
| "chan_admits m Clone_Sender \<longleftrightarrow> tx_live (shared m) > 0"
| "chan_admits m Drop_Sender \<longleftrightarrow>
     tx_live (shared m) > (if in_flight Space_Available m then 1 else 0)"
| "chan_admits m Recv \<longleftrightarrow> rx_live (shared m) > 0"
| "chan_admits m Recv_Timeout \<longleftrightarrow> rx_live (shared m) > 0"
| "chan_admits m Try_Recv \<longleftrightarrow> rx_live (shared m) > 0"
| "chan_admits m Receiver_Is_Alive \<longleftrightarrow> rx_live (shared m) > 0"
| "chan_admits m Clone_Receiver \<longleftrightarrow> rx_live (shared m) > 0"
| "chan_admits m Drop_Receiver \<longleftrightarrow>
     rx_live (shared m) > (if in_flight Data_Available m then 1 else 0)"
| "chan_admits m _ \<longleftrightarrow> tx_live (shared m) > 0 \<or> rx_live (shared m) > 0"

text \<open>The runs of a new channel, with or without spurious wake-ups.\<close>

definition chan_run :: "('e, 'a, 's) channel_storage \<Rightarrow> usize \<Rightarrow> bool \<Rightarrow> bool \<Rightarrow>
    (nat, 'a chan_op, 'a chan_result) event list \<Rightarrow> ('a, 's) chan_monitor \<Rightarrow> bool" where
  "chan_run st capacity ordr spurious evs m \<longleftrightarrow>
     (\<exists>h. make_channel st capacity ordr = Some h \<and>
        mon_run (chan_code st) chan_admits spurious (fresh_monitor h) evs m)"

text \<open>A schedule that can be executed gives a run.\<close>

definition chan_exec :: "('e, 'a, 's) channel_storage \<Rightarrow> usize \<Rightarrow> bool \<Rightarrow>
    (nat, 'e, 'a chan_op) choice list \<Rightarrow>
    ((nat, 'a chan_op, 'a chan_result) event list \<times> ('a, 's) chan_monitor) option" where
  "chan_exec st n b cs =
     Option.bind (make_channel st n b) (\<lambda>h. exec (chan_code st) chan_admits (fresh_monitor h) cs)"

lemma chan_exec_run: "chan_exec st n b cs = Some (evs, m) \<Longrightarrow> chan_run st n b spurious evs m"
  by (auto simp: chan_exec_def chan_run_def bind_eq_Some_conv intro: exec_run)

section \<open>The contracts the channel keeps\<close>

definition chan_inv :: "('s \<Rightarrow> bool) \<Rightarrow> 's chan_shared \<Rightarrow> bool" where
  [inv_defs]: "chan_inv sinv h \<longleftrightarrow> sinv (queue (inner h)) \<and>
     senders (inner h) = tx_live h \<and> receivers (inner h) = rx_live h"

lemma make_channel_Some: "make_channel st n b = Some h \<longleftrightarrow>
    n > 0 \<and> (\<exists>q. cs_with_capacity_and_ordering st n b = Some q \<and>
      h = \<lparr> inner = \<lparr> queue = q, senders = 1, receivers = 1 \<rparr>, tx_live = 1, rx_live = 1 \<rparr>)"
  by (auto simp: make_channel_def inner_new_def)

text \<open>What a thread waits for: stored values; free slots, as long as there is a receiver.\<close>

definition stored :: "('s \<Rightarrow> 'a list) \<Rightarrow> 's chan_shared \<Rightarrow> nat" where
  "stored elems h = length (elems (queue (inner h)))"

definition free_slots :: "('s \<Rightarrow> 'a list) \<Rightarrow> ('s \<Rightarrow> usize) \<Rightarrow> 's chan_shared \<Rightarrow> nat" where
  "free_slots elems cap h =
     (if receivers (inner h) = 0 then 0
      else cap (queue (inner h)) - length (elems (queue (inner h))))"

text \<open>
  The three sends share one shape, and so do the three receives: they differ in how they end
  when the channel is full, or empty but open.
\<close>

fun sends :: "'a chan_op \<Rightarrow> 'a option" where
  "sends (Send a) = Some a"
| "sends (Send_Timeout a) = Some a"
| "sends (Try_Send a) = Some a"
| "sends _ = None"

fun receives :: "'a chan_op \<Rightarrow> bool" where
  "receives Recv = True"
| "receives Recv_Timeout = True"
| "receives Try_Recv = True"
| "receives _ = False"

lemma receives_no_send: "receives op \<Longrightarrow> sends op = None"
  by (cases op) auto

fun when_full :: "'a chan_op \<Rightarrow> 'a \<Rightarrow> ('a chan_op, chan_cv, 'a chan_result) outcome" where
  "when_full (Send _) b = Wait Space_Available (Send b) None"
| "when_full (Send_Timeout _) b =
     Wait Space_Available (Send_Timeout b) (Some (R_Unit (Inl Timeout)))"
| "when_full _ b = Return (R_Unit (Inl ChannelFull))"

fun when_empty :: "'a chan_op \<Rightarrow> ('a chan_op, chan_cv, 'a chan_result) outcome" where
  "when_empty Recv = Wait Data_Available Recv None"
| "when_empty Recv_Timeout = Wait Data_Available Recv_Timeout (Some (R_Value (Inl Timeout)))"
| "when_empty _ = Return (R_Value (Inl ChannelEmpty))"

abbreviation with_queue :: "'s chan_shared \<Rightarrow> 's \<Rightarrow> 's chan_shared" where
  "with_queue h q \<equiv> h\<lparr> inner := (inner h)\<lparr> queue := q \<rparr> \<rparr>"

lemma chan_code_sends:
  assumes "sends op = Some a"
  shows "chan_code st e op h =
     (if receivers (inner h) = 0 then (h, [], Return (R_Unit (Inl ChannelClosed)))
      else (case cs_try_push st e (queue (inner h)) a of
          None \<Rightarrow> (h, [], Panic)
        | Some (q, Pushed) \<Rightarrow>
            (with_queue h q, [Notify_One Data_Available], Return (R_Unit (Inr ())))
        | Some (q, Skipped) \<Rightarrow> (with_queue h q, [], Return (R_Unit (Inl ChannelSkipped)))
        | Some (q, Full val) \<Rightarrow> (with_queue h q, [], when_full op val)))"
  using assms
  by (cases op) (auto simp: op_defs split: option.split prod.split storage_try_push_output.split)

lemma chan_code_receives:
  assumes "receives op"
  shows "chan_code st e op h =
     (case cs_get st e (queue (inner h)) of
        (q, Some val) \<Rightarrow>
          (with_queue h q, [Notify_One Space_Available], Return (R_Value (Inr val)))
      | (q, None) \<Rightarrow>
          (with_queue h q, [],
           if senders (inner h) = 0 then Return (R_Value (Inl ChannelClosed)) else when_empty op))"
  using assms by (cases op) (auto simp: op_defs split: prod.split option.split)

lemma chan_code_others:
  assumes "sends op = None" and "\<not> receives op" and "chan_code st e op h = (h', sigs, out)"
  shows "queue (inner h') = queue (inner h)" and "\<not> (\<exists>cv op' tr. out = Wait cv op' tr)"
    and "Notify_One cv \<notin> set sigs" and "chan_waits_on op = None"
    and "out \<noteq> Return (R_Unit r)" and "out \<noteq> Return (R_Value s)"
  using assms
  by (cases op; auto simp: op_defs Let_def split: option.splits if_splits)+

context storage_contract
begin

text \<open>Every stretch of code from a state that keeps the invariant is one of these.\<close>

lemma stretch_cases:
  assumes "inv (queue (inner h))" and "chan_code st e op h = (h', sigs, out)"
  obtains (closed) a where "sends op = Some a" and "receivers (inner h) = 0" and "h' = h"
      and "sigs = []" and "out = Return (R_Unit (Inl ChannelClosed))"
  | (pushed) a q where "sends op = Some a" and "receivers (inner h) > 0"
      and "cs_try_push st e (queue (inner h)) a = Some (q, Pushed)" and "inv q"
      and "cap q = cap (queue (inner h))" and "h' = with_queue h q"
      and "sigs = [Notify_One Data_Available]" and "out = Return (R_Unit (Inr ()))"
  | (skipped) a q where "sends op = Some a" and "receivers (inner h) > 0"
      and "cs_try_push st e (queue (inner h)) a = Some (q, Skipped)" and "inv q"
      and "cap q = cap (queue (inner h))" and "elems q = elems (queue (inner h))"
      and "h' = with_queue h q" and "sigs = []"
      and "out = Return (R_Unit (Inl ChannelSkipped))"
  | (full) a q where "sends op = Some a" and "receivers (inner h) > 0" and "inv q"
      and "cap q = cap (queue (inner h))" and "elems q = elems (queue (inner h))"
      and "length (elems q) = cap q"
      and "h' = with_queue h q" and "sigs = []" and "out = when_full op a"
  | (got) q x where "receives op" and "cs_get st e (queue (inner h)) = (q, Some x)" and "inv q"
      and "cap q = cap (queue (inner h))" and "length (elems q) < length (elems (queue (inner h)))"
      and "h' = with_queue h q" and "sigs = [Notify_One Space_Available]"
      and "out = Return (R_Value (Inr x))"
  | (drained) q where "receives op" and "cs_get st e (queue (inner h)) = (q, None)" and "inv q"
      and "cap q = cap (queue (inner h))" and "elems q = []"
      and "h' = with_queue h q" and "sigs = []"
      and "out = (if senders (inner h) = 0 then Return (R_Value (Inl ChannelClosed))
                  else when_empty op)"
  | (other) "sends op = None" and "\<not> receives op"
proof (cases "sends op")
  case None
  show thesis
  proof (cases "receives op")
    case True
    note c = assms(2) [unfolded chan_code_receives [OF True], symmetric]
    from assms(1) show thesis
    proof (cases rule: get_cases [where e = e])
      case (none q)
      with c True drained [of q] show thesis by simp
    next
      case (some q x)
      with c True got [of q x] show thesis by simp
    qed
  qed (use None other in blast)
next
  case (Some a)
  note c = assms(2) [unfolded chan_code_sends [OF Some], symmetric]
  show thesis
  proof (cases "receivers (inner h) = 0")
    case True
    with c Some closed show thesis by simp
  next
    case False
    from assms(1) show thesis
    proof (cases rule: push_cases [where e = e and a = a])
      case (pushed q)
      with c Some False show thesis by (intro that(2) [of a q]) simp_all
    next
      case (skipped q)
      with c Some False show thesis by (intro that(3) [of a q]) simp_all
    next
      case (full q)
      with c Some False show thesis by (intro that(4) [of a q]) simp_all
    qed
  qed
qed

lemma stretch_keeps_inv:
  assumes "chan_inv inv h" and "chan_code st e op h = (h', sigs, out)"
    and "op = Drop_Sender \<Longrightarrow> tx_live h > 0" and "op = Drop_Receiver \<Longrightarrow> rx_live h > 0"
  shows "chan_inv inv h' \<and> out \<noteq> Panic"
proof -
  from assms(1) have "inv (queue (inner h))" by (simp add: chan_inv_def)
  from this assms(2) show ?thesis
  proof (cases rule: stretch_cases)
    case (full a q)
    then show ?thesis using assms(1) by (cases op) (auto simp: chan_inv_def)
  next
    case (drained q)
    then show ?thesis using assms(1) by (cases op) (auto simp: chan_inv_def)
  next
    case other
    then show ?thesis using assms
      by (cases op) (auto simp: op_defs chan_inv_def Let_def split: if_splits)
  qed (use assms(1) in \<open>auto simp: chan_inv_def\<close>)
qed

lemma stretch_waits:
  assumes "chan_inv inv h" and "chan_code st e op h = (h', sigs, Wait c op' tr)"
  shows "op' = op \<and> chan_waits_on op = Some c \<and>
    ((c = Space_Available \<and> free_slots elems cap h' = 0 \<and> receivers (inner h') > 0) \<or>
     (c = Data_Available \<and> stored elems h' = 0 \<and> senders (inner h') > 0))"
proof -
  from assms(1) have "inv (queue (inner h))" by (simp add: chan_inv_def)
  from this assms(2) show ?thesis
  proof (cases rule: stretch_cases)
    case (full a q)
    then show ?thesis by (cases op) (auto simp: free_slots_def)
  next
    case (drained q)
    then show ?thesis by (cases op) (auto simp: stored_def split: if_splits)
  next
    case other
    from chan_code_others(2) [OF other assms(2)] show ?thesis by blast
  qed simp_all
qed

end

sublocale storage_contract \<subseteq> data_side: no_lost_wakeup "chan_code st" chan_admits chan_waits_on
  "chan_inv inv" Data_Available "stored elems"
proof (unfold_locales, goal_cases)
  case (1 h e op h' sigs cv op' tr)
  from stretch_waits [OF 1] show ?case by simp
next
  case (2 m op e h' sigs out)
  have "op = Drop_Sender \<Longrightarrow> tx_live (shared m) > 0" "op = Drop_Receiver \<Longrightarrow> rx_live (shared m) > 0"
    using 2(2) by auto
  from stretch_keeps_inv [OF 2(1,3) this] show ?case by simp
next
  case (3 h op e h' sigs out)
  have "op \<noteq> Drop_Sender" "op \<noteq> Drop_Receiver" using 3(2) by auto
  with stretch_keeps_inv [OF 3(1,3)] show ?case by simp
next
  case (4 h e op h' sigs op' tr)
  from stretch_waits [OF 4] show ?case by simp
next
  case (5 m op e h' sigs out)
  from 5(1) have "inv (queue (inner (shared m)))" by (simp add: chan_inv_def)
  from this 5(3) show ?case
  proof (cases rule: stretch_cases)
    case (closed a)
    then show ?thesis by (cases op) simp_all
  next
    case (pushed a q)
    then show ?thesis using push_pushed_length [OF \<open>inv (queue (inner (shared m)))\<close> pushed(3)]
      by (cases op) (simp_all add: stored_def)
  next
    case (skipped a q)
    then show ?thesis by (cases op) (simp_all add: stored_def)
  next
    case (full a q)
    then show ?thesis by (cases op) (simp_all add: stored_def)
  next
    case (got q x)
    then show ?thesis by (cases op) (simp_all add: stored_def)
  next
    case (drained q)
    then show ?thesis by (simp add: stored_def)
  next
    case other
    from chan_code_others(1,4) [OF other 5(3)] show ?thesis by (simp add: stored_def)
  qed
qed

sublocale storage_contract \<subseteq> data_side: wakes_on_close "chan_code st" chan_admits chan_waits_on
  "chan_inv inv" Data_Available "\<lambda>h. senders (inner h) = 0"
proof (unfold_locales, goal_cases)
  case (1 h e op h' sigs op' tr)
  from stretch_waits [OF 1] show ?case by simp
next
  case (2 h e op h' sigs out)
  have "op = Drop_Sender"
  proof (rule ccontr)
    assume "op \<noteq> Drop_Sender"
    with 2 show False
      by (cases op) (auto simp: op_defs Let_def split: if_splits option.splits prod.splits
        storage_try_push_output.splits)
  qed
  with 2 show ?case by (auto simp: op_defs Let_def split: if_splits)
qed

sublocale fifo_storage_contract \<subseteq> space_side: no_lost_wakeup "chan_code st" chan_admits chan_waits_on
  "chan_inv inv" Space_Available "free_slots elems cap"
proof (unfold_locales, goal_cases)
  case (1 h e op h' sigs op' tr)
  from stretch_waits [OF 1] show ?case by simp
next
  case (2 m op e h' sigs out)
  from 2(1) have ok: "inv (queue (inner (shared m)))" by (simp add: chan_inv_def)
  from ok 2(3) show ?case
  proof (cases rule: stretch_cases)
    case (skipped a q)
    with push_never_skips [OF ok] show ?thesis by blast
  next
    case (pushed a q)
    then show ?thesis using push_appends [OF ok pushed(3)]
      by (cases op) (simp_all add: free_slots_def)
  next
    case (full a q)
    then show ?thesis by (simp add: free_slots_def)
  next
    case (got q x)
    then show ?thesis using get_head [OF ok got(2)]
      by (cases op) (auto simp: free_slots_def)
  next
    case (drained q)
    then show ?thesis using get_none_empty [OF ok drained(2)]
      by (cases op) (simp_all add: free_slots_def)
  next
    case other
    have "receivers (inner h') \<noteq> 0 \<Longrightarrow> receivers (inner (shared m)) \<noteq> 0"
      using 2(1-3) other by (cases op) (auto simp: op_defs chan_inv_def Let_def split: if_splits)
    with chan_code_others(1,4) [OF other 2(3)] show ?thesis by (auto simp: free_slots_def)
  qed (simp_all add: free_slots_def)
qed

section \<open>Threads that nobody will wake\<close>

text \<open>
  Once the last receiver is gone nothing notifies \<open>space_available\<close> any more: a sender that
  sleeps there without a timeout sleeps for ever.
\<close>

definition only_senders :: "('a, 's) chan_monitor \<Rightarrow> bool" where
  "only_senders m \<longleftrightarrow> list_all (\<lambda>w. chan_waits_on (w_op w) = Some Space_Available) (asleep m) \<and>
     list_all (\<lambda>(t, op). chan_waits_on op = Some Space_Available) (ready m)"

definition no_receivers :: "('a, 's) chan_monitor \<Rightarrow> bool" where
  "no_receivers m \<longleftrightarrow> rx_live (shared m) = 0 \<and> only_senders m"

lemma notify_keeps_sleeper:
  "notify sg m m' \<Longrightarrow> w \<in> set (asleep m) \<Longrightarrow> sg \<noteq> Notify_One (w_cv w) \<Longrightarrow> sg \<noteq> Notify_All (w_cv w) \<Longrightarrow>
   w \<in> set (asleep m')"
  by (induction rule: notify.induct) auto

lemma notifies_keeps_sleeper:
  "notifies sigs m m' \<Longrightarrow> w \<in> set (asleep m) \<Longrightarrow> Notify_One (w_cv w) \<notin> set sigs \<Longrightarrow>
   Notify_All (w_cv w) \<notin> set sigs \<Longrightarrow> w \<in> set (asleep m')"
proof (induction sigs arbitrary: m)
  case (Cons sg sigs)
  then obtain m1 where m1: "notify sg m m1" "notifies sigs m1 m'" by auto
  from Cons.IH [OF m1(2) notify_keeps_sleeper [OF m1(1) Cons.prems(2)]] Cons.prems(3,4)
  show ?case by auto
qed simp

lemma notify_only_senders: "notify sg m m' \<Longrightarrow> only_senders m \<Longrightarrow> only_senders m'"
  by (induction rule: notify.induct) (auto simp: only_senders_def wake_def list_all_iff)

lemma notifies_only_senders: "notifies sigs m m' \<Longrightarrow> only_senders m \<Longrightarrow> only_senders m'"
proof (induction sigs arbitrary: m)
  case (Cons sg sigs)
  then obtain m1 where "notify sg m m1" "notifies sigs m1 m'" by auto
  with Cons.IH [of m1] Cons.prems(2) notify_only_senders [of sg m m1] show ?case by simp
qed simp

lemma not_receives_signals:
  assumes "chan_code st e op h = (h', sigs, out)" and "\<not> receives op"
  shows "Notify_One Space_Available \<notin> set sigs \<and> Notify_All Space_Available \<notin> set sigs"
  using assms
  by (cases op) (auto simp: op_defs Let_def split: if_splits option.splits prod.splits
      storage_try_push_output.splits)

lemma not_receives_waits:
  assumes "chan_code st e op h = (h', sigs, Wait c op' tr)" and "\<not> receives op"
  shows "chan_waits_on op' = Some Space_Available"
  using assms
  by (cases op) (auto simp: op_defs Let_def split: if_splits option.splits prod.splits
      storage_try_push_output.splits)

lemma not_receives_rx_live:
  assumes "chan_code st e op h = (h', sigs, out)" and "rx_live h = 0" and "op \<noteq> Clone_Receiver"
  shows "rx_live h' = 0"
  using assms
  by (cases op) (auto simp: op_defs Let_def split: if_splits option.splits prod.splits
      storage_try_push_output.splits)

lemma stranded_stretch:
  assumes c: "chan_code st e op h = (h', sigs, out)" and "\<not> receives op" "op \<noteq> Clone_Receiver"
    and "rx_live h = 0" and n: "notifies sigs m0 m1" and "shared m0 = h'"
    and "only_senders m0" and w: "w \<in> set (asleep m0)" "w_cv w = Space_Available"
  shows "no_receivers (settle t out m1) \<and> w \<in> set (asleep (settle t out m1))"
proof -
  have "w \<in> set (asleep m1)"
    using notifies_keeps_sleeper [OF n w(1)] not_receives_signals [OF c assms(2)] w(2) by simp
  moreover have "only_senders m1" using notifies_only_senders [OF n assms(7)] .
  moreover have "rx_live (shared m1) = 0"
    using notifies_shared [OF n] assms(6) not_receives_rx_live [OF c assms(4,3)] by simp
  ultimately show ?thesis
    using not_receives_waits [of st e op h h' sigs] c assms(2)
    by (cases out) (simp_all add: no_receivers_def only_senders_def)
qed

lemma stranded_step:
  "mon_step (chan_code st) chan_admits False m ev m' \<Longrightarrow> no_receivers m \<Longrightarrow>
   w \<in> set (asleep m) \<Longrightarrow> w_cv w = Space_Available \<Longrightarrow> w_timeout w = None \<Longrightarrow>
   no_receivers m' \<and> w \<in> set (asleep m')"
proof (induction rule: mon_step.induct)
  case (call m op t e h' sigs out m1)
  have rx: "rx_live (shared m) = 0" and s: "only_senders (m\<lparr> shared := h' \<rparr>)"
    using call(6) by (simp_all add: no_receivers_def only_senders_def)
  with call(1) have "\<not> receives op" "op \<noteq> Clone_Receiver" by (cases op; simp)+
  from stranded_stretch [OF call(4) this rx call(5) _ s] call(7,8) show ?case by simp
next
  case (resume m xs t op ys e h' sigs out m1)
  have rx: "rx_live (shared m) = 0" and s: "only_senders (m\<lparr> shared := h', ready := xs @ ys \<rparr>)"
    and "chan_waits_on op = Some Space_Available"
    using resume(1,4) by (simp_all add: no_receivers_def only_senders_def)
  then have "\<not> receives op" "op \<noteq> Clone_Receiver" by (cases op; simp)+
  from stranded_stretch [OF resume(2) this rx resume(3) _ s] resume(5,6) show ?case by simp
next
  case (timeout m xs t cv op r ys)
  then show ?case by (auto simp: no_receivers_def only_senders_def)
qed simp

lemma stranded_run:
  assumes "mon_run (chan_code st) chan_admits False m evs m'" and "no_receivers m"
    and "w \<in> set (asleep m)" and "w_cv w = Space_Available" and "w_timeout w = None"
  shows "no_receivers m' \<and> w \<in> set (asleep m')"
  using assms
proof (induction rule: mon_run.induct)
  case (run_step evs m1 ev m')
  with stranded_step [OF run_step.hyps(2)] show ?case by blast
qed simp

section \<open>Traces\<close>

text \<open>The values whose sends succeeded, and the values receives returned, in order.\<close>

fun sent_of :: "(nat, 'a chan_op, 'a chan_result) event \<Rightarrow> 'a list" where
  "sent_of (Finished t op (R_Unit (Inr u))) = (case sends op of Some a \<Rightarrow> [a] | None \<Rightarrow> [])"
| "sent_of _ = []"

fun received_of :: "(nat, 'a chan_op, 'a chan_result) event \<Rightarrow> 'a list" where
  "received_of (Finished t op (R_Value (Inr a))) = [a]"
| "received_of _ = []"

definition sent :: "(nat, 'a chan_op, 'a chan_result) event list \<Rightarrow> 'a list" where
  "sent evs = concat (map sent_of evs)"

definition received :: "(nat, 'a chan_op, 'a chan_result) event list \<Rightarrow> 'a list" where
  "received evs = concat (map received_of evs)"

lemma sent_simps [simp]: "sent [] = []" "sent (evs @ [ev]) = sent evs @ sent_of ev"
  "sent (ev # evs) = sent_of ev @ sent evs"
  by (simp_all add: sent_def)

lemma received_simps [simp]: "received [] = []"
  "received (evs @ [ev]) = received evs @ received_of ev"
  "received (ev # evs) = received_of ev @ received evs"
  by (simp_all add: received_def)

lemma when_full_trace [simp]:
  "sent_of (outcome_event t op (when_full op a)) = []"
  "received_of (outcome_event t op (when_full op a)) = []"
  by (cases op; simp)+

lemma when_empty_trace [simp]:
  "sent_of (outcome_event t op (when_empty op)) = []"
  "received_of (outcome_event t op (when_empty op)) = []"
  by (cases op; simp)+

lemma others_trace:
  assumes "sends op = None" and "\<not> receives op" and "chan_code st e op h = (h', sigs, out)"
  shows "sent_of (outcome_event t op out) = [] \<and> received_of (outcome_event t op out) = []"
proof (cases out)
  case (Return r)
  then show ?thesis using assms(1) chan_code_others(5,6) [OF assms] by (cases r) auto
qed simp_all

context storage_contract
begin

lemma stretch_trace:
  assumes "inv (queue (inner h))" and "chan_code st e op h = (h', sigs, out)"
  shows "mset (received_of (outcome_event t op out)) + mset (elems (queue (inner h'))) \<subseteq>#
    mset (elems (queue (inner h))) + mset (sent_of (outcome_event t op out))"
  using assms
proof (cases rule: stretch_cases)
  case (pushed a q)
  then show ?thesis using push_pushed [OF assms(1) pushed(3)] by simp
next
  case (got q x)
  then show ?thesis using get_some_mset [OF assms(1) got(2)] by simp
next
  case other
  with others_trace [OF other assms(2)] chan_code_others(1) [OF other assms(2)] show ?thesis by simp
qed simp_all

lemma stretch_cap:
  assumes "inv (queue (inner h))" and "chan_code st e op h = (h', sigs, out)"
  shows "cap (queue (inner h')) = cap (queue (inner h))"
  using assms
  by (cases rule: stretch_cases) (use chan_code_others(1) [OF _ _ assms(2)] in simp_all)

lemma step_trace:
  assumes "mon_step (chan_code st) chan_admits spurious m ev m'" and "inv (queue (inner (shared m)))"
  shows "mset (received_of ev) + mset (elems (queue (inner (shared m')))) \<subseteq>#
    mset (elems (queue (inner (shared m)))) + mset (sent_of ev) \<and>
    cap (queue (inner (shared m'))) = cap (queue (inner (shared m)))"
  using assms(1)
proof (cases rule: mon_step_shared)
  case (stretch e op t sigs out)
  with stretch_trace [OF assms(2) stretch(1)] stretch_cap [OF assms(2) stretch(1)] show ?thesis
    by simp
qed auto

lemma run_inv_queue:
  "mon_run (chan_code st) chan_admits spurious (fresh_monitor h) evs m \<Longrightarrow> chan_inv inv h \<Longrightarrow>
   inv (queue (inner (shared m)))"
  by (drule (1) data_side.run_inv) (simp add: chan_inv_def)

lemma run_trace:
  assumes "mon_run (chan_code st) chan_admits spurious (fresh_monitor h) evs m" and "chan_inv inv h"
  shows "mset (received evs) + mset (elems (queue (inner (shared m)))) \<subseteq>#
    mset (elems (queue (inner h))) + mset (sent evs) \<and>
    cap (queue (inner (shared m))) = cap (queue (inner h))"
  using assms
proof (induction rule: mon_run.induct)
  case run_start
  then show ?case by simp
next
  case (run_step evs m ev m')
  note now = step_trace [OF run_step.hyps(2) run_inv_queue [OF run_step.hyps(1) run_step.prems]]
  note before = run_step.IH [OF run_step.prems]
  from trace_step [OF conjunct1 [OF now] conjunct1 [OF before]] now before show ?case
    by (simp add: ac_simps)
qed

text \<open>The facts on the runs of a channel: every statement about \<open>chan_run\<close> rests on these.\<close>

lemma chan_run_start: "make_channel st n b = Some h \<Longrightarrow>
    chan_inv inv h \<and> elems (queue (inner h)) = [] \<and> n \<le> cap (queue (inner h)) \<and> n > 0"
  by (auto simp: make_channel_Some chan_inv_def dest: new_storage)

lemma chan_run_inv: "chan_run st n b spurious evs m \<Longrightarrow> chan_inv inv (shared m)"
  by (auto simp: chan_run_def dest: chan_run_start data_side.run_inv)

lemma chan_run_no_panic: "chan_run st n b spurious evs m \<Longrightarrow> \<not> list_ex is_Panicked evs"
  by (auto simp: chan_run_def dest!: chan_run_start data_side.run_no_panic)

lemma chan_run_trace: "chan_run st n b spurious evs m \<Longrightarrow>
    mset (received evs) + mset (elems (queue (inner (shared m)))) \<subseteq># mset (sent evs)"
  by (auto simp: chan_run_def dest!: chan_run_start dest: run_trace)

lemma chan_run_cap:
  assumes "chan_run st n b spurious evs m"
  obtains q where "cs_with_capacity_and_ordering st n b = Some q"
    and "cap (queue (inner (shared m))) = cap q"
proof -
  from assms obtain h where h: "make_channel st n b = Some h"
    and run: "mon_run (chan_code st) chan_admits spurious (fresh_monitor h) evs m"
    by (auto simp: chan_run_def)
  with run_trace [OF run] chan_run_start [OF h] that show thesis by (auto simp: make_channel_Some)
qed

lemma chan_run_length: "chan_run st n b spurious evs m \<Longrightarrow>
    length (elems (queue (inner (shared m)))) \<le> cap (queue (inner (shared m)))"
  by (drule chan_run_inv) (simp add: chan_inv_def bounded_elems)

lemma chan_run_data: "chan_run st n b spurious evs m \<Longrightarrow> ready m = [] \<Longrightarrow>
    sleeping Data_Available m > 0 \<Longrightarrow> stored elems (shared m) = 0"
  unfolding chan_run_def using chan_run_start data_side.quiescent_sleepers by blast

lemma send_refused_keeps:
  assumes "inv (queue (inner h))" and "sends op = Some a"
    and "chan_code st e op h = (h', sigs, out)" and "out \<noteq> Return (R_Unit (Inr ()))"
  shows "elems (queue (inner h')) = elems (queue (inner h)) \<and> sigs = []"
  using assms(1,3) by (cases rule: stretch_cases) (use assms(2,4) receives_no_send [of op] in auto)

lemma recv_closed_drained:
  assumes "inv (queue (inner h))" and "receives op"
    and "chan_code st e op h = (h', sigs, Return (R_Value (Inl ChannelClosed)))"
  shows "elems (queue (inner h')) = [] \<and> senders (inner h') = 0"
  using assms(1,3)
proof (cases rule: stretch_cases)
  case (drained q)
  with assms(2) show ?thesis by (cases op) (auto split: if_splits)
qed (use assms(2) receives_no_send [of op] in auto)

lemma chan_run_closed: "chan_run st n b spurious evs m \<Longrightarrow> senders (inner (shared m)) = 0 \<Longrightarrow>
    sleeping Data_Available m = 0"
  unfolding chan_run_def using chan_run_start data_side.run_closed [of spurious "fresh_monitor h" for h]
  by auto

end

context fifo_storage_contract
begin

lemma fifo_stretch_trace:
  assumes "inv (queue (inner h))" and "chan_code st e op h = (h', sigs, out)"
  shows "elems (queue (inner h)) @ sent_of (outcome_event t op out) =
    received_of (outcome_event t op out) @ elems (queue (inner h'))"
  using assms
proof (cases rule: stretch_cases)
  case (pushed a q)
  then show ?thesis using push_appends [OF assms(1) pushed(3)] by simp
next
  case (got q x)
  then show ?thesis using get_head [OF assms(1) got(2)] by simp
next
  case (drained q)
  then show ?thesis using get_none_empty [OF assms(1) drained(2)] by simp
next
  case other
  with others_trace [OF other assms(2)] chan_code_others(1) [OF other assms(2)] show ?thesis by simp
qed simp_all

lemma fifo_run_trace:
  assumes "mon_run (chan_code st) chan_admits spurious (fresh_monitor h) evs m" and "chan_inv inv h"
  shows "elems (queue (inner h)) @ sent evs = received evs @ elems (queue (inner (shared m)))"
  using assms
proof (induction rule: mon_run.induct)
  case run_start
  then show ?case by simp
next
  case (run_step evs m ev m')
  have "elems (queue (inner (shared m))) @ sent_of ev =
      received_of ev @ elems (queue (inner (shared m')))"
    using run_step.hyps(2)
  proof (cases rule: mon_step_shared)
    case (stretch e op t sigs out)
    with fifo_stretch_trace [OF run_inv_queue [OF run_step.hyps(1) run_step.prems] stretch(1)]
    show ?thesis by simp
  qed auto
  with run_step.IH [OF run_step.prems] show ?case by (metis append.assoc received_simps(2) sent_simps(2))
qed

lemma failures_harmless:
  assumes "inv (queue (inner h))" and "chan_code st e op h = (h', sigs, out)"
  shows "(sends op = Some a \<and> out \<noteq> Return (R_Unit (Inr ())) \<longrightarrow>
      elems (queue (inner h')) = elems (queue (inner h)) \<and> sigs = []) \<and>
    (receives op \<and> out = Return (R_Value (Inl ChannelClosed)) \<longrightarrow>
      elems (queue (inner h)) = [] \<and> senders (inner h) = 0)"
  using assms
proof (cases rule: stretch_cases)
  case (drained q)
  with get_none_empty [OF assms(1) drained(2)] receives_no_send [of op] show ?thesis
    by (cases op) auto
next
  case (got q x)
  with receives_no_send [of op] show ?thesis by auto
next
  case (full a q)
  with receives_no_send [of op] show ?thesis by auto
qed (use receives_no_send [of op] in auto)

lemma chan_run_fifo: "chan_run st n b spurious evs m \<Longrightarrow>
    sent evs = received evs @ elems (queue (inner (shared m)))"
  by (auto simp: chan_run_def dest!: chan_run_start dest: fifo_run_trace)

lemma chan_run_space: "chan_run st n b spurious evs m \<Longrightarrow> ready m = [] \<Longrightarrow>
    sleeping Space_Available m > 0 \<Longrightarrow> free_slots elems cap (shared m) = 0"
  unfolding chan_run_def using chan_run_start space_side.quiescent_sleepers by blast

end

end
