(* ===== verification/Channel.thy ===== *)
theory Channel
  imports Base_Channel
begin

text \<open>
  The plain bounded channel of \<open>src/src/channel.rs\<close>: the base channel over a \<open>VecDeque\<close>. All
  statements are about every run of every number of threads, with every scheduling of lock and
  notifications, every timeout and, where stated, spurious wake-ups.
\<close>

definition channel_bounded :: "allocator \<Rightarrow> usize \<Rightarrow> 'a vec_deque chan_shared option" where
  "channel_bounded al capacity = make_channel (vecdeque_storage al) capacity False"

definition channel_run :: "allocator \<Rightarrow> usize \<Rightarrow> bool \<Rightarrow>
    (nat, 'a chan_op, 'a chan_result) event list \<Rightarrow> ('a, 'a vec_deque) chan_monitor \<Rightarrow> bool" where
  "channel_run al capacity spurious evs m \<longleftrightarrow>
     (\<exists>h. channel_bounded al capacity = Some h \<and>
        mon_run (chan_code (vecdeque_storage al)) chan_admits spurious (fresh_monitor h) evs m)"

definition channel_contents :: "('a, 'a vec_deque) chan_monitor \<Rightarrow> 'a list" where
  "channel_contents m = vd_elems (queue (inner (shared m)))"

lemma channel_run_chan_run:
  "channel_run al n = chan_run (vecdeque_storage al) n False"
  by (simp add: fun_eq_iff channel_run_def chan_run_def channel_bounded_def)

lemma channel_exec_run:
  "chan_exec (vecdeque_storage al) n False cs = Some (evs, m) \<Longrightarrow> channel_run al n spurious evs m"
  by (simp add: channel_run_chan_run chan_exec_run)

text \<open>
  A run of four threads used as the concrete input below: two senders and two receivers over a
  channel for one value. Cut after two steps a sender sleeps, at the end a receiver does.
\<close>

definition sample_run :: "nat \<Rightarrow> ((nat, nat chan_op, nat chan_result) event list \<times>
    (nat, nat vec_deque) chan_monitor) option" where
  "sample_run k = chan_exec (vecdeque_storage exact_allocator) 1 False
     (take k [Call 0 () (Send 7), Call 1 () (Send 8), Call 0 () (Send_Timeout 9), Call 2 () Recv,
        Resume 0 (), Call 3 () Recv, Resume 0 (), Call 2 () Recv, Call 3 () Recv])"

definition shows_of :: "(nat, nat chan_op, nat chan_result) event list \<times>
    (nat, nat vec_deque) chan_monitor \<Rightarrow> nat list \<times> nat list \<times> nat list \<times> nat \<times> nat \<times> nat" where
  "shows_of = (\<lambda>(evs, m). (sent evs, received evs, channel_contents m,
     sleeping Space_Available m, sleeping Data_Available m, length (ready m)))"

lemma sample_run_full: "map_option shows_of (sample_run 2) = Some ([7], [], [7], 1, 0, 0)"
  by code_simp

lemma sample_run_end: "map_option shows_of (sample_run 9) = Some ([7, 8, 9], [7, 8, 9], [], 0, 1, 0)"
  by code_simp

lemma sample_run_run: "sample_run k = Some (evs, m) \<Longrightarrow> channel_run exact_allocator 1 spurious evs m"
  unfolding sample_run_def by (rule channel_exec_run)

lemma sample_full:
  obtains evs m where "sample_run 2 = Some (evs, m)" and "sent evs = [7]" and "received evs = []"
    and "channel_contents m = [7]" and "sleeping Space_Available m = 1" and "ready m = []"
proof -
  from sample_run_full that show thesis by (auto simp: map_option_eq_Some shows_of_def)
qed

lemma sample_end:
  obtains evs m where "sample_run 9 = Some (evs, m)" and "sent evs = [7, 8, 9]"
    and "received evs = [7, 8, 9]" and "channel_contents m = []"
    and "sleeping Data_Available m = 1" and "ready m = []"
proof -
  from sample_run_end that show thesis by (auto simp: map_option_eq_Some shows_of_def)
qed

section \<open>Delivery\<close>

text \<open>
  C2: the plain channel is first in, first out and loses nothing: in every run, however many
  threads send and receive, the values whose sends succeeded are, in order, the values received
  so far followed by the values still stored.
\<close>

theorem channel_fifo:
  assumes "allocator_ok al" and "channel_run al capacity spurious evs m"
  shows "sent evs = received evs @ channel_contents m"
  unfolding channel_contents_def
  using fifo_storage_contract.chan_run_fifo [OF vecdeque_is_fifo [OF assms(1)]
      assms(2) [unfolded channel_run_chan_run]] .

theorem channel_fifo_witness:
  "\<exists>evs m. sample_run 9 = Some (evs, m) \<and> received evs = [7, 8, 9] \<and>
     sent evs = received evs @ channel_contents m"
proof -
  obtain evs m where "sample_run 9 = Some (evs, m)" "received evs = [7, 8, 9]" by (rule sample_end)
  with channel_fifo [OF _ sample_run_run [OF this(1)]] show ?thesis by simp
qed

text \<open>
  C9: no run panics, the counters \<open>senders\<close> and \<open>receivers\<close> always equal the handles the clients
  hold, and a channel made for \<open>capacity\<close> values never holds more than its buffer does (exactly
  \<open>capacity\<close> when the allocator gives what was asked for).
\<close>

theorem channel_safe:
  fixes m :: "('a, 'a vec_deque) chan_monitor"
  assumes "allocator_ok al" and "channel_run al capacity spurious evs m"
  shows "\<not> list_ex is_Panicked evs \<and>
    senders (inner (shared m)) = tx_live (shared m) \<and>
    receivers (inner (shared m)) = rx_live (shared m) \<and>
    length (channel_contents m) \<le> al_with_capacity al capacity"
proof -
  note run = assms(2) [unfolded channel_run_chan_run]
  note st = fifo_storage_contract.axioms(1) [OF vecdeque_is_fifo [OF assms(1)]]
  obtain q where q: "cs_with_capacity_and_ordering (vecdeque_storage al) capacity False =
      Some (q :: 'a vec_deque)"
    and cap: "vd_cap (queue (inner (shared m))) = vd_cap q"
    by (rule storage_contract.chan_run_cap [OF st run])
  from q have "q = vd_with_capacity al capacity" by simp
  with cap have "vd_cap (queue (inner (shared m))) = al_with_capacity al capacity"
    by (simp add: vd_with_capacity_def)
  with storage_contract.chan_run_length [OF st run]
  have "length (channel_contents m) \<le> al_with_capacity al capacity" by (simp add: channel_contents_def)
  with storage_contract.chan_run_inv [OF st run] storage_contract.chan_run_no_panic [OF st run]
  show ?thesis unfolding chan_inv_def by blast
qed

theorem channel_safe_witness:
  "\<exists>evs m. sample_run 2 = Some (evs, m) \<and> channel_contents m = [7] \<and>
     senders (inner (shared m)) = tx_live (shared m) \<and>
     length (channel_contents m) \<le> al_with_capacity exact_allocator 1"
proof -
  obtain evs m where "sample_run 2 = Some (evs, m)" "channel_contents m = [7]" by (rule sample_full)
  with channel_safe [OF _ sample_run_run [OF this(1)]] show ?thesis by simp
qed

section \<open>Blocked threads\<close>

text \<open>
  C4: no receiver misses its wake-up: in every reachable state where no woken thread is still on
  its way to the lock, if a receiver sleeps then the channel is empty and some sender is alive.
\<close>

theorem channel_receivers_woken:
  assumes "allocator_ok al" and "channel_run al capacity spurious evs m"
    and "ready m = []" and "sleeping Data_Available m > 0"
  shows "channel_contents m = [] \<and> senders (inner (shared m)) > 0"
proof -
  note run = assms(2) [unfolded channel_run_chan_run]
  note st = fifo_storage_contract.axioms(1) [OF vecdeque_is_fifo [OF assms(1)]]
  from storage_contract.chan_run_data [OF st run assms(3,4)]
    storage_contract.chan_run_closed [OF st run] assms(4)
  show ?thesis by (auto simp: channel_contents_def stored_def)
qed

theorem channel_receivers_woken_witness:
  "\<exists>evs m. sample_run 9 = Some (evs, m) \<and> sleeping Data_Available m > 0 \<and>
     channel_contents m = [] \<and> senders (inner (shared m)) > 0"
proof -
  obtain evs m where s: "sample_run 9 = Some (evs, m)" "ready m = []" "sleeping Data_Available m = 1"
    by (rule sample_end)
  with channel_receivers_woken [OF _ sample_run_run [OF s(1)] s(2)] show ?thesis by simp
qed

text \<open>
  C3: no sender of a plain channel misses its wake-up while a receiver is alive: if no woken
  thread is on its way and a sender sleeps, the channel is full or has no receiver any more.
\<close>

theorem channel_senders_woken:
  assumes "allocator_ok al" and "channel_run al capacity spurious evs m"
    and "ready m = []" and "sleeping Space_Available m > 0"
  shows "length (channel_contents m) = vd_cap (queue (inner (shared m))) \<or>
    receivers (inner (shared m)) = 0"
proof -
  note run = assms(2) [unfolded channel_run_chan_run]
  note fifo = vecdeque_is_fifo [OF assms(1)]
  from fifo_storage_contract.chan_run_space [OF fifo run assms(3,4)]
    storage_contract.chan_run_length [OF fifo_storage_contract.axioms(1) [OF fifo] run]
  show ?thesis by (auto simp: free_slots_def channel_contents_def split: if_splits)
qed

theorem channel_senders_woken_witness:
  "\<exists>evs m. sample_run 2 = Some (evs, m) \<and> sleeping Space_Available m > 0 \<and>
    (length (channel_contents m) = vd_cap (queue (inner (shared m))) \<or>
     receivers (inner (shared m)) = 0)"
proof -
  obtain evs m where s: "sample_run 2 = Some (evs, m)" "ready m = []" "sleeping Space_Available m = 1"
    by (rule sample_full)
  with channel_senders_woken [OF _ sample_run_run [OF s(1)] s(2)] show ?thesis by simp
qed

text \<open>
  The other half fails: dropping the last receiver notifies \<open>data_available\<close>, where receivers
  sleep, and nobody notifies \<open>space_available\<close>.
\<close>

definition stranding_run :: "((nat, nat chan_op, nat chan_result) event list \<times>
    (nat, nat vec_deque) chan_monitor) option" where
  "stranding_run = chan_exec (vecdeque_storage exact_allocator) 1 False
     [Call 0 () (Send 7), Call 1 () (Send 8), Call 2 () Drop_Receiver]"

lemma stranding_run_result:
  "map_option (\<lambda>(evs, m). (asleep m, ready m, no_receivers m)) stranding_run =
   Some ([Waiter 1 Space_Available (Send 8) None], [], True)"
  by code_simp

text \<open>
  C5: a sender blocked in \<open>send\<close> when the last receiver is dropped is never woken: whatever the
  remaining threads do, as long as condition variables do not wake on their own, it stays asleep
  in every later state, and its \<open>send\<close> never returns the \<open>ChannelClosed\<close> error.
\<close>

theorem channel_sender_stranded:
  assumes "mon_run (chan_code (vecdeque_storage al)) chan_admits False m evs m'"
    and "no_receivers m" and "Waiter t Space_Available op None \<in> set (asleep m)"
  shows "no_receivers m' \<and> Waiter t Space_Available op None \<in> set (asleep m')"
  using stranded_run [OF assms] by simp

theorem channel_sender_stranded_witness:
  "\<exists>evs m. stranding_run = Some (evs, m) \<and> channel_run exact_allocator 1 False evs m \<and>
     ready m = [] \<and>
     (\<forall>evs' m'. mon_run (chan_code (vecdeque_storage exact_allocator)) chan_admits False m evs' m' \<longrightarrow>
        Waiter 1 Space_Available (Send 8) None \<in> set (asleep m'))"
proof -
  obtain evs m where m: "stranding_run = Some (evs, m)" "ready m = []" "no_receivers m"
    "asleep m = [Waiter 1 Space_Available (Send 8) None]"
    using stranding_run_result by (auto simp: map_option_eq_Some)
  have "channel_run exact_allocator 1 False evs m"
    by (rule channel_exec_run) (rule m(1) [unfolded stranding_run_def])
  moreover have "Waiter 1 Space_Available (Send 8) None \<in> set (asleep m')"
    if "mon_run (chan_code (vecdeque_storage exact_allocator)) chan_admits False m evs' m'" for evs' m'
    using channel_sender_stranded [OF that m(3), of 1 "Send 8"] m(4) by simp
  ultimately show ?thesis using m(1,2) by blast
qed

section \<open>Single operations\<close>

text \<open>
  A send that does not succeed (closed, or full and about to wait, or full and refused)
  stores nothing and wakes nobody; and a receive reports \<open>ChannelClosed\<close> only when the channel is
  drained and the last sender is gone.
\<close>

theorem channel_failures_harmless:
  assumes "allocator_ok al" and "vd_wf (queue (inner h))"
    and "chan_code (vecdeque_storage al) e op h = (h', sigs, out)"
  shows "(sends op = Some a \<and> out \<noteq> Return (R_Unit (Inr ())) \<longrightarrow>
      vd_elems (queue (inner h')) = vd_elems (queue (inner h)) \<and> sigs = []) \<and>
    (receives op \<and> out = Return (R_Value (Inl ChannelClosed)) \<longrightarrow>
      vd_elems (queue (inner h)) = [] \<and> senders (inner h) = 0)"
  using fifo_storage_contract.failures_harmless [OF vecdeque_is_fifo [OF assms(1)] assms(2,3)] by blast

theorem channel_failures_harmless_witness:
  "let h = \<lparr> inner = \<lparr> queue = \<lparr> vd_elems = [7], vd_head = 0, vd_cap = 1 \<rparr>, senders = 1, receivers = 1 \<rparr>,
         tx_live = 1, rx_live = 1 \<rparr>;
       (h', sigs, out) = chan_code (vecdeque_storage exact_allocator) () (Try_Send (8::nat)) h
   in out = Return (R_Unit (Inl ChannelFull)) \<and>
      vd_elems (queue (inner h')) = vd_elems (queue (inner h)) \<and> sigs = []"
proof -
  let ?h = "\<lparr> inner = \<lparr> queue = \<lparr> vd_elems = [7], vd_head = 0, vd_cap = 1 \<rparr>, senders = 1, receivers = 1 \<rparr>,
    tx_live = 1, rx_live = 1 \<rparr> :: nat vec_deque chan_shared"
  let ?r = "chan_code (vecdeque_storage exact_allocator) () (Try_Send (8::nat)) ?h"
  have "snd (snd ?r) = Return (R_Unit (Inl ChannelFull))"
    by (simp add: op_defs vecdeque_try_push_def)
  with channel_failures_harmless [of exact_allocator ?h "()" "Try_Send 8" "fst ?r" "fst (snd ?r)" "snd (snd ?r)" 8]
  show ?thesis by (auto simp: vd_wf_def Let_def split: prod.splits)
qed

end
