(* ===== verification/Policy_Channel.thy ===== *)
theory Policy_Channel
  imports Base_Channel
begin

text \<open>
  The policy channels of \<open>src/src/policy_channel.rs\<close>: the base channel over the policy deque,
  unordered (\<open>Bounded\<close>) or ordered by priority (\<open>Ordered\<close>). The answers of the value type's
  \<open>DataDeliveryPolicy\<close> are the environment of each stretch, so they may change between any two
  stretches: a value expires while it is stored or while its sender sleeps.
\<close>

definition policy_channel_bounded :: "allocator \<Rightarrow> usize \<Rightarrow> 'a deque chan_shared option" where
  "policy_channel_bounded al capacity = make_channel (deque_storage al) capacity False"

definition policy_channel_ordered :: "allocator \<Rightarrow> usize \<Rightarrow> 'a deque chan_shared option" where
  "policy_channel_ordered al capacity = make_channel (deque_storage al) capacity True"

definition policy_channel_new :: "allocator \<Rightarrow> usize \<Rightarrow> bool \<Rightarrow> 'a deque chan_shared option" where
  "policy_channel_new al capacity ordr =
     (if ordr then policy_channel_ordered al capacity else policy_channel_bounded al capacity)"

definition policy_run :: "allocator \<Rightarrow> usize \<Rightarrow> bool \<Rightarrow> bool \<Rightarrow>
    (nat, 'a chan_op, 'a chan_result) event list \<Rightarrow> ('a, 'a deque) chan_monitor \<Rightarrow> bool" where
  "policy_run al capacity ordr spurious evs m \<longleftrightarrow>
     (\<exists>h. policy_channel_new al capacity ordr = Some h \<and>
        mon_run (chan_code (deque_storage al)) chan_admits spurious (fresh_monitor h) evs m)"

definition policy_contents :: "('a, 'a deque) chan_monitor \<Rightarrow> 'a list" where
  "policy_contents m = dq_elems (queue (inner (shared m)))"

lemma policy_run_chan_run: "policy_run al n b = chan_run (deque_storage al) n b"
  by (simp add: fun_eq_iff policy_run_def chan_run_def policy_channel_new_def
      policy_channel_ordered_def policy_channel_bounded_def)

lemma policy_exec_run:
  "chan_exec (deque_storage al) n b cs = Some (evs, m) \<Longrightarrow> policy_run al n b spurious evs m"
  by (simp add: policy_run_chan_run chan_exec_run)

text \<open>
  Numbers as values: the priority of a value is its last digit, an odd value is optional, and the
  values listed in the environment are expired.
\<close>

definition digits :: "nat list \<Rightarrow> nat data_delivery" where
  "digits gone = (default_data_delivery (\<lambda>a. a))
     \<lparr> delivery_policy := (\<lambda>a. if odd a then Optional else Always),
       priority := (\<lambda>a. a mod 10), is_expired := (\<lambda>a. a \<in> set gone) \<rparr>"

definition policy_sample :: "((nat, nat chan_op, nat chan_result) event list \<times>
    (nat, nat deque) chan_monitor) option" where
  "policy_sample = chan_exec (deque_storage exact_allocator) 2 True
     [Call 0 (digits []) (Send 34), Call 0 (digits []) (Send 11), Call 1 (digits []) (Send 22),
      Call 2 (digits []) Recv, Call 2 (digits []) Recv, Call 2 (digits []) Recv]"

lemma policy_sample_result:
  "map_option (\<lambda>(evs, m). (sent evs, received evs, policy_contents m,
      sleeping Data_Available m, ready m)) policy_sample =
   Some ([34, 11, 22], [22, 34], [], 1, [])"
  by code_simp

lemma policy_sample:
  obtains evs m where "policy_sample = Some (evs, m)" and "policy_run exact_allocator 2 True sp evs m"
    and "sent evs = [34, 11, 22]" and "received evs = [22, 34]" and "policy_contents m = []"
    and "sleeping Data_Available m = 1" and "ready m = []"
proof -
  from policy_sample_result obtain evs m where m: "policy_sample = Some (evs, m)"
    "sent evs = [34, 11, 22]" "received evs = [22, 34]" "policy_contents m = []"
    "sleeping Data_Available m = 1" "ready m = []"
    by (auto simp: map_option_eq_Some)
  from m(1) have "policy_run exact_allocator 2 True sp evs m"
    unfolding policy_sample_def by (rule policy_exec_run)
  with m that show thesis by blast
qed

section \<open>Delivery\<close>

text \<open>
  C6: a policy channel may drop values (a single-copy value replaces those of its kind, a full
  channel displaces an optional or expired one, expired ones are not delivered), but it delivers
  each sent value at most once and never makes one up: the received and the stored values
  together are a sub-multiset of the sent ones.
\<close>

theorem policy_channel_at_most_once:
  assumes "allocator_ok al" and "policy_run al capacity ordr spurious evs m"
  shows "mset (received evs) + mset (policy_contents m) \<subseteq># mset (sent evs)"
  unfolding policy_contents_def
  by (rule storage_contract.chan_run_trace [OF deque_is_storage [OF assms(1)]
      assms(2) [unfolded policy_run_chan_run]])

theorem policy_channel_at_most_once_witness:
  "\<exists>evs m. policy_sample = Some (evs, m) \<and> sent evs = [34, 11, 22] \<and> received evs = [22, 34] \<and>
     mset (received evs) + mset (policy_contents m) \<subseteq># mset (sent evs)"
proof -
  obtain evs m where m: "policy_sample = Some (evs, m)" "policy_run exact_allocator 2 True False evs m"
    "sent evs = [34, 11, 22]" "received evs = [22, 34]"
    by (rule policy_sample)
  from policy_channel_at_most_once [OF _ m(2)] have
    "mset (received evs) + mset (policy_contents m) \<subseteq># mset (sent evs)" by simp
  with m(1,3,4) show ?thesis by blast
qed

text \<open>
  No run of a policy channel panics, the handle counters are exact, and the channel never
  holds more values than its capacity, whatever room the allocator gave its buffer.
\<close>

theorem policy_channel_safe:
  fixes m :: "('a, 'a deque) chan_monitor"
  assumes "allocator_ok al" and "policy_run al capacity ordr spurious evs m"
  shows "\<not> list_ex is_Panicked evs \<and>
    senders (inner (shared m)) = tx_live (shared m) \<and>
    receivers (inner (shared m)) = rx_live (shared m) \<and>
    length (policy_contents m) \<le> capacity"
proof -
  note run = assms(2) [unfolded policy_run_chan_run]
  note st = deque_is_storage [OF assms(1)]
  obtain q where q: "cs_with_capacity_and_ordering (deque_storage al) capacity ordr =
      Some (q :: 'a deque)"
    and cap: "dq_capacity (queue (inner (shared m))) = dq_capacity q"
    by (rule storage_contract.chan_run_cap [OF st run])
  from q have "dq_capacity q = capacity" by (auto simp: set_ordering_def bounded_def)
  with cap storage_contract.chan_run_length [OF st run]
  have "length (policy_contents m) \<le> capacity" by (simp add: policy_contents_def)
  with storage_contract.chan_run_inv [OF st run] storage_contract.chan_run_no_panic [OF st run]
  show ?thesis unfolding chan_inv_def by blast
qed

theorem policy_channel_safe_witness:
  "\<exists>evs m. policy_sample = Some (evs, m) \<and> \<not> list_ex is_Panicked evs \<and>
     senders (inner (shared m)) = tx_live (shared m) \<and> length (policy_contents m) \<le> 2"
proof -
  obtain evs m where m: "policy_sample = Some (evs, m)" "policy_run exact_allocator 2 True False evs m"
    by (rule policy_sample)
  from policy_channel_safe [OF _ m(2)] m(1) show ?thesis by (intro exI [of _ evs] exI [of _ m]) simp
qed

section \<open>Blocked threads\<close>

text \<open>
  C7: no receiver of a policy channel misses its wake-up: when no woken thread is on its way and
  a receiver sleeps, the channel is empty and a sender is alive.
\<close>

theorem policy_receivers_woken:
  assumes "allocator_ok al" and "policy_run al capacity ordr spurious evs m"
    and "ready m = []" and "sleeping Data_Available m > 0"
  shows "policy_contents m = [] \<and> senders (inner (shared m)) > 0"
proof -
  note run = assms(2) [unfolded policy_run_chan_run]
  note st = deque_is_storage [OF assms(1)]
  from storage_contract.chan_run_data [OF st run assms(3,4)]
    storage_contract.chan_run_closed [OF st run] assms(4)
  show ?thesis by (auto simp: policy_contents_def stored_def)
qed

theorem policy_receivers_woken_witness:
  "\<exists>evs m. policy_sample = Some (evs, m) \<and> sleeping Data_Available m > 0 \<and>
     policy_contents m = [] \<and> senders (inner (shared m)) > 0"
proof -
  obtain evs m where m: "policy_sample = Some (evs, m)" "policy_run exact_allocator 2 True False evs m"
    "sleeping Data_Available m = 1" "ready m = []"
    by (rule policy_sample)
  from policy_receivers_woken [OF _ m(2,4)] m(1,3) show ?thesis by (intro exI [of _ evs] exI [of _ m]) simp
qed

text \<open>
  The same does not hold for senders: a receive that finds only expired values drops them all and
  goes to sleep without notifying anybody that there is room now.
\<close>

definition expired_schedule :: "(nat, nat data_delivery, nat chan_op) choice list" where
  "expired_schedule =
     [Call 0 (digits []) (Send 12), Call 1 (digits []) (Send 24), Call 2 (digits [12]) Recv]"

definition expired_run :: "((nat, nat chan_op, nat chan_result) event list \<times>
    (nat, nat deque) chan_monitor) option" where
  "expired_run = chan_exec (deque_storage exact_allocator) 1 False expired_schedule"

lemma expired_run_result:
  "map_option (\<lambda>(evs, m). (asleep m, ready m, policy_contents m,
      senders (inner (shared m)), receivers (inner (shared m)))) expired_run =
   Some ([Waiter 1 Space_Available (Send 24) None, Waiter 2 Data_Available Recv None], [], [], 1, 1)"
  by code_simp

text \<open>
  C8: a policy channel can deadlock: a sender waits for room, the stored value expires, and a
  receive drops it and waits for data. Now the channel is empty and has room, both sides are
  alive, the sender sleeps until there is room and the receiver until there is data, and no
  woken thread is left to notify either of them.
\<close>

theorem policy_channel_deadlock:
  "\<exists>evs (m :: (nat, nat deque) chan_monitor) v.
     policy_run exact_allocator 1 False False evs m \<and> ready m = [] \<and>
     asleep m = [Waiter 1 Space_Available (Send v) None, Waiter 2 Data_Available Recv None] \<and>
     policy_contents m = [] \<and> senders (inner (shared m)) > 0 \<and> receivers (inner (shared m)) > 0"
proof -
  obtain evs m where m: "expired_run = Some (evs, m)" "ready m = []"
    "asleep m = [Waiter 1 Space_Available (Send 24) None, Waiter 2 Data_Available Recv None]"
    "policy_contents m = []" "senders (inner (shared m)) = 1" "receivers (inner (shared m)) = 1"
    using expired_run_result by (auto simp: map_option_eq_Some)
  have "policy_run exact_allocator 1 False False evs m"
    using m(1) unfolding expired_run_def by (rule policy_exec_run)
  with m show ?thesis by fastforce
qed

end
