(* ===== verification/Data_Buffer.thy ===== *)
theory Data_Buffer
  imports Vec_Deque
begin

text \<open>
  The data buffer of \<open>src/src/buf.rs\<close>, a capacity-limited \<open>VecDeque\<close> behind a mutex. No operation
  waits, so each is one critical section: a function on the state. The loop of \<open>force_push\<close> that
  makes room would not end for a capacity of zero, so it is a partial function; that it ends for
  every buffer the constructors make is part of the theorems.
\<close>

record 'a data_buffer =
  db_data :: "'a vec_deque"
  db_capacity :: usize
  db_preallocated :: bool

abbreviation db_elems :: "'a data_buffer \<Rightarrow> 'a list" where
  "db_elems b \<equiv> vd_elems (db_data b)"

section \<open>Operations\<close>

definition db_bounded :: "usize \<Rightarrow> 'a data_buffer option" where
  "db_bounded capacity =
     (if capacity = 0 then None
      else Some \<lparr> db_data = vd_new, db_capacity = capacity, db_preallocated = False \<rparr>)"

definition db_bounded_prealloc :: "allocator \<Rightarrow> usize \<Rightarrow> 'a data_buffer option" where
  "db_bounded_prealloc al capacity =
     (if capacity = 0 then None
      else Some \<lparr> db_data = vd_with_capacity al capacity, db_capacity = capacity,
                  db_preallocated = True \<rparr>)"

definition db_try_push :: "allocator \<Rightarrow> 'a data_buffer \<Rightarrow> 'a \<Rightarrow> 'a data_buffer \<times> 'a option" where
  [op_defs]: "db_try_push al b value =
     (if db_capacity b \<le> vd_len (db_data b) then (b, Some value)
      else (b\<lparr> db_data := vd_push_back al (db_data b) value \<rparr>, None))"

partial_function (option) make_space :: "usize \<Rightarrow> 'a vec_deque \<Rightarrow> bool \<Rightarrow> ('a vec_deque \<times> bool) option" where
  "make_space capacity v res =
     (if capacity \<le> vd_len v then make_space capacity (fst (vd_pop_front v)) False
      else Some (v, res))"

definition db_force_push :: "allocator \<Rightarrow> 'a data_buffer \<Rightarrow> 'a \<Rightarrow> ('a data_buffer \<times> bool) option" where
  "db_force_push al b value =
     map_option (\<lambda>(v, res). (b\<lparr> db_data := vd_push_back al v value \<rparr>, res))
       (make_space (db_capacity b) (db_data b) True)"

definition db_len :: "'a data_buffer \<Rightarrow> usize" where
  [op_defs]: "db_len b = vd_len (db_data b)"

definition db_is_empty :: "'a data_buffer \<Rightarrow> bool" where
  [op_defs]: "db_is_empty b \<longleftrightarrow> db_elems b = []"

definition db_take :: "allocator \<Rightarrow> 'a data_buffer \<Rightarrow> 'a data_buffer \<times> 'a vec_deque" where
  [op_defs]: "db_take al b =
     (b\<lparr> db_data := (if db_preallocated b then vd_with_capacity al (db_capacity b) else vd_new) \<rparr>,
      db_data b)"

section \<open>Invariant\<close>

definition db_wf :: "'a data_buffer \<Rightarrow> bool" where
  [inv_defs]: "db_wf b \<longleftrightarrow> vd_wf (db_data b) \<and> 0 < db_capacity b \<and>
     length (db_elems b) \<le> db_capacity b"

lemma db_new_wf:
  "db_bounded n = Some b \<Longrightarrow> db_wf b \<and> db_elems b = [] \<and> db_capacity b = n"
  "db_bounded_prealloc al n = Some b \<Longrightarrow> db_wf b \<and> db_elems b = [] \<and> db_capacity b = n"
  by (auto simp: db_bounded_def db_bounded_prealloc_def inv_defs vd_new_def vd_with_capacity_def
      split: if_splits)

lemma vd_pop_front_drop: "vd_elems (fst (vd_pop_front v)) = drop 1 (vd_elems v)"
  by (simp add: vd_pop_front_def split: list.split)

text \<open>The loop ends, after dropping what is over the capacity and one more.\<close>

lemma make_space_result:
  assumes "0 < capacity"
  shows "\<exists>v'. make_space capacity v res = Some (v', res \<and> length (vd_elems v) < capacity) \<and>
    vd_elems v' = drop (Suc (length (vd_elems v)) - capacity) (vd_elems v) \<and>
    (vd_wf v \<longrightarrow> vd_wf v')"
proof (induction "length (vd_elems v)" arbitrary: v res)
  case 0
  with assms show ?case by (subst make_space.simps) (simp add: vd_len_def)
next
  case (Suc n)
  let ?v = "fst (vd_pop_front v)"
  have n: "n = length (vd_elems ?v)" using Suc(2) by (simp add: vd_pop_front_drop)
  show ?case
  proof (cases "capacity \<le> Suc n")
    case True
    then have "make_space capacity v res = make_space capacity ?v False"
      using Suc(2) by (subst make_space.simps) (simp add: vd_len_def)
    moreover have "drop (Suc n - capacity) (vd_elems ?v) = drop (Suc (Suc n) - capacity) (vd_elems v)"
      using True by (simp add: vd_pop_front_drop Suc_diff_le)
    ultimately show ?thesis using Suc(1) [OF n, of False] Suc(2) True n vd_pop_front_wf [of v] by auto
  next
    case False
    with Suc(2) show ?thesis by (subst make_space.simps) (auto simp: vd_len_def)
  qed
qed

section \<open>The abstract buffer\<close>

text \<open>
  What the buffer promises, on a list: at most \<open>n\<close> values; \<open>try_push\<close> gives the value back when
  full; \<open>force_push\<close> drops the oldest value instead; \<open>take\<close> empties it.
\<close>

datatype 'a buffer_op = Try_Push 'a | Force_Push 'a | Len | Is_Empty | Take

datatype 'a buf_result =
  R_Pushed "'a option" | R_Forced bool | R_Len usize | R_Is_Empty bool | R_Taken "'a list"

fun ring_op :: "usize \<Rightarrow> 'a buffer_op \<Rightarrow> 'a list \<Rightarrow> 'a list \<times> 'a buf_result" where
  "ring_op n (Try_Push a) xs = (if length xs < n then (xs @ [a], R_Pushed None) else (xs, R_Pushed (Some a)))"
| "ring_op n (Force_Push a) xs =
     (if length xs < n then (xs @ [a], R_Forced True) else (tl xs @ [a], R_Forced False))"
| "ring_op n Len xs = (xs, R_Len (length xs))"
| "ring_op n Is_Empty xs = (xs, R_Is_Empty (xs = []))"
| "ring_op n Take xs = ([], R_Taken xs)"

fun buf_op :: "allocator \<Rightarrow> 'a buffer_op \<Rightarrow> 'a data_buffer \<Rightarrow> ('a data_buffer \<times> 'a buf_result) option" where
  "buf_op al (Try_Push a) b = (let (b', r) = db_try_push al b a in Some (b', R_Pushed r))"
| "buf_op al (Force_Push a) b = map_option (\<lambda>(b', r). (b', R_Forced r)) (db_force_push al b a)"
| "buf_op al Len b = Some (b, R_Len (db_len b))"
| "buf_op al Is_Empty b = Some (b, R_Is_Empty (db_is_empty b))"
| "buf_op al Take b = (let (b', v) = db_take al b in Some (b', R_Taken (vd_elems v)))"

fun buf_ops :: "allocator \<Rightarrow> 'a buffer_op list \<Rightarrow> 'a data_buffer \<Rightarrow>
    ('a data_buffer \<times> 'a buf_result list) option" where
  "buf_ops al [] b = Some (b, [])"
| "buf_ops al (op # ops) b =
     Option.bind (buf_op al op b) (\<lambda>(b1, r).
       map_option (\<lambda>(b', rs). (b', r # rs)) (buf_ops al ops b1))"

fun ring_ops :: "usize \<Rightarrow> 'a buffer_op list \<Rightarrow> 'a list \<Rightarrow> 'a list \<times> 'a buf_result list" where
  "ring_ops n [] xs = (xs, [])"
| "ring_ops n (op # ops) xs =
     (let (ys, r) = ring_op n op xs; (zs, rs) = ring_ops n ops ys in (zs, r # rs))"

lemma db_force_push_result:
  assumes "allocator_ok al" and "db_wf b"
  shows "\<exists>b'. db_force_push al b a = Some (b', length (db_elems b) < db_capacity b) \<and> db_wf b' \<and>
    db_capacity b' = db_capacity b \<and>
    db_elems b' = (if length (db_elems b) < db_capacity b then db_elems b else tl (db_elems b)) @ [a]"
proof -
  from assms(2) have b: "0 < db_capacity b" "vd_wf (db_data b)" "length (db_elems b) \<le> db_capacity b"
    by (simp_all add: db_wf_def)
  from make_space_result [OF b(1), of "db_data b" True] b(2)
  obtain v where v: "make_space (db_capacity b) (db_data b) True =
      Some (v, length (db_elems b) < db_capacity b)" "vd_wf v"
    "vd_elems v = drop (Suc (length (db_elems b)) - db_capacity b) (db_elems b)"
    by auto
  moreover have "drop (Suc (length (db_elems b)) - db_capacity b) (db_elems b) =
      (if length (db_elems b) < db_capacity b then db_elems b else tl (db_elems b))"
    using b(3) by (auto simp: drop_Suc [of 0] dest: antisym)
  moreover have "vd_wf (vd_push_back al v a)" using vd_push_back_wf [OF assms(1) v(2)] .
  ultimately show ?thesis using b(1,3) by (auto simp: db_force_push_def db_wf_def)
qed

lemma buf_op_refines:
  assumes "allocator_ok al" and "db_wf b"
  shows "\<exists>b' r. buf_op al op b = Some (b', r) \<and> db_wf b' \<and> db_capacity b' = db_capacity b \<and>
    ring_op (db_capacity b) op (db_elems b) = (db_elems b', r)"
proof (cases op)
  case (Try_Push a)
  with assms vd_push_back_wf [of al "db_data b" a] show ?thesis
    by (auto simp: op_defs db_wf_def)
next
  case (Force_Push a)
  with db_force_push_result [OF assms, of a] show ?thesis by auto
next
  case Take
  with assms(2) show ?thesis by (auto simp: op_defs db_wf_def vd_new_def vd_with_capacity_def vd_wf_def)
qed (use assms in \<open>auto simp: op_defs\<close>)

section \<open>Properties\<close>

text \<open>
  C14: the data buffer implements the abstract one: from any well-formed buffer every sequence of
  operations returns (the loop of \<open>force_push\<close> included), gives the results the abstract buffer
  gives, and leaves its contents, within the capacity.
\<close>

theorem data_buffer_refines:
  assumes "allocator_ok al" and "db_wf b"
  shows "\<exists>b' rs. buf_ops al ops b = Some (b', rs) \<and> db_wf b' \<and>
    ring_ops (db_capacity b) ops (db_elems b) = (db_elems b', rs) \<and>
    length (db_elems b') \<le> db_capacity b"
proof -
  have "\<exists>b' rs. buf_ops al ops b = Some (b', rs) \<and> db_wf b' \<and> db_capacity b' = db_capacity b \<and>
    ring_ops (db_capacity b) ops (db_elems b) = (db_elems b', rs)"
    using assms(2)
  proof (induction ops arbitrary: b)
    case (Cons op ops)
    from buf_op_refines [OF assms(1) Cons.prems, of op] obtain b1 r where b1: "buf_op al op b = Some (b1, r)"
      "db_wf b1" "db_capacity b1 = db_capacity b" "ring_op (db_capacity b) op (db_elems b) = (db_elems b1, r)"
      by blast
    from Cons.IH [OF b1(2)] b1 show ?case by auto
  qed simp
  then show ?thesis by (auto simp: db_wf_def)
qed

theorem data_buffer_refines_witness:
  "\<exists>b b' rs. db_bounded 2 = Some b \<and>
     buf_ops exact_allocator [Try_Push (1::nat), Try_Push 2, Try_Push 3, Force_Push 4, Take] b = Some (b', rs) \<and>
     rs = [R_Pushed None, R_Pushed None, R_Pushed (Some 3), R_Forced False, R_Taken [2, 4]]"
proof -
  obtain b :: "nat data_buffer" where b: "db_bounded 2 = Some b" by (simp add: db_bounded_def)
  from data_buffer_refines [OF exact_allocator_ok, of b
      "[Try_Push 1, Try_Push 2, Try_Push 3, Force_Push 4, Take]"] db_new_wf(1) [OF b] b
  show ?thesis by auto
qed

end
