(* ===== verification/Semaphore.thy ===== *)
theory Semaphore
  imports Monitor
begin

text \<open>
  The semaphore of \<open>src/src/semaphore.rs\<close>: a counter of used permissions behind a mutex, a
  capacity, and a condition variable for \<open>acquire\<close>. The state also counts the live guards, which
  are not in the code: a thread may drop a guard only while there is one.
\<close>

record semaphore =
  permissions :: usize
  sem_capacity :: usize
  guards :: nat

definition semaphore_new :: "usize \<Rightarrow> semaphore" where
  "semaphore_new c = \<lparr> permissions = 0, sem_capacity = c, guards = 0 \<rparr>"

datatype sem_op = Acquire | Try_Acquire | Release | Capacity | Available | Used

datatype sem_result = R_Guard | R_No_Guard | R_Released | R_Count usize

type_synonym sem_stretch = "semaphore \<times> unit signal list \<times> (sem_op, unit, sem_result) outcome"

definition take_permission :: "semaphore \<Rightarrow> semaphore" where
  [op_defs]: "take_permission s =
     s\<lparr> permissions := permissions s + 1, guards := guards s + 1 \<rparr>"

definition try_acquire :: "semaphore \<Rightarrow> sem_stretch" where
  [op_defs]: "try_acquire s =
     (if permissions s = sem_capacity s then (s, [], Return R_No_Guard)
      else (take_permission s, [], Return R_Guard))"

definition acquire :: "semaphore \<Rightarrow> sem_stretch" where
  [op_defs]: "acquire s =
     (if permissions s = sem_capacity s then (s, [], Wait () Acquire None)
      else (take_permission s, [], Return R_Guard))"

text \<open>Dropping a guard; the counter would underflow at zero.\<close>

definition release :: "semaphore \<Rightarrow> sem_stretch" where
  [op_defs]: "release s =
     (if permissions s = 0 then (s, [], Panic)
      else (s\<lparr> permissions := permissions s - 1, guards := guards s - 1 \<rparr>, [Notify_One ()],
            Return R_Released))"

definition available :: "semaphore \<Rightarrow> sem_stretch" where
  [op_defs]: "available s =
     (if sem_capacity s < permissions s then (s, [], Panic)
      else (s, [], Return (R_Count (sem_capacity s - permissions s))))"

fun sem_code :: "(unit, semaphore, sem_op, unit, sem_result) code" where
  "sem_code _ Acquire s = acquire s"
| "sem_code _ Try_Acquire s = try_acquire s"
| "sem_code _ Release s = release s"
| "sem_code _ Capacity s = (s, [], Return (R_Count (sem_capacity s)))"
| "sem_code _ Available s = available s"
| "sem_code _ Used s = (s, [], Return (R_Count (permissions s)))"

type_synonym sem_monitor = "(nat, semaphore, sem_op, unit, sem_result) monitor"

fun sem_admits :: "sem_monitor \<Rightarrow> sem_op \<Rightarrow> bool" where
  "sem_admits m Release \<longleftrightarrow> guards (shared m) > 0"
| "sem_admits m _ \<longleftrightarrow> True"

fun sem_waits_on :: "sem_op \<Rightarrow> unit option" where
  "sem_waits_on Acquire = Some ()"
| "sem_waits_on _ = None"

definition sem_run :: "usize \<Rightarrow> bool \<Rightarrow> (nat, sem_op, sem_result) event list \<Rightarrow> sem_monitor \<Rightarrow> bool" where
  "sem_run c = (\<lambda>spurious. mon_run sem_code sem_admits spurious (fresh_monitor (semaphore_new c)))"

section \<open>Invariant and contract\<close>

definition sem_inv :: "usize \<Rightarrow> semaphore \<Rightarrow> bool" where
  [inv_defs]: "sem_inv c s \<longleftrightarrow> sem_capacity s = c \<and> permissions s = guards s \<and> guards s \<le> c"

definition free_permissions :: "semaphore \<Rightarrow> nat" where
  "free_permissions s = sem_capacity s - permissions s"

lemma semaphore_new_inv [simp]: "sem_inv c (semaphore_new c)"
  by (simp add: sem_inv_def semaphore_new_def)

lemma sem_stretch_inv:
  assumes "sem_inv c s" and "sem_code u op s = (s', sigs, out)" and "op = Release \<Longrightarrow> guards s > 0"
  shows "sem_inv c s' \<and> out \<noteq> Panic"
  using assms by (cases op) (auto simp: op_defs inv_defs split: if_splits)

interpretation sem: no_lost_wakeup sem_code sem_admits sem_waits_on "sem_inv c" "()" free_permissions
  for c
proof (unfold_locales, goal_cases)
  case (1 h e op h' sigs cv op' tr)
  then show ?case by (cases op) (auto simp: op_defs split: if_splits)
next
  case (2 m op e h' sigs out)
  then have "op = Release \<Longrightarrow> guards (shared m) > 0" by (cases op) simp_all
  with sem_stretch_inv [OF 2(1,3)] show ?case by blast
next
  case (3 h op e h' sigs out)
  then have "op \<noteq> Release" by (cases op) simp_all
  with sem_stretch_inv [OF 3(1,3)] show ?case by blast
next
  case (4 h e op h' sigs op' tr)
  then show ?case by (cases op) (auto simp: op_defs free_permissions_def split: if_splits)
next
  case (5 m op e h' sigs out)
  then show ?case by (cases op) (auto simp: op_defs inv_defs free_permissions_def split: if_splits)
qed

section \<open>Traces\<close>

definition acquired :: "(nat, sem_op, sem_result) event list \<Rightarrow> nat" where
  "acquired evs = length (filter (\<lambda>ev. \<exists>t op. ev = Finished t op R_Guard) evs)"

definition released :: "(nat, sem_op, sem_result) event list \<Rightarrow> nat" where
  "released evs = length (filter (\<lambda>ev. \<exists>t op. ev = Finished t op R_Released) evs)"

lemma sem_stretch_trace:
  assumes "sem_inv c s" and "sem_code u op s = (s', sigs, out)" and "out \<noteq> Panic"
  shows "guards s' + released [outcome_event t op out] = guards s + acquired [outcome_event t op out]"
  using assms
  by (cases op) (auto simp: op_defs inv_defs acquired_def released_def split: if_splits)

lemma sem_run_trace:
  assumes "sem_run c spurious evs m"
  shows "acquired evs = released evs + guards (shared m)"
  using assms unfolding sem_run_def
proof (induction rule: mon_run.induct)
  case run_start
  then show ?case by (simp add: acquired_def released_def semaphore_new_def)
next
  case (run_step evs m ev m')
  have m: "sem_inv c (shared m)"
    using sem.run_inv [OF run_step.hyps(1)] by simp
  have good: "sem.good c m" using sem.run_good [OF run_step.hyps(1)] by simp
  have "guards (shared m') + released [ev] = guards (shared m) + acquired [ev]"
    using run_step.hyps(2)
  proof (cases rule: mon_step_shared)
    case (stretch e op t sigs out)
    have "out \<noteq> Panic" using sem.step_no_panic [OF run_step.hyps(2) good] stretch(2) by auto
    with sem_stretch_trace [OF m stretch(1)] stretch(2) show ?thesis by simp
  next
    case (idle t op)
    then show ?thesis by (auto simp: acquired_def released_def)
  qed
  with run_step.IH show ?case by (simp add: acquired_def released_def split: if_splits)
qed

section \<open>Properties\<close>

text \<open>A run of three threads over two permissions: the third blocks until a guard is dropped.\<close>

definition sem_sample :: "nat \<Rightarrow> ((nat, sem_op, sem_result) event list \<times> sem_monitor) option" where
  "sem_sample k = exec sem_code sem_admits (fresh_monitor (semaphore_new 2))
     (take k [Call 0 () Acquire, Call 1 () Acquire, Call 2 () Acquire, Call 3 () Try_Acquire,
        Call 0 () Release, Resume 0 ()])"

lemma sem_sample_result:
  "map_option (\<lambda>(evs, m). (sleeping () m, ready m, guards (shared m))) (sem_sample 4) =
     Some (1, [], 2)"
  "map_option (\<lambda>(evs, m). (sleeping () m, ready m, guards (shared m))) (sem_sample 6) =
     Some (0, [], 2)"
  by code_simp+

lemma sem_sample_run: "sem_sample k = Some (evs, m) \<Longrightarrow> sem_run 2 spurious evs m"
  unfolding sem_sample_def sem_run_def by (rule exec_run)

text \<open>
  C12: never more guards are alive than the capacity, the counter is exactly their number (so
  \<open>used\<close> and \<open>available\<close> are right and no operation panics), and it is the number of acquisitions
  less the number of releases.
\<close>

theorem semaphore_bounded:
  assumes "sem_run c spurious evs m"
  shows "guards (shared m) \<le> c \<and> permissions (shared m) = guards (shared m) \<and>
    acquired evs = released evs + guards (shared m) \<and> \<not> list_ex is_Panicked evs"
  using sem.run_inv [OF assms [unfolded sem_run_def] semaphore_new_inv] sem_run_trace [OF assms]
    sem.run_no_panic [OF assms [unfolded sem_run_def], of c]
  by (simp add: sem_inv_def [of c "shared m"])

theorem semaphore_bounded_witness:
  "\<exists>evs m. sem_sample 6 = Some (evs, m) \<and> guards (shared m) \<le> 2 \<and>
     acquired evs = released evs + guards (shared m)"
proof -
  obtain evs m where m: "sem_sample 6 = Some (evs, m)" using sem_sample_result(2) by auto
  from semaphore_bounded [OF sem_sample_run [OF m]] m show ?thesis by blast
qed

text \<open>
  C13: no waiter is forgotten: when no woken thread is on its way and a thread sleeps in
  \<open>acquire\<close>, all permissions are in use.
\<close>

theorem semaphore_waiters_woken:
  assumes "sem_run c spurious evs m" and "ready m = []" and "sleeping () m > 0"
  shows "guards (shared m) = c"
proof -
  note run = assms(1) [unfolded sem_run_def]
  from sem.quiescent_sleepers [OF run semaphore_new_inv assms(2,3)]
    sem.run_inv [OF run semaphore_new_inv]
  show ?thesis by (simp add: free_permissions_def sem_inv_def)
qed

theorem semaphore_waiters_woken_witness:
  "\<exists>evs m. sem_sample 4 = Some (evs, m) \<and> sleeping () m > 0 \<and> guards (shared m) = 2"
proof -
  obtain evs m where m: "sem_sample 4 = Some (evs, m)" "ready m = []" "sleeping () m > 0"
    using sem_sample_result(1) by auto
  from semaphore_waiters_woken [OF sem_sample_run [OF m(1)] m(2,3)] m show ?thesis by blast
qed

end
