(* ===== verification/Data_Cell.thy ===== *)
theory Data_Cell
  imports Monitor "HOL-Library.Sublist"
begin

text \<open>
  The data cell of \<open>src/src/cell/datacell.rs\<close>: one optional value and a closed flag behind a
  mutex, and a condition variable for the getters. A getter checks the flag on entry only; when it
  is woken it runs on inside its loop, so entry and loop are two program points.
\<close>

record 'p cell_value =
  current :: "'p option"
  closed :: bool

definition cell_default :: "'p cell_value" where
  "cell_default = \<lparr> current = None, closed = False \<rparr>"

datatype 'p cell_op =
    Close | Is_Closed | Set 'p | Replace 'p | Get | Get_Timeout | Try_Get
  | Get_Loop | Get_Timeout_Loop

datatype ('p, 'v) cell_result =
    R_Done | R_Bool bool | R_Previous "'p option" | R_Value "'v result"

type_synonym 'p cell_stretch =
  "'p cell_value \<times> unit signal list \<times> ('p cell_op, unit, ('p, 'p) cell_result) outcome"

section \<open>Operations\<close>

definition cell_close :: "'p cell_value \<Rightarrow> 'p cell_stretch" where
  [op_defs]: "cell_close c = (c\<lparr> closed := True \<rparr>, [Notify_All ()], Return R_Done)"

definition cell_set :: "'p \<Rightarrow> 'p cell_value \<Rightarrow> 'p cell_stretch" where
  [op_defs]: "cell_set d c = (c\<lparr> current := Some d \<rparr>, [Notify_One ()], Return R_Done)"

definition cell_replace :: "'p \<Rightarrow> 'p cell_value \<Rightarrow> 'p cell_stretch" where
  [op_defs]: "cell_replace d c =
     (c\<lparr> current := Some d \<rparr>, [Notify_One ()], Return (R_Previous (current c)))"

definition cell_get_loop :: "'p cell_value \<Rightarrow> 'p cell_stretch" where
  [op_defs]: "cell_get_loop c =
     (case current c of
        Some x \<Rightarrow> (c\<lparr> current := None \<rparr>, [], Return (R_Value (Inr x)))
      | None \<Rightarrow> (c, [], Wait () Get_Loop None))"

definition cell_get :: "'p cell_value \<Rightarrow> 'p cell_stretch" where
  [op_defs]: "cell_get c =
     (if closed c then (c, [], Return (R_Value (Inl ChannelClosed))) else cell_get_loop c)"

definition cell_get_timeout_loop :: "'p cell_value \<Rightarrow> 'p cell_stretch" where
  [op_defs]: "cell_get_timeout_loop c =
     (case current c of
        Some x \<Rightarrow> (c\<lparr> current := None \<rparr>, [], Return (R_Value (Inr x)))
      | None \<Rightarrow> (c, [], Wait () Get_Timeout_Loop (Some (R_Value (Inl Timeout)))))"

definition cell_get_timeout :: "'p cell_value \<Rightarrow> 'p cell_stretch" where
  [op_defs]: "cell_get_timeout c =
     (if closed c then (c, [], Return (R_Value (Inl ChannelClosed))) else cell_get_timeout_loop c)"

definition cell_try_get :: "'p cell_value \<Rightarrow> 'p cell_stretch" where
  [op_defs]: "cell_try_get c =
     (if closed c then (c, [], Return (R_Value (Inl ChannelClosed)))
      else (case current c of
          Some x \<Rightarrow> (c\<lparr> current := None \<rparr>, [], Return (R_Value (Inr x)))
        | None \<Rightarrow> (c, [], Return (R_Value (Inl ChannelEmpty)))))"

fun cell_code :: "(unit, 'p cell_value, 'p cell_op, unit, ('p, 'p) cell_result) code" where
  "cell_code _ Close c = cell_close c"
| "cell_code _ Is_Closed c = (c, [], Return (R_Bool (closed c)))"
| "cell_code _ (Set d) c = cell_set d c"
| "cell_code _ (Replace d) c = cell_replace d c"
| "cell_code _ Get c = cell_get c"
| "cell_code _ Get_Timeout c = cell_get_timeout c"
| "cell_code _ Try_Get c = cell_try_get c"
| "cell_code _ Get_Loop c = cell_get_loop c"
| "cell_code _ Get_Timeout_Loop c = cell_get_timeout_loop c"

text \<open>The iterator gets and drops the error.\<close>

fun cell_next :: "('p, 'v) cell_result \<Rightarrow> 'v option" where
  "cell_next (R_Value r) = result_ok r"
| "cell_next _ = None"

fun cell_waits_on :: "'p cell_op \<Rightarrow> unit option" where
  "cell_waits_on Get_Loop = Some ()"
| "cell_waits_on Get_Timeout_Loop = Some ()"
| "cell_waits_on _ = None"

type_synonym 'p cell_monitor = "(nat, 'p cell_value, 'p cell_op, unit, ('p, 'p) cell_result) monitor"

text \<open>Clients may call everything but the inner program points, at any time.\<close>

definition cell_admits :: "'p cell_monitor \<Rightarrow> 'p cell_op \<Rightarrow> bool" where
  "cell_admits m op \<longleftrightarrow> cell_waits_on op = None"

definition cell_run :: "bool \<Rightarrow> (nat, 'p cell_op, ('p, 'p) cell_result) event list \<Rightarrow>
    'p cell_monitor \<Rightarrow> bool" where
  "cell_run spurious = mon_run cell_code cell_admits spurious (fresh_monitor cell_default)"

section \<open>Contract\<close>

definition cell_avail :: "'p cell_value \<Rightarrow> nat" where
  "cell_avail c = (case current c of None \<Rightarrow> 0 | Some x \<Rightarrow> 1)"

interpretation cell: no_lost_wakeup cell_code cell_admits cell_waits_on "\<lambda>_. True" "()" cell_avail
proof (unfold_locales, goal_cases)
  case (1 h e op h' sigs cv op' tr)
  then show ?case by (cases op) (auto simp: op_defs split: if_splits option.splits)
next
  case (2 m op e h' sigs out)
  then show ?case by (cases op) (auto simp: op_defs split: if_splits option.splits)
next
  case (3 h op e h' sigs out)
  then show ?case by (cases op) (auto simp: op_defs split: if_splits option.splits)
next
  case (4 h e op h' sigs op' tr)
  then show ?case by (cases op) (auto simp: op_defs cell_avail_def split: if_splits option.splits)
next
  case (5 m op e h' sigs out)
  then show ?case by (cases op) (auto simp: op_defs cell_avail_def split: if_splits option.splits)
qed

section \<open>Traces\<close>

fun cell_set_of :: "(nat, 'p cell_op, ('p, 'v) cell_result) event \<Rightarrow> 'p list" where
  "cell_set_of (Finished t (Set d) r) = [d]"
| "cell_set_of (Finished t (Replace d) r) = [d]"
| "cell_set_of _ = []"

fun cell_got_of :: "(nat, 'o, ('p, 'v) cell_result) event \<Rightarrow> 'v list" where
  "cell_got_of (Finished t op (R_Value (Inr x))) = [x]"
| "cell_got_of _ = []"

definition cell_sets :: "(nat, 'p cell_op, ('p, 'v) cell_result) event list \<Rightarrow> 'p list" where
  "cell_sets evs = concat (map cell_set_of evs)"

definition cell_gots :: "(nat, 'o, ('p, 'v) cell_result) event list \<Rightarrow> 'v list" where
  "cell_gots evs = concat (map cell_got_of evs)"

lemma cell_trace_simps [simp]:
  "cell_sets [] = []" "cell_sets (evs @ [ev]) = cell_sets evs @ cell_set_of ev"
  "cell_gots [] = []" "cell_gots (fs @ [fv]) = cell_gots fs @ cell_got_of fv"
  by (simp_all add: cell_sets_def cell_gots_def)

abbreviation opt_list :: "'x option \<Rightarrow> 'x list" where
  "opt_list x \<equiv> (case x of None \<Rightarrow> [] | Some y \<Rightarrow> [y])"

text \<open>
  A slot that is overwritten or emptied: what was taken out of it, followed by what is in it, is
  a subsequence of what was put in.
\<close>

lemma slot_drop: "subseq (gs @ xs) ss \<Longrightarrow> subseq gs ss"
  by (rule subseq_order.order_trans [OF prefix_imp_subseq]) (auto intro: prefixI)

lemma slot_put: "subseq (gs @ xs) ss \<Longrightarrow> subseq (gs @ [d]) (ss @ [d])"
  by (drule slot_drop) simp

lemma cell_stretch_trace:
  assumes "cell_code u op c = (c', sigs, out)" and "subseq (gs @ opt_list (current c)) ss"
  shows "subseq (gs @ cell_got_of (outcome_event t op out) @ opt_list (current c'))
    (ss @ cell_set_of (outcome_event t op out))"
  using assms
  by (cases op) (auto simp: op_defs intro: slot_drop split: if_splits option.splits)

lemma cell_run_trace:
  assumes "cell_run spurious evs m"
  shows "subseq (cell_gots evs @ opt_list (current (shared m))) (cell_sets evs)"
  using assms unfolding cell_run_def
proof (induction rule: mon_run.induct)
  case run_start
  then show ?case by (simp add: cell_default_def)
next
  case (run_step evs m ev m')
  from run_step.hyps(2) show ?case
  proof (cases rule: mon_step_shared)
    case (stretch e op t sigs out)
    from cell_stretch_trace [OF stretch(1) run_step.IH, of t] stretch(2) show ?thesis by simp
  next
    case (idle t op)
    from idle(2) have "cell_got_of ev = []" "cell_set_of ev = []" by auto
    with idle(1) run_step.IH show ?thesis by simp
  qed
qed

section \<open>Properties\<close>

text \<open>Two getters, two values, the second of which overwrites nothing; then a third getter sleeps.\<close>

definition cell_sample :: "((nat, nat cell_op, (nat, nat) cell_result) event list \<times> nat cell_monitor) option" where
  "cell_sample = exec cell_code cell_admits (fresh_monitor cell_default)
     [Call 0 () Get, Call 1 () (Set 5), Call 1 () (Set 6), Resume 0 (), Call 1 () (Replace 7),
      Call 2 () Get_Timeout, Call 2 () Get]"

lemma cell_sample_result:
  "map_option (\<lambda>(evs, m). (cell_sets evs, cell_gots evs, current (shared m), sleeping () m, ready m))
     cell_sample = Some ([5, 6, 7], [6, 7], None, 1, [])"
  by code_simp

lemma cell_sample:
  obtains evs m where "cell_sample = Some (evs, m)" and "cell_run sp evs m"
    and "cell_sets evs = [5, 6, 7]" and "cell_gots evs = [6, 7]" and "sleeping () m = 1"
    and "ready m = []"
proof -
  from cell_sample_result obtain evs m where m: "cell_sample = Some (evs, m)"
    "cell_sets evs = [5, 6, 7]" "cell_gots evs = [6, 7]" "sleeping () m = 1" "ready m = []"
    by (auto simp: map_option_eq_Some)
  from exec_run [OF m(1) [unfolded cell_sample_def]] have "cell_run sp evs m"
    by (simp add: cell_run_def)
  with m that show thesis by blast
qed

text \<open>
  C15: the cell behaves like a channel for one value whose old value is overwritten: whatever
  the threads do, the values got are, in order, some of the values set, each at most once, and
  the value still in the cell comes after them.
\<close>

theorem cell_delivers_in_order:
  assumes "cell_run spurious evs m"
  shows "subseq (cell_gots evs @ (case current (shared m) of None \<Rightarrow> [] | Some x \<Rightarrow> [x])) (cell_sets evs)"
  using cell_run_trace [OF assms] .

theorem cell_delivers_in_order_witness:
  "\<exists>evs m. cell_sample = Some (evs, m) \<and> cell_gots evs = [6, 7] \<and>
     subseq (cell_gots evs @ (case current (shared m) of None \<Rightarrow> [] | Some x \<Rightarrow> [x])) (cell_sets evs)"
proof -
  obtain evs m where m: "cell_sample = Some (evs, m)" "cell_run False evs m" "cell_gots evs = [6, 7]"
    by (rule cell_sample)
  from cell_delivers_in_order [OF m(2)] m(1,3) show ?thesis by blast
qed

text \<open>
  C16: no getter misses a value: when no woken thread is on its way and a getter sleeps, the cell
  is empty; and no operation panics.
\<close>

theorem cell_getters_woken:
  assumes "cell_run spurious evs m" and "ready m = []" and "sleeping () m > 0"
  shows "current (shared m) = None \<and> \<not> list_ex is_Panicked evs"
proof -
  note run = assms(1) [unfolded cell_run_def]
  from cell.quiescent_sleepers [OF run _ assms(2,3)] cell.run_no_panic [OF run]
  show ?thesis by (auto simp: cell_avail_def split: option.splits)
qed

theorem cell_getters_woken_witness:
  "\<exists>evs m. cell_sample = Some (evs, m) \<and> sleeping () m > 0 \<and> current (shared m) = None"
proof -
  obtain evs m where m: "cell_sample = Some (evs, m)" "cell_run False evs m" "sleeping () m = 1"
    "ready m = []"
    by (rule cell_sample)
  from cell_getters_woken [OF m(2,4)] m(1,3) show ?thesis
    by (intro exI [of _ evs] exI [of _ m]) simp
qed

text \<open>
  A getter that was already waiting when the cell is closed: \<open>close\<close> wakes it, it finds no value
  and, without looking at the flag again, goes back to sleep; a later \<open>set\<close> still reaches it.
\<close>

definition closing_run :: "((nat, nat cell_op, (nat, nat) cell_result) event list \<times>
    nat cell_monitor) option" where
  "closing_run = exec cell_code cell_admits (fresh_monitor cell_default)
     [Call 0 () Get, Call 1 () Close, Resume 0 ()]"

definition after_closing :: "nat cell_monitor \<Rightarrow> ((nat, nat cell_op, (nat, nat) cell_result) event list \<times>
    nat cell_monitor) option" where
  "after_closing m = exec cell_code cell_admits m [Call 1 () (Set 5), Resume 0 ()]"

lemma closing_run_result:
  "map_option (\<lambda>(evs, m). (closed (shared m), asleep m, ready m,
      map_option (\<lambda>(evs', m'). cell_gots evs') (after_closing m))) closing_run =
   Some (True, [Waiter 0 () Get_Loop None], [], Some [5])"
  by code_simp


end
