(* ===== verification/Simulation.thy ===== *)
theory Simulation
  imports Monitor
begin

text \<open>
  One component that does what another one does, seen through a projection: its shared data, its
  operations and its results are projected; operations without a counterpart change nothing the
  other one can see. Every run of the first then projects to a run of the second.
\<close>

fun project_outcome :: "('o1 \<Rightarrow> 'o2 option) \<Rightarrow> ('r1 \<Rightarrow> 'r2) \<Rightarrow> ('o1, 'cv, 'r1) outcome \<Rightarrow>
    ('o2, 'cv, 'r2) outcome" where
  "project_outcome op_of res_of (Return r) = Return (res_of r)"
| "project_outcome op_of res_of (Wait cv op tr) = Wait cv (the (op_of op)) (map_option res_of tr)"
| "project_outcome op_of res_of Panic = Panic"

fun project_waiter :: "('o1 \<Rightarrow> 'o2 option) \<Rightarrow> ('r1 \<Rightarrow> 'r2) \<Rightarrow> ('t, 'cv, 'o1, 'r1) waiter \<Rightarrow>
    ('t, 'cv, 'o2, 'r2) waiter" where
  "project_waiter op_of res_of (Waiter t cv op tr) = Waiter t cv (the (op_of op)) (map_option res_of tr)"

definition project :: "('h1 \<Rightarrow> 'h2) \<Rightarrow> ('o1 \<Rightarrow> 'o2 option) \<Rightarrow> ('r1 \<Rightarrow> 'r2) \<Rightarrow>
    ('t, 'h1, 'o1, 'cv, 'r1) monitor \<Rightarrow> ('t, 'h2, 'o2, 'cv, 'r2) monitor" where
  "project view op_of res_of m =
     \<lparr> shared = view (shared m), asleep = map (project_waiter op_of res_of) (asleep m),
       ready = map (\<lambda>(t, op). (t, the (op_of op))) (ready m) \<rparr>"

fun project_event :: "('o1 \<Rightarrow> 'o2 option) \<Rightarrow> ('r1 \<Rightarrow> 'r2) \<Rightarrow> ('t, 'o1, 'r1) event \<Rightarrow>
    ('t, 'o2, 'r2) event list" where
  "project_event op_of res_of (Finished t op r) =
     (case op_of op of None \<Rightarrow> [] | Some op2 \<Rightarrow> [Finished t op2 (res_of r)])"
| "project_event op_of res_of (Blocked t op) =
     (case op_of op of None \<Rightarrow> [] | Some op2 \<Rightarrow> [Blocked t op2])"
| "project_event op_of res_of (Panicked t op) =
     (case op_of op of None \<Rightarrow> [] | Some op2 \<Rightarrow> [Panicked t op2])"
| "project_event op_of res_of (Timed_Out t op r) =
     (case op_of op of None \<Rightarrow> [] | Some op2 \<Rightarrow> [Timed_Out t op2 (res_of r)])"
| "project_event op_of res_of (Woken t op) =
     (case op_of op of None \<Rightarrow> [] | Some op2 \<Rightarrow> [Woken t op2])"

definition project_events :: "('o1 \<Rightarrow> 'o2 option) \<Rightarrow> ('r1 \<Rightarrow> 'r2) \<Rightarrow> ('t, 'o1, 'r1) event list \<Rightarrow>
    ('t, 'o2, 'r2) event list" where
  "project_events op_of res_of evs = concat (map (project_event op_of res_of) evs)"

lemma project_events_simps [simp]:
  "project_events f g [] = []"
  "project_events f g (evs @ [ev]) = project_events f g evs @ project_event f g ev"
  by (simp_all add: project_events_def)

lemma project_simps [simp]:
  "shared (project view f g m) = view (shared m)"
  "asleep (project view f g m) = map (project_waiter f g) (asleep m)"
  "ready (project view f g m) = map (\<lambda>(t, op). (t, the (f op))) (ready m)"
  "project view f g (fresh_monitor h) = fresh_monitor (view h)"
  by (simp_all add: project_def fresh_monitor_def)

lemma project_waiter_simps [simp]:
  "w_thread (project_waiter f g w) = w_thread w" "w_cv (project_waiter f g w) = w_cv w"
  "w_op (project_waiter f g w) = the (f (w_op w))"
  "w_timeout (project_waiter f g w) = map_option g (w_timeout w)"
  by (cases w; simp)+

lemma project_threads [simp]:
  "w_thread ` set (asleep (project view f g m)) = w_thread ` set (asleep m)"
  "fst ` set (ready (project view f g m)) = fst ` set (ready m)"
  by (auto simp: image_image split_beta)

lemma project_sleeping [simp]: "sleeping cv (project view f g m) = sleeping cv m"
  by (simp add: sleeping_def filter_map o_def)

definition projectable :: "('o1 \<Rightarrow> 'o2 option) \<Rightarrow> ('t, 'h1, 'o1, 'cv, 'r1) monitor \<Rightarrow> bool" where
  "projectable f m \<longleftrightarrow> list_all (\<lambda>w. f (w_op w) \<noteq> None) (asleep m) \<and>
     list_all (\<lambda>(t, op). f op \<noteq> None) (ready m)"

lemma project_wake: "wake (project_waiter f g w) = (\<lambda>(t, op). (t, the (f op))) (wake w)"
  by (simp add: wake_def)

lemma project_notify: "notify sg m m' \<Longrightarrow> notify sg (project view f g m) (project view f g m')"
proof (induction rule: notify.induct)
  case (notify_some m xs w ys cv)
  then have "asleep (project view f g m) =
      map (project_waiter f g) xs @ project_waiter f g w # map (project_waiter f g) ys" by simp
  from notify.notify_some [OF this, of cv] notify_some(2) show ?case
    by (simp add: project_def project_wake)
next
  case (notify_none cv m)
  then have "\<not> list_ex (\<lambda>w. w_cv w = cv) (asleep (project view f g m))" by (simp add: list_ex_iff)
  then show ?case by (rule notify.notify_none)
next
  case (notify_every cv m)
  show ?case by (simp add: project_def filter_map o_def project_wake)
qed

lemma project_notifies: "notifies ss m m' \<Longrightarrow> notifies ss (project view f g m) (project view f g m')"
proof (induction ss arbitrary: m)
  case (Cons sg ss)
  then obtain m1 where "notify sg m m1" "notifies ss m1 m'" by auto
  with Cons.IH project_notify show ?case by fastforce
qed simp

lemma projectable_notify: "notify sg m m' \<Longrightarrow> projectable f m \<Longrightarrow> projectable f m'"
  by (induction rule: notify.induct) (auto simp: projectable_def wake_def list_all_iff)

lemma projectable_notifies: "notifies ss m m' \<Longrightarrow> projectable f m \<Longrightarrow> projectable f m'"
proof (induction ss arbitrary: m)
  case (Cons sg ss)
  then obtain m1 where "notify sg m m1" "notifies ss m1 m'" by auto
  with Cons.IH projectable_notify Cons.prems(2) show ?case by blast
qed simp

lemma project_settle:
  "project view f g (settle t out m) = settle t (project_outcome f g out) (project view f g m)"
  by (cases out) (simp_all add: project_def)

locale simulation =
  fixes code1 :: "('e, 'h1, 'o1, 'cv, 'r1) code"
    and admits1 :: "('t, 'h1, 'o1, 'cv, 'r1) monitor \<Rightarrow> 'o1 \<Rightarrow> bool"
    and code2 :: "('e, 'h2, 'o2, 'cv, 'r2) code"
    and admits2 :: "('t, 'h2, 'o2, 'cv, 'r2) monitor \<Rightarrow> 'o2 \<Rightarrow> bool"
    and view :: "'h1 \<Rightarrow> 'h2" and op_of :: "'o1 \<Rightarrow> 'o2 option" and res_of :: "'r1 \<Rightarrow> 'r2"
  assumes visible_op: "op_of op = Some op2 \<Longrightarrow> code1 e op h = (h', sigs, out) \<Longrightarrow>
      code2 e op2 (view h) = (view h', sigs, project_outcome op_of res_of out)"
    and visible_wait: "code1 e op h = (h', sigs, Wait cv op' tr) \<Longrightarrow> op_of op' \<noteq> None"
    and hidden_op: "op_of op = None \<Longrightarrow> code1 e op h = (h', sigs, out) \<Longrightarrow>
      view h' = view h \<and> sigs = [] \<and> (\<exists>r. out = Return r)"
    and admits_op: "op_of op = Some op2 \<Longrightarrow> admits1 m op \<Longrightarrow> admits2 (project view op_of res_of m) op2"
begin

abbreviation proj :: "('t, 'h1, 'o1, 'cv, 'r1) monitor \<Rightarrow> ('t, 'h2, 'o2, 'cv, 'r2) monitor" where
  "proj \<equiv> project view op_of res_of"

lemma projectable_settle:
  "projectable op_of m \<Longrightarrow> code1 e op h = (h', sigs, out) \<Longrightarrow> projectable op_of (settle t out m)"
  using visible_wait by (cases out) (auto simp: projectable_def)

lemma event_of_outcome:
  "op_of op = Some op2 \<Longrightarrow> project_event op_of res_of (outcome_event t op out) =
     [outcome_event t op2 (project_outcome op_of res_of out)]"
  by (cases out) simp_all

lemma step_projects:
  "mon_step code1 admits1 spurious m ev m' \<Longrightarrow> projectable op_of m \<Longrightarrow>
   projectable op_of m' \<and>
   (project_event op_of res_of ev = [] \<and> proj m' = proj m \<or>
    (\<exists>ev2. project_event op_of res_of ev = [ev2] \<and> mon_step code2 admits2 spurious (proj m) ev2 (proj m')))"
proof (induction rule: mon_step.induct)
  case (call m op t e h' sigs out m1)
  from call(6) have "projectable op_of (m\<lparr> shared := h' \<rparr>)" by (simp add: projectable_def)
  from projectable_settle [OF projectable_notifies [OF call(5) this] call(4)]
  have p: "projectable op_of (settle t out m1)" .
  show ?case
  proof (cases "op_of op")
    case None
    with hidden_op [OF None call(4)] call(5) p show ?thesis by (auto simp: project_def)
  next
    case (Some op2)
    have "project view op_of res_of (m\<lparr> shared := h' \<rparr>) = (proj m)\<lparr> shared := view h' \<rparr>"
      by (simp add: project_def)
    with project_notifies [OF call(5), of view op_of res_of]
    have n: "notifies sigs ((proj m)\<lparr> shared := view h' \<rparr>) (proj m1)" by simp
    have c: "code2 e op2 (shared (proj m)) = (view h', sigs, project_outcome op_of res_of out)"
      using visible_op [OF Some call(4)] by simp
    have f: "t \<notin> w_thread ` set (asleep (proj m))" "t \<notin> fst ` set (ready (proj m))"
      unfolding project_threads using call(2,3) by auto
    from mon_step.call [of admits2 "proj m" op2 t code2 e, OF admits_op [OF Some call(1)] f c n]
    have "mon_step code2 admits2 spurious (proj m)
        (outcome_event t op2 (project_outcome op_of res_of out)) (proj (settle t out m1))"
      by (simp add: project_settle)
    with event_of_outcome [OF Some, of t out] p show ?thesis by simp
  qed
next
  case (resume m xs t op ys e h' sigs out m1)
  then obtain op2 where op2: "op_of op = Some op2" by (auto simp: projectable_def)
  have "projectable op_of (m\<lparr> shared := h', ready := xs @ ys \<rparr>)"
    using resume(1,4) by (simp add: projectable_def)
  from projectable_settle [OF projectable_notifies [OF resume(3) this] resume(2)]
  have p: "projectable op_of (settle t out m1)" .
  let ?f = "map (\<lambda>(t, op). (t, the (op_of op)))"
  have r: "ready (proj m) = ?f xs @ (t, op2) # ?f ys" using resume(1) op2 by simp
  have "project view op_of res_of (m\<lparr> shared := h', ready := xs @ ys \<rparr>) =
      (proj m)\<lparr> shared := view h', ready := ?f xs @ ?f ys \<rparr>"
    by (simp add: project_def)
  with project_notifies [OF resume(3), of view op_of res_of]
  have n: "notifies sigs ((proj m)\<lparr> shared := view h', ready := ?f xs @ ?f ys \<rparr>) (proj m1)" by simp
  have c: "code2 e op2 (shared (proj m)) = (view h', sigs, project_outcome op_of res_of out)"
    using visible_op [OF op2 resume(2)] by simp
  from mon_step.resume [of "proj m" "?f xs" t op2 "?f ys" code2 e, OF r c n]
  have "mon_step code2 admits2 spurious (proj m)
      (outcome_event t op2 (project_outcome op_of res_of out)) (proj (settle t out m1))"
    by (simp add: project_settle)
  with event_of_outcome [OF op2, of t out] p show ?case by simp
next
  case (timeout m xs t cv op r ys)
  then obtain op2 where op2: "op_of op = Some op2" by (auto simp: projectable_def)
  have "asleep (proj m) = map (project_waiter op_of res_of) xs @
      Waiter t cv op2 (Some (res_of r)) # map (project_waiter op_of res_of) ys"
    using timeout(1) op2 by simp
  from mon_step.timeout [OF this] op2 timeout show ?case by (auto simp: project_def projectable_def)
next
  case (spurious_wake m xs w ys)
  then obtain op2 where op2: "op_of (w_op w) = Some op2" by (auto simp: projectable_def)
  have "asleep (proj m) = map (project_waiter op_of res_of) xs @
      project_waiter op_of res_of w # map (project_waiter op_of res_of) ys"
    using spurious_wake(2) by simp
  from mon_step.spurious_wake [OF spurious_wake(1) this] op2 spurious_wake show ?case
    by (auto simp: project_def projectable_def wake_def)
qed

lemma run_projects:
  "mon_run code1 admits1 spurious (fresh_monitor h) evs m \<Longrightarrow>
   mon_run code2 admits2 spurious (fresh_monitor (view h)) (project_events op_of res_of evs) (proj m) \<and>
   projectable op_of m"
proof (induction rule: mon_run.induct)
  case run_start
  show ?case by (simp add: mon_run.run_start projectable_def)
next
  case (run_step evs m ev m')
  from step_projects [OF run_step.hyps(2)] run_step.IH show ?case
    by (auto intro: mon_run.run_step)
qed

end

end
