(* ===== verification/Coupler.thy ===== *)
theory Coupler
  imports Data_Cell Simulation
begin

text \<open>
  The couplers of \<open>src/src/cell/coupler.rs\<close> and \<open>src/src/cell/triplecoupler.rs\<close>: a data cell whose
  value is handed out together with one or two companion values, if they are set. A companion
  neither wakes a getter nor is waited for. Both are related to the data cell: on the primary
  value a coupler does exactly what the cell does, and a triple coupler what the coupler does.
\<close>

section \<open>The coupler\<close>

record ('p, 's) coupler_value =
  primary :: "'p option"
  second :: "'s option"
  cp_closed :: bool

definition coupler_default :: "('p, 's) coupler_value" where
  "coupler_default = \<lparr> primary = None, second = None, cp_closed = False \<rparr>"

datatype ('p, 's) coupler_op =
    C_Close | C_Is_Closed | C_Set 'p | C_Replace 'p | C_Set_Second 's | C_Replace_Second 's
  | C_Get | C_Get_Timeout | C_Try_Get | C_Get_Loop | C_Get_Timeout_Loop

datatype ('p, 's) coupler_result =
    CR_Done | CR_Bool bool | CR_Previous "'p option" | CR_Previous_Second "'s option"
  | CR_Value "('p \<times> 's option) result"

type_synonym ('p, 's) coupler_stretch = "('p, 's) coupler_value \<times> unit signal list \<times>
  (('p, 's) coupler_op, unit, ('p, 's) coupler_result) outcome"

definition coupler_close :: "('p, 's) coupler_value \<Rightarrow> ('p, 's) coupler_stretch" where
  [op_defs]: "coupler_close c = (c\<lparr> cp_closed := True \<rparr>, [Notify_All ()], Return CR_Done)"

definition coupler_set :: "'p \<Rightarrow> ('p, 's) coupler_value \<Rightarrow> ('p, 's) coupler_stretch" where
  [op_defs]: "coupler_set d c = (c\<lparr> primary := Some d \<rparr>, [Notify_One ()], Return CR_Done)"

definition coupler_replace :: "'p \<Rightarrow> ('p, 's) coupler_value \<Rightarrow> ('p, 's) coupler_stretch" where
  [op_defs]: "coupler_replace d c =
     (c\<lparr> primary := Some d \<rparr>, [Notify_One ()], Return (CR_Previous (primary c)))"

definition coupler_set_second :: "'s \<Rightarrow> ('p, 's) coupler_value \<Rightarrow> ('p, 's) coupler_stretch" where
  [op_defs]: "coupler_set_second d c = (c\<lparr> second := Some d \<rparr>, [], Return CR_Done)"

definition coupler_replace_second :: "'s \<Rightarrow> ('p, 's) coupler_value \<Rightarrow> ('p, 's) coupler_stretch" where
  [op_defs]: "coupler_replace_second d c =
     (c\<lparr> second := Some d \<rparr>, [], Return (CR_Previous_Second (second c)))"

definition coupler_get_loop :: "('p, 's) coupler_value \<Rightarrow> ('p, 's) coupler_stretch" where
  [op_defs]: "coupler_get_loop c =
     (case primary c of
        Some x \<Rightarrow> (c\<lparr> primary := None, second := None \<rparr>, [],
                  Return (CR_Value (Inr (x, second c))))
      | None \<Rightarrow> (c, [], Wait () C_Get_Loop None))"

definition coupler_get :: "('p, 's) coupler_value \<Rightarrow> ('p, 's) coupler_stretch" where
  [op_defs]: "coupler_get c =
     (if cp_closed c then (c, [], Return (CR_Value (Inl ChannelClosed))) else coupler_get_loop c)"

definition coupler_get_timeout_loop :: "('p, 's) coupler_value \<Rightarrow> ('p, 's) coupler_stretch" where
  [op_defs]: "coupler_get_timeout_loop c =
     (case primary c of
        Some x \<Rightarrow> (c\<lparr> primary := None, second := None \<rparr>, [],
                  Return (CR_Value (Inr (x, second c))))
      | None \<Rightarrow> (c, [], Wait () C_Get_Timeout_Loop (Some (CR_Value (Inl Timeout)))))"

definition coupler_get_timeout :: "('p, 's) coupler_value \<Rightarrow> ('p, 's) coupler_stretch" where
  [op_defs]: "coupler_get_timeout c =
     (if cp_closed c then (c, [], Return (CR_Value (Inl ChannelClosed)))
      else coupler_get_timeout_loop c)"

definition coupler_try_get :: "('p, 's) coupler_value \<Rightarrow> ('p, 's) coupler_stretch" where
  [op_defs]: "coupler_try_get c =
     (if cp_closed c then (c, [], Return (CR_Value (Inl ChannelClosed)))
      else (case primary c of
          Some x \<Rightarrow> (c\<lparr> primary := None, second := None \<rparr>, [],
                    Return (CR_Value (Inr (x, second c))))
        | None \<Rightarrow> (c, [], Return (CR_Value (Inl ChannelEmpty)))))"

fun coupler_code :: "(unit, ('p, 's) coupler_value, ('p, 's) coupler_op, unit, ('p, 's) coupler_result) code" where
  "coupler_code _ C_Close c = coupler_close c"
| "coupler_code _ C_Is_Closed c = (c, [], Return (CR_Bool (cp_closed c)))"
| "coupler_code _ (C_Set d) c = coupler_set d c"
| "coupler_code _ (C_Replace d) c = coupler_replace d c"
| "coupler_code _ (C_Set_Second s) c = coupler_set_second s c"
| "coupler_code _ (C_Replace_Second s) c = coupler_replace_second s c"
| "coupler_code _ C_Get c = coupler_get c"
| "coupler_code _ C_Get_Timeout c = coupler_get_timeout c"
| "coupler_code _ C_Try_Get c = coupler_try_get c"
| "coupler_code _ C_Get_Loop c = coupler_get_loop c"
| "coupler_code _ C_Get_Timeout_Loop c = coupler_get_timeout_loop c"

fun coupler_next :: "('p, 's) coupler_result \<Rightarrow> ('p \<times> 's option) option" where
  "coupler_next (CR_Value r) = result_ok r"
| "coupler_next _ = None"

fun coupler_waits_on :: "('p, 's) coupler_op \<Rightarrow> unit option" where
  "coupler_waits_on C_Get_Loop = Some ()"
| "coupler_waits_on C_Get_Timeout_Loop = Some ()"
| "coupler_waits_on _ = None"

type_synonym ('p, 's) coupler_monitor =
  "(nat, ('p, 's) coupler_value, ('p, 's) coupler_op, unit, ('p, 's) coupler_result) monitor"

definition coupler_admits :: "('p, 's) coupler_monitor \<Rightarrow> ('p, 's) coupler_op \<Rightarrow> bool" where
  "coupler_admits m op \<longleftrightarrow> coupler_waits_on op = None"

definition coupler_run :: "bool \<Rightarrow> (nat, ('p, 's) coupler_op, ('p, 's) coupler_result) event list \<Rightarrow>
    ('p, 's) coupler_monitor \<Rightarrow> bool" where
  "coupler_run spurious = mon_run coupler_code coupler_admits spurious (fresh_monitor coupler_default)"

section \<open>The triple coupler\<close>

record ('p, 's, 't) triple_value =
  t_primary :: "'p option"
  t_second :: "'s option"
  t_third :: "'t option"
  t_closed :: bool

definition triple_default :: "('p, 's, 't) triple_value" where
  "triple_default = \<lparr> t_primary = None, t_second = None, t_third = None, t_closed = False \<rparr>"

datatype ('p, 's, 't) triple_op =
    T_Close | T_Is_Closed | T_Set 'p | T_Replace 'p | T_Set_Second 's | T_Replace_Second 's
  | T_Set_Third 't | T_Replace_Third 't
  | T_Get | T_Get_Timeout | T_Try_Get | T_Get_Loop | T_Get_Timeout_Loop

datatype ('p, 's, 't) triple_result =
    TR_Done | TR_Bool bool | TR_Previous "'p option" | TR_Previous_Second "'s option"
  | TR_Previous_Third "'t option" | TR_Value "('p \<times> 's option \<times> 't option) result"

type_synonym ('p, 's, 't) triple_stretch = "('p, 's, 't) triple_value \<times> unit signal list \<times>
  (('p, 's, 't) triple_op, unit, ('p, 's, 't) triple_result) outcome"

text \<open>\<open>(primary, second.take(), third.take())\<close> once the primary value was taken.\<close>

definition triple_taken :: "'p \<Rightarrow> ('p, 's, 't) triple_value \<Rightarrow> ('p, 's, 't) triple_stretch" where
  [op_defs]: "triple_taken x c =
     (c\<lparr> t_primary := None, t_second := None, t_third := None \<rparr>, [],
      Return (TR_Value (Inr (x, t_second c, t_third c))))"

definition triple_get_loop :: "('p, 's, 't) triple_value \<Rightarrow> ('p, 's, 't) triple_stretch" where
  [op_defs]: "triple_get_loop c =
     (case t_primary c of
        Some x \<Rightarrow> triple_taken x c
      | None \<Rightarrow> (c, [], Wait () T_Get_Loop None))"

definition triple_get :: "('p, 's, 't) triple_value \<Rightarrow> ('p, 's, 't) triple_stretch" where
  [op_defs]: "triple_get c =
     (if t_closed c then (c, [], Return (TR_Value (Inl ChannelClosed))) else triple_get_loop c)"

definition triple_get_timeout_loop :: "('p, 's, 't) triple_value \<Rightarrow> ('p, 's, 't) triple_stretch" where
  [op_defs]: "triple_get_timeout_loop c =
     (case t_primary c of
        Some x \<Rightarrow> triple_taken x c
      | None \<Rightarrow> (c, [], Wait () T_Get_Timeout_Loop (Some (TR_Value (Inl Timeout)))))"

definition triple_get_timeout :: "('p, 's, 't) triple_value \<Rightarrow> ('p, 's, 't) triple_stretch" where
  [op_defs]: "triple_get_timeout c =
     (if t_closed c then (c, [], Return (TR_Value (Inl ChannelClosed)))
      else triple_get_timeout_loop c)"

definition triple_try_get :: "('p, 's, 't) triple_value \<Rightarrow> ('p, 's, 't) triple_stretch" where
  [op_defs]: "triple_try_get c =
     (if t_closed c then (c, [], Return (TR_Value (Inl ChannelClosed)))
      else (case t_primary c of
          Some x \<Rightarrow> triple_taken x c
        | None \<Rightarrow> (c, [], Return (TR_Value (Inl ChannelEmpty)))))"

fun triple_code :: "(unit, ('p, 's, 't) triple_value, ('p, 's, 't) triple_op, unit, ('p, 's, 't) triple_result) code" where
  "triple_code _ T_Close c = (c\<lparr> t_closed := True \<rparr>, [Notify_All ()], Return TR_Done)"
| "triple_code _ T_Is_Closed c = (c, [], Return (TR_Bool (t_closed c)))"
| "triple_code _ (T_Set d) c = (c\<lparr> t_primary := Some d \<rparr>, [Notify_One ()], Return TR_Done)"
| "triple_code _ (T_Replace d) c =
     (c\<lparr> t_primary := Some d \<rparr>, [Notify_One ()], Return (TR_Previous (t_primary c)))"
| "triple_code _ (T_Set_Second d) c = (c\<lparr> t_second := Some d \<rparr>, [], Return TR_Done)"
| "triple_code _ (T_Replace_Second d) c =
     (c\<lparr> t_second := Some d \<rparr>, [], Return (TR_Previous_Second (t_second c)))"
| "triple_code _ (T_Set_Third d) c = (c\<lparr> t_third := Some d \<rparr>, [], Return TR_Done)"
| "triple_code _ (T_Replace_Third d) c =
     (c\<lparr> t_third := Some d \<rparr>, [], Return (TR_Previous_Third (t_third c)))"
| "triple_code _ T_Get c = triple_get c"
| "triple_code _ T_Get_Timeout c = triple_get_timeout c"
| "triple_code _ T_Try_Get c = triple_try_get c"
| "triple_code _ T_Get_Loop c = triple_get_loop c"
| "triple_code _ T_Get_Timeout_Loop c = triple_get_timeout_loop c"

fun triple_next :: "('p, 's, 't) triple_result \<Rightarrow> ('p \<times> 's option \<times> 't option) option" where
  "triple_next (TR_Value r) = result_ok r"
| "triple_next _ = None"

fun triple_waits_on :: "('p, 's, 't) triple_op \<Rightarrow> unit option" where
  "triple_waits_on T_Get_Loop = Some ()"
| "triple_waits_on T_Get_Timeout_Loop = Some ()"
| "triple_waits_on _ = None"

type_synonym ('p, 's, 't) triple_monitor =
  "(nat, ('p, 's, 't) triple_value, ('p, 's, 't) triple_op, unit, ('p, 's, 't) triple_result) monitor"

definition triple_admits :: "('p, 's, 't) triple_monitor \<Rightarrow> ('p, 's, 't) triple_op \<Rightarrow> bool" where
  "triple_admits m op \<longleftrightarrow> triple_waits_on op = None"

definition triple_run :: "bool \<Rightarrow> (nat, ('p, 's, 't) triple_op, ('p, 's, 't) triple_result) event list \<Rightarrow>
    ('p, 's, 't) triple_monitor \<Rightarrow> bool" where
  "triple_run spurious = mon_run triple_code triple_admits spurious (fresh_monitor triple_default)"

section \<open>A coupler is a cell, a triple coupler is a coupler\<close>

fun primary_op :: "('p, 's) coupler_op \<Rightarrow> 'p cell_op option" where
  "primary_op C_Close = Some Close"
| "primary_op C_Is_Closed = Some Is_Closed"
| "primary_op (C_Set d) = Some (Set d)"
| "primary_op (C_Replace d) = Some (Replace d)"
| "primary_op (C_Set_Second s) = None"
| "primary_op (C_Replace_Second s) = None"
| "primary_op C_Get = Some Get"
| "primary_op C_Get_Timeout = Some Get_Timeout"
| "primary_op C_Try_Get = Some Try_Get"
| "primary_op C_Get_Loop = Some Get_Loop"
| "primary_op C_Get_Timeout_Loop = Some Get_Timeout_Loop"

fun primary_result :: "('p, 's) coupler_result \<Rightarrow> ('p, 'p) cell_result" where
  "primary_result CR_Done = R_Done"
| "primary_result (CR_Bool b) = R_Bool b"
| "primary_result (CR_Previous x) = R_Previous x"
| "primary_result (CR_Previous_Second s) = R_Done"
| "primary_result (CR_Value r) = R_Value (map_sum id fst r)"

definition coupler_cell :: "('p, 's) coupler_value \<Rightarrow> 'p cell_value" where
  "coupler_cell c = \<lparr> current = primary c, closed = cp_closed c \<rparr>"

fun pair_op :: "('p, 's, 't) triple_op \<Rightarrow> ('p, 's) coupler_op option" where
  "pair_op T_Close = Some C_Close"
| "pair_op T_Is_Closed = Some C_Is_Closed"
| "pair_op (T_Set d) = Some (C_Set d)"
| "pair_op (T_Replace d) = Some (C_Replace d)"
| "pair_op (T_Set_Second s) = Some (C_Set_Second s)"
| "pair_op (T_Replace_Second s) = Some (C_Replace_Second s)"
| "pair_op (T_Set_Third d) = None"
| "pair_op (T_Replace_Third d) = None"
| "pair_op T_Get = Some C_Get"
| "pair_op T_Get_Timeout = Some C_Get_Timeout"
| "pair_op T_Try_Get = Some C_Try_Get"
| "pair_op T_Get_Loop = Some C_Get_Loop"
| "pair_op T_Get_Timeout_Loop = Some C_Get_Timeout_Loop"

fun pair_result :: "('p, 's, 't) triple_result \<Rightarrow> ('p, 's) coupler_result" where
  "pair_result TR_Done = CR_Done"
| "pair_result (TR_Bool b) = CR_Bool b"
| "pair_result (TR_Previous x) = CR_Previous x"
| "pair_result (TR_Previous_Second s) = CR_Previous_Second s"
| "pair_result (TR_Previous_Third d) = CR_Done"
| "pair_result (TR_Value r) = CR_Value (map_sum id (\<lambda>(x, s, d). (x, s)) r)"

definition triple_pair :: "('p, 's, 't) triple_value \<Rightarrow> ('p, 's) coupler_value" where
  "triple_pair c = \<lparr> primary = t_primary c, second = t_second c, cp_closed = t_closed c \<rparr>"

lemma view_sel [simp]:
  "current (coupler_cell c) = primary c" "closed (coupler_cell c) = cp_closed c"
  "primary (triple_pair d) = t_primary d" "second (triple_pair d) = t_second d"
  "cp_closed (triple_pair d) = t_closed d"
  by (simp_all add: coupler_cell_def triple_pair_def)

interpretation coupler_sim: simulation coupler_code coupler_admits cell_code cell_admits
  coupler_cell primary_op primary_result
proof (unfold_locales, goal_cases)
  case (1 op op2 e h h' sigs out)
  then show ?case
    by (cases op) (auto simp: op_defs coupler_cell_def split: if_splits option.splits)
next
  case (2 e op h h' sigs cv op' tr)
  then show ?case by (cases op) (auto simp: op_defs split: if_splits option.splits)
next
  case (3 op e h h' sigs out)
  then show ?case by (cases op) (auto simp: op_defs coupler_cell_def)
next
  case (4 op op2 m)
  then show ?case by (cases op) (auto simp: coupler_admits_def cell_admits_def)
qed

interpretation triple_sim: simulation triple_code triple_admits coupler_code coupler_admits
  triple_pair pair_op pair_result
proof (unfold_locales, goal_cases)
  case (1 op op2 e h h' sigs out)
  then show ?case
    by (cases op) (auto simp: op_defs triple_pair_def split: if_splits option.splits)
next
  case (2 e op h h' sigs cv op' tr)
  then show ?case by (cases op) (auto simp: op_defs split: if_splits option.splits)
next
  case (3 op e h h' sigs out)
  then show ?case by (cases op) (auto simp: op_defs triple_pair_def)
next
  case (4 op op2 m)
  then show ?case by (cases op) (auto simp: triple_admits_def coupler_admits_def)
qed

lemma default_views [simp]:
  "coupler_cell coupler_default = cell_default" "triple_pair triple_default = coupler_default"
  by (simp_all add: coupler_cell_def coupler_default_def cell_default_def triple_pair_def triple_default_def)

lemma coupler_run_cell:
  "coupler_run spurious evs m \<Longrightarrow>
   cell_run spurious (project_events primary_op primary_result evs) (coupler_sim.proj m)"
  unfolding coupler_run_def cell_run_def by (drule coupler_sim.run_projects) simp

lemma triple_run_coupler:
  "triple_run spurious evs m \<Longrightarrow>
   coupler_run spurious (project_events pair_op pair_result evs) (triple_sim.proj m)"
  unfolding triple_run_def coupler_run_def by (drule triple_sim.run_projects) simp

section \<open>Traces\<close>

text \<open>The companion values set, and those handed out.\<close>

fun second_set_of :: "(nat, ('p, 's) coupler_op, ('p, 's) coupler_result) event \<Rightarrow> 's list" where
  "second_set_of (Finished t (C_Set_Second s) r) = [s]"
| "second_set_of (Finished t (C_Replace_Second s) r) = [s]"
| "second_set_of _ = []"

fun second_got_of :: "(nat, ('p, 's) coupler_op, ('p, 's) coupler_result) event \<Rightarrow> 's list" where
  "second_got_of (Finished t op (CR_Value (Inr (x, s)))) = opt_list s"
| "second_got_of _ = []"

fun third_set_of :: "(nat, ('p, 's, 't) triple_op, ('p, 's, 't) triple_result) event \<Rightarrow> 't list" where
  "third_set_of (Finished t (T_Set_Third d) r) = [d]"
| "third_set_of (Finished t (T_Replace_Third d) r) = [d]"
| "third_set_of _ = []"

fun third_got_of :: "(nat, ('p, 's, 't) triple_op, ('p, 's, 't) triple_result) event \<Rightarrow> 't list" where
  "third_got_of (Finished t op (TR_Value (Inr (x, s, d)))) = opt_list d"
| "third_got_of _ = []"

definition seconds_set :: "(nat, ('p, 's) coupler_op, ('p, 's) coupler_result) event list \<Rightarrow> 's list" where
  "seconds_set evs = concat (map second_set_of evs)"

definition seconds_got :: "(nat, ('p, 's) coupler_op, ('p, 's) coupler_result) event list \<Rightarrow> 's list" where
  "seconds_got evs = concat (map second_got_of evs)"

definition thirds_set :: "(nat, ('p, 's, 't) triple_op, ('p, 's, 't) triple_result) event list \<Rightarrow> 't list" where
  "thirds_set evs = concat (map third_set_of evs)"

definition thirds_got :: "(nat, ('p, 's, 't) triple_op, ('p, 's, 't) triple_result) event list \<Rightarrow> 't list" where
  "thirds_got evs = concat (map third_got_of evs)"

lemma coupler_stretch_trace:
  assumes "coupler_code u op c = (c', sigs, out)" and "subseq (gs @ opt_list (second c)) ss"
  shows "subseq (gs @ second_got_of (outcome_event t op out) @ opt_list (second c'))
    (ss @ second_set_of (outcome_event t op out))"
  using assms
  by (cases op) (auto simp: op_defs intro: slot_drop split: if_splits option.splits)

lemma triple_stretch_trace:
  assumes "triple_code u op c = (c', sigs, out)" and "subseq (gs @ opt_list (t_third c)) ss"
  shows "subseq (gs @ third_got_of (outcome_event t op out) @ opt_list (t_third c'))
    (ss @ third_set_of (outcome_event t op out))"
  using assms
  by (cases op) (auto simp: op_defs intro: slot_drop split: if_splits option.splits)

lemma coupler_run_seconds:
  assumes "coupler_run spurious evs m"
  shows "subseq (seconds_got evs @ opt_list (second (shared m))) (seconds_set evs)"
  using assms unfolding coupler_run_def
proof (induction rule: mon_run.induct)
  case run_start
  then show ?case by (simp add: coupler_default_def seconds_got_def seconds_set_def)
next
  case (run_step evs m ev m')
  from run_step.hyps(2) show ?case
  proof (cases rule: mon_step_shared)
    case (stretch e op t sigs out)
    from coupler_stretch_trace [OF stretch(1) run_step.IH, of t] stretch(2) show ?thesis
      by (simp add: seconds_got_def seconds_set_def)
  next
    case (idle t op)
    from idle(2) have "second_got_of ev = []" "second_set_of ev = []" by auto
    with idle(1) run_step.IH show ?thesis by (simp add: seconds_got_def seconds_set_def)
  qed
qed

lemma triple_run_thirds:
  assumes "triple_run spurious evs m"
  shows "subseq (thirds_got evs @ opt_list (t_third (shared m))) (thirds_set evs)"
  using assms unfolding triple_run_def
proof (induction rule: mon_run.induct)
  case run_start
  then show ?case by (simp add: triple_default_def thirds_got_def thirds_set_def)
next
  case (run_step evs m ev m')
  from run_step.hyps(2) show ?case
  proof (cases rule: mon_step_shared)
    case (stretch e op t sigs out)
    from triple_stretch_trace [OF stretch(1) run_step.IH, of t] stretch(2) show ?thesis
      by (simp add: thirds_got_def thirds_set_def)
  next
    case (idle t op)
    from idle(2) have "third_got_of ev = []" "third_set_of ev = []" by auto
    with idle(1) run_step.IH show ?thesis by (simp add: thirds_got_def thirds_set_def)
  qed
qed

section \<open>Properties\<close>

text \<open>
  Concrete runs: a getter waits, the companions are set (the second one twice), then the primary
  value; a second getter stays asleep.
\<close>

definition triple_sample :: "((nat, (nat, nat, nat) triple_op, (nat, nat, nat) triple_result) event list \<times>
    (nat, nat, nat) triple_monitor) option" where
  "triple_sample = exec triple_code triple_admits (fresh_monitor triple_default)
     [Call 0 () T_Get, Call 1 () (T_Set_Second 33), Call 1 () (T_Replace_Second 34),
      Call 1 () (T_Set_Third 45), Call 1 () (T_Set 42), Resume 0 (), Call 2 () T_Get]"

lemma triple_sample_result:
  "map_option (\<lambda>(evs, m). (seconds_got (project_events pair_op pair_result evs), thirds_got evs,
      cell_gots (project_events primary_op primary_result (project_events pair_op pair_result evs)),
      sleeping () m, ready m)) triple_sample = Some ([34], [45], [42], 1, [])"
  by code_simp

lemma triple_sample:
  obtains evs m where "triple_sample = Some (evs, m)" and "triple_run sp evs m"
    and "seconds_got (project_events pair_op pair_result evs) = [34]" and "thirds_got evs = [45]"
    and "sleeping () m = 1" and "ready m = []"
proof -
  from triple_sample_result obtain evs m where m: "triple_sample = Some (evs, m)"
    "seconds_got (project_events pair_op pair_result evs) = [34]" "thirds_got evs = [45]"
    "sleeping () m = 1" "ready m = []"
    by (auto simp: map_option_eq_Some)
  from exec_run [OF m(1) [unfolded triple_sample_def]] have "triple_run sp evs m"
    by (simp add: triple_run_def)
  with m that show thesis by blast
qed

definition coupler_sample :: "((nat, (nat, nat) coupler_op, (nat, nat) coupler_result) event list \<times>
    (nat, nat) coupler_monitor) option" where
  "coupler_sample = exec coupler_code coupler_admits (fresh_monitor coupler_default)
     [Call 0 () C_Get, Call 1 () (C_Set_Second 33), Call 1 () (C_Set 42), Resume 0 ()]"

lemma coupler_sample_result:
  "map_option (\<lambda>(evs, m). cell_gots (project_events primary_op primary_result evs)) coupler_sample =
   Some [42]"
  by code_simp

text \<open>
  C18: on its primary value a coupler is a data cell: hiding the second value turns every run of
  the coupler into a run of the cell, with the same threads asleep and woken.
\<close>

theorem coupler_refines_cell:
  assumes "coupler_run spurious evs m"
  shows "cell_run spurious (project_events primary_op primary_result evs)
    (project coupler_cell primary_op primary_result m)"
  using coupler_run_cell [OF assms] .

theorem coupler_refines_cell_witness:
  "\<exists>evs m. coupler_sample = Some (evs, m) \<and>
     cell_run False (project_events primary_op primary_result evs)
       (project coupler_cell primary_op primary_result m) \<and>
     cell_gots (project_events primary_op primary_result evs) = [42]"
proof -
  obtain evs m where m: "coupler_sample = Some (evs, m)"
    "cell_gots (project_events primary_op primary_result evs) = [42]"
    using coupler_sample_result by (auto simp: map_option_eq_Some)
  from exec_run [OF m(1) [unfolded coupler_sample_def]] have "coupler_run False evs m"
    by (simp add: coupler_run_def)
  from coupler_refines_cell [OF this] m show ?thesis by blast
qed

text \<open>
  Each of the three values of a triple coupler is handed out at most once, in the order it
  was set, and a value still held comes after all those handed out; whatever the threads do.
\<close>

theorem triple_delivers_in_order:
  assumes "triple_run spurious evs m"
  shows "let cevs = project_events pair_op pair_result evs;
             pevs = project_events primary_op primary_result cevs
    in subseq (cell_gots pevs @ (case t_primary (shared m) of None \<Rightarrow> [] | Some x \<Rightarrow> [x])) (cell_sets pevs) \<and>
       subseq (seconds_got cevs @ (case t_second (shared m) of None \<Rightarrow> [] | Some x \<Rightarrow> [x])) (seconds_set cevs) \<and>
       subseq (thirds_got evs @ (case t_third (shared m) of None \<Rightarrow> [] | Some x \<Rightarrow> [x])) (thirds_set evs)"
proof -
  note c = triple_run_coupler [OF assms]
  from cell_run_trace [OF coupler_run_cell [OF c]] coupler_run_seconds [OF c] triple_run_thirds [OF assms]
  show ?thesis by (simp add: Let_def)
qed

theorem triple_delivers_in_order_witness:
  "\<exists>evs m. triple_sample = Some (evs, m) \<and> thirds_got evs = [45] \<and>
     subseq (thirds_got evs @ (case t_third (shared m) of None \<Rightarrow> [] | Some x \<Rightarrow> [x])) (thirds_set evs)"
proof -
  obtain evs m where m: "triple_sample = Some (evs, m)" "triple_run False evs m" "thirds_got evs = [45]"
    by (rule triple_sample)
  from triple_delivers_in_order [OF m(2)] m(1,3) show ?thesis
    by (intro exI [of _ evs] exI [of _ m]) (simp add: Let_def)
qed

text \<open>
  No getter of a triple coupler misses the primary value: when no woken thread is on its way
  and a getter sleeps, no primary value is there.
\<close>

theorem triple_getters_woken:
  assumes "triple_run spurious evs m" and "ready m = []" and "sleeping () m > 0"
  shows "t_primary (shared m) = None"
proof -
  from coupler_run_cell [OF triple_run_coupler [OF assms(1)]]
  have run: "mon_run cell_code cell_admits spurious (fresh_monitor cell_default)
      (project_events primary_op primary_result (project_events pair_op pair_result evs))
      (coupler_sim.proj (triple_sim.proj m))"
    by (simp add: cell_run_def)
  from cell.quiescent_sleepers [OF run] assms(2,3)
  show ?thesis by (simp add: cell_avail_def split: option.splits)
qed

theorem triple_getters_woken_witness:
  "\<exists>evs m. triple_sample = Some (evs, m) \<and> sleeping () m > 0 \<and> t_primary (shared m) = None"
proof -
  obtain evs m where m: "triple_sample = Some (evs, m)" "triple_run False evs m" "sleeping () m = 1"
    "ready m = []"
    by (rule triple_sample)
  from triple_getters_woken [OF m(2,4)] m(1,3) show ?thesis
    by (intro exI [of _ evs] exI [of _ m]) simp
qed

end
