(* ===== verification/Monotonic.thy ===== *)
theory Monotonic
  imports Rtsc_Error
begin

text \<open>
  Time. A \<open>Duration\<close> is a number of nanoseconds. A \<open>bma_ts::Monotonic\<close> is a point of time of a
  crate that is not part of the repository, so its operations are a parameter: a record of the
  functions the code calls. The locale states what their documentation says of them, in terms of
  the duration since the clock's origin; readings of the clock (\<open>Monotonic::now()\<close>) are arguments
  of the operations that take them. The sums stay far below the largest representable value.
\<close>

type_synonym duration = nat

record 't monotonic_ops =
  as_duration :: "'t \<Rightarrow> duration"
  mono_less :: "'t \<Rightarrow> 't \<Rightarrow> bool"
  mono_add :: "'t \<Rightarrow> duration \<Rightarrow> 't"
  mono_sub :: "'t \<Rightarrow> 't \<Rightarrow> duration"
  mono_elapsed :: "'t \<Rightarrow> 't \<Rightarrow> duration"
  mono_abs_diff :: "'t \<Rightarrow> 't \<Rightarrow> duration"

text \<open>
  \<open>mono_elapsed mo t now\<close> is \<open>t.elapsed()\<close> with the clock at \<open>now\<close>. Differences of a later and an
  earlier point are exact; nothing is said of the other order.
\<close>

locale monotonic =
  fixes mo :: "'t monotonic_ops"
  assumes less_dur: "mono_less mo a b \<longleftrightarrow> as_duration mo a < as_duration mo b"
    and dur_inject: "as_duration mo a = as_duration mo b \<Longrightarrow> a = b"
    and dur_add: "as_duration mo (mono_add mo a d) = as_duration mo a + d"
    and sub_dur: "as_duration mo b \<le> as_duration mo a \<Longrightarrow>
      mono_sub mo a b = as_duration mo a - as_duration mo b"
    and elapsed_dur: "as_duration mo a \<le> as_duration mo now \<Longrightarrow>
      mono_elapsed mo a now = as_duration mo now - as_duration mo a"
    and abs_diff_dur: "mono_abs_diff mo a b =
      (as_duration mo a - as_duration mo b) + (as_duration mo b - as_duration mo a)"

text \<open>A clock whose points are the durations themselves.\<close>

definition duration_clock :: "duration monotonic_ops" where
  "duration_clock =
     \<lparr> as_duration = (\<lambda>t. t), mono_less = (<), mono_add = (+), mono_sub = (-),
       mono_elapsed = (\<lambda>t now. now - t), mono_abs_diff = (\<lambda>a b. (a - b) + (b - a)) \<rparr>"

lemma duration_clock_sel [simp]:
  "as_duration duration_clock t = t" "mono_less duration_clock a b \<longleftrightarrow> a < b"
  "mono_add duration_clock a d = a + d" "mono_sub duration_clock a b = a - b"
  "mono_elapsed duration_clock a b = b - a"
  "mono_abs_diff duration_clock a b = (a - b) + (b - a)"
  by (simp_all add: duration_clock_def)

lemma duration_clock_monotonic: "monotonic duration_clock"
  by unfold_locales simp_all

interpretation dclock: monotonic duration_clock
  by (rule duration_clock_monotonic)

end
