(* ===== verification/Ttl_Cell.thy ===== *)
theory Ttl_Cell
  imports Monotonic
begin

text \<open>
  The cell with an expiring value of \<open>src/src/cell/ttlcell.rs\<close>. Every reading of the clock an
  operation makes is an argument, in the order the code makes them.
\<close>

record ('a, 't) ttl_cell =
  ttl_value :: "'a option"
  ttl :: duration
  ttl_set_at :: 't

section \<open>Operations\<close>

definition ttl_new :: "duration \<Rightarrow> 't \<Rightarrow> ('a, 't) ttl_cell" where
  "ttl_new d now = \<lparr> ttl_value = None, ttl = d, ttl_set_at = now \<rparr>"

definition ttl_new_with_value :: "duration \<Rightarrow> 'a \<Rightarrow> 't \<Rightarrow> ('a, 't) ttl_cell" where
  "ttl_new_with_value d a now = \<lparr> ttl_value = Some a, ttl = d, ttl_set_at = now \<rparr>"

definition ttl_is_expired :: "'t monotonic_ops \<Rightarrow> ('a, 't) ttl_cell \<Rightarrow> 't \<Rightarrow> bool" where
  [op_defs]: "ttl_is_expired mo c now \<longleftrightarrow> mono_elapsed mo (ttl_set_at c) now > ttl c \<or> ttl_value c = None"

definition ttl_touch :: "('a, 't) ttl_cell \<Rightarrow> 't \<Rightarrow> ('a, 't) ttl_cell" where
  [op_defs]: "ttl_touch c now = c\<lparr> ttl_set_at := now \<rparr>"

definition ttl_replace :: "'t monotonic_ops \<Rightarrow> ('a, 't) ttl_cell \<Rightarrow> 'a \<Rightarrow> 't \<Rightarrow> 't \<Rightarrow>
    ('a, 't) ttl_cell \<times> 'a option" where
  [op_defs]: "ttl_replace mo c a now1 now2 =
     (let prev = ttl_value c;
          c1 = c\<lparr> ttl_value := Some a \<rparr>;
          result = (if ttl_is_expired mo c1 now1 then None else prev)
      in (ttl_touch c1 now2, result))"

definition ttl_set :: "('a, 't) ttl_cell \<Rightarrow> 'a \<Rightarrow> 't \<Rightarrow> ('a, 't) ttl_cell" where
  [op_defs]: "ttl_set c a now = ttl_touch (c\<lparr> ttl_value := Some a \<rparr>) now"

definition ttl_clear :: "('a, 't) ttl_cell \<Rightarrow> ('a, 't) ttl_cell" where
  [op_defs]: "ttl_clear c = c\<lparr> ttl_value := None \<rparr>"

definition ttl_as_ref :: "'t monotonic_ops \<Rightarrow> ('a, 't) ttl_cell \<Rightarrow> 't \<Rightarrow> 'a option" where
  [op_defs]: "ttl_as_ref mo c now = (if ttl_is_expired mo c now then None else ttl_value c)"

definition ttl_as_ref_with :: "'t monotonic_ops \<Rightarrow> ('a, 't) ttl_cell \<Rightarrow> ('b, 't) ttl_cell \<Rightarrow>
    duration \<Rightarrow> 't \<Rightarrow> 't \<Rightarrow> ('a \<times> 'b) option" where
  [op_defs]: "ttl_as_ref_with mo c other max_time_delta now1 now2 =
     (case (ttl_as_ref mo c now1, ttl_as_ref mo other now2) of
        (Some first, Some second) \<Rightarrow>
          if mono_abs_diff mo (ttl_set_at c) (ttl_set_at other) \<le> max_time_delta
          then Some (first, second) else None
      | _ \<Rightarrow> None)"

definition ttl_take :: "'t monotonic_ops \<Rightarrow> ('a, 't) ttl_cell \<Rightarrow> 't \<Rightarrow>
    ('a, 't) ttl_cell \<times> 'a option" where
  [op_defs]: "ttl_take mo c now =
     (if ttl_is_expired mo c now then (c, None) else (c\<lparr> ttl_value := None \<rparr>, ttl_value c))"

definition ttl_take_with :: "'t monotonic_ops \<Rightarrow> ('a, 't) ttl_cell \<Rightarrow> ('b, 't) ttl_cell \<Rightarrow>
    duration \<Rightarrow> 't \<Rightarrow> 't \<Rightarrow> ('a, 't) ttl_cell \<times> ('b, 't) ttl_cell \<times> ('a \<times> 'b) option" where
  [op_defs]: "ttl_take_with mo c other max_time_delta now1 now2 =
     (let (c', maybe_first) = ttl_take mo c now1; (other', maybe_second) = ttl_take mo other now2
      in (c', other',
          case (maybe_first, maybe_second) of
            (Some first, Some second) \<Rightarrow>
              if mono_abs_diff mo (ttl_set_at c') (ttl_set_at other') \<le> max_time_delta
              then Some (first, second) else None
          | _ \<Rightarrow> None))"

definition ttl_as_deref :: "'t monotonic_ops \<Rightarrow> ('a \<Rightarrow> 'b) \<Rightarrow> ('a, 't) ttl_cell \<Rightarrow> 't \<Rightarrow> 'b option" where
  [op_defs]: "ttl_as_deref mo deref c now =
     (case ttl_as_ref mo c now of Some t \<Rightarrow> Some (deref t) | None \<Rightarrow> None)"

text \<open>\<open>PartialEq\<close>: two clock readings, one for each side.\<close>

definition ttl_eq :: "'t monotonic_ops \<Rightarrow> ('a, 't) ttl_cell \<Rightarrow> ('a, 't) ttl_cell \<Rightarrow> 't \<Rightarrow> 't \<Rightarrow> bool" where
  [op_defs]: "ttl_eq mo c d now1 now2 \<longleftrightarrow> ttl_as_ref mo c now1 = ttl_as_ref mo d now2"

section \<open>Histories\<close>

text \<open>The operations on one cell, with the clock readings they make.\<close>

datatype ('a, 't) ttl_call =
  Set 'a 't | Replace 'a 't 't | Clear | Touch 't | Take 't | As_Ref 't

fun ttl_op :: "'t monotonic_ops \<Rightarrow> ('a, 't) ttl_call \<Rightarrow> ('a, 't) ttl_cell \<Rightarrow> ('a, 't) ttl_cell \<times> 'a option" where
  "ttl_op mo (Set a now) c = (ttl_set c a now, None)"
| "ttl_op mo (Replace a now1 now2) c = ttl_replace mo c a now1 now2"
| "ttl_op mo Clear c = (ttl_clear c, None)"
| "ttl_op mo (Touch now) c = (ttl_touch c now, None)"
| "ttl_op mo (Take now) c = ttl_take mo c now"
| "ttl_op mo (As_Ref now) c = (c, ttl_as_ref mo c now)"

fun ttl_ops :: "'t monotonic_ops \<Rightarrow> ('a, 't) ttl_call list \<Rightarrow> ('a, 't) ttl_cell \<Rightarrow>
    ('a, 't) ttl_cell \<times> 'a option list" where
  "ttl_ops mo [] c = (c, [])"
| "ttl_ops mo (op # ops) c =
     (let (c1, r) = ttl_op mo op c; (c2, rs) = ttl_ops mo ops c1 in (c2, r # rs))"

text \<open>The value a call writes, with the time it is stamped with.\<close>

fun writes :: "('a, 't) ttl_call \<Rightarrow> ('a \<times> 't) option" where
  "writes (Set a now) = Some (a, now)"
| "writes (Replace a now1 now2) = Some (a, now2)"
| "writes _ = None"

fun is_touch :: "('a, 't) ttl_call \<Rightarrow> bool" where
  "is_touch (Touch now) = True"
| "is_touch _ = False"

lemma ttl_op_ttl: "ttl (fst (ttl_op mo op c)) = ttl c"
  by (cases op) (simp_all add: op_defs Let_def)

lemma ttl_ops_ttl: "ttl (fst (ttl_ops mo ops c)) = ttl c"
  by (induction ops arbitrary: c) (simp_all add: split_beta ttl_op_ttl)

text \<open>Without \<open>touch\<close>, a stored value was written with the stamp the cell carries.\<close>

lemma ttl_op_written:
  assumes "\<not> is_touch op" and "ttl_value (fst (ttl_op mo op c)) = Some a"
  shows "writes op = Some (a, ttl_set_at (fst (ttl_op mo op c))) \<or>
    ttl_value c = Some a \<and> ttl_set_at (fst (ttl_op mo op c)) = ttl_set_at c"
  using assms by (cases op) (auto simp: op_defs Let_def split: if_splits)

lemma ttl_ops_written:
  "\<not> list_ex is_touch ops \<Longrightarrow> ttl_value (fst (ttl_ops mo ops c)) = Some a \<Longrightarrow>
   Some (a, ttl_set_at (fst (ttl_ops mo ops c))) \<in> writes ` set ops \<or>
   ttl_value c = Some a \<and> ttl_set_at (fst (ttl_ops mo ops c)) = ttl_set_at c"
proof (induction ops arbitrary: c)
  case (Cons op ops)
  let ?c = "fst (ttl_op mo op c)"
  have rest: "fst (ttl_ops mo (op # ops) c) = fst (ttl_ops mo ops ?c)" by (simp add: split_beta)
  with Cons.IH [of ?c] Cons.prems ttl_op_written [of op mo c a] show ?case by auto
qed simp

section \<open>Properties\<close>



text \<open>
  C31: \<open>take_with\<close> returns what \<open>as_ref_with\<close> shows at the same clock readings: both values when
  both are alive and their stamps are close enough. But it empties every cell whose value is alive
  in any case, so when only one is alive, or the stamps are too far apart, the values are lost.
\<close>

theorem ttl_take_with_effect:
  "let (c', other', r) = ttl_take_with mo c other max_time_delta now1 now2
   in r = ttl_as_ref_with mo c other max_time_delta now1 now2 \<and>
      c' = (if ttl_as_ref mo c now1 = None then c else ttl_clear c) \<and>
      other' = (if ttl_as_ref mo other now2 = None then other else ttl_clear other)"
  by (auto simp: op_defs Let_def split: option.splits if_splits)

end
