(* ===== verification/Ops.thy ===== *)
theory Ops
  imports Monotonic
begin

text \<open>
  The time-limited operation of \<open>src/src/ops.rs\<close>. \<open>now\<close> is the clock reading \<open>elapsed\<close> makes.
\<close>

record 't operation =
  op_t :: 't
  op_timeout :: duration

definition operation_new :: "duration \<Rightarrow> 't \<Rightarrow> 't operation" where
  "operation_new d now = \<lparr> op_t = now, op_timeout = d \<rparr>"

definition operation_new_for_monotonic :: "'t \<Rightarrow> duration \<Rightarrow> 't operation" where
  "operation_new_for_monotonic t d = \<lparr> op_t = t, op_timeout = d \<rparr>"

definition remaining_for :: "'t monotonic_ops \<Rightarrow> 't operation \<Rightarrow> duration \<Rightarrow> 't \<Rightarrow> duration result" where
  [op_defs]: "remaining_for mo p d now =
     (let elapsed = mono_elapsed mo (op_t p) now in
      if elapsed > d then Inl Timeout else Inr (d - elapsed))"

definition remaining :: "'t monotonic_ops \<Rightarrow> 't operation \<Rightarrow> 't \<Rightarrow> duration result" where
  [op_defs]: "remaining mo p now =
     (let elapsed = mono_elapsed mo (op_t p) now in
      if elapsed > op_timeout p then Inl Timeout else Inr (op_timeout p - elapsed))"

definition enough :: "'t monotonic_ops \<Rightarrow> 't operation \<Rightarrow> duration \<Rightarrow> 't \<Rightarrow> unit result" where
  [op_defs]: "enough mo p expected now =
     (if mono_elapsed mo (op_t p) now + expected \<le> op_timeout p then Inr () else Inl Timeout)"

section \<open>Properties\<close>

text \<open>
  The three queries agree: at one clock reading \<open>enough\<close> succeeds for just those durations
  that fit into what \<open>remaining\<close> reports (and for none when that is a timeout), and the remaining
  time, when there is any, is the deadline minus the reading.
\<close>

theorem operation_queries_agree:
  assumes "monotonic mo" and "as_duration mo (op_t p) \<le> as_duration mo now"
  shows "(enough mo p expected now = Inr () \<longleftrightarrow>
       (\<exists>r. remaining mo p now = Inr r \<and> expected \<le> r)) \<and>
    remaining mo p now = remaining_for mo p (op_timeout p) now \<and>
    (\<forall>r. remaining mo p now = Inr r \<longleftrightarrow>
       as_duration mo now + r = as_duration mo (op_t p) + op_timeout p)"
  using assms(2) monotonic.elapsed_dur [OF assms]
  by (auto simp: op_defs Let_def)

theorem operation_queries_agree_witness:
  "remaining duration_clock (operation_new 10 5) 12 = Inr 3 \<and>
   enough duration_clock (operation_new 10 5) 3 12 = Inr () \<and>
   enough duration_clock (operation_new 10 5) 4 12 = Inl Timeout"
  using operation_queries_agree [OF duration_clock_monotonic, of "operation_new 10 5" 12 3]
  by (simp add: operation_new_def op_defs)

text \<open>
  Time only takes away: an operation that has timed out stays so, and the remaining time
  shrinks by exactly what has passed between two readings.
\<close>

theorem operation_remaining_decreases:
  assumes "monotonic mo" and "as_duration mo (op_t p) \<le> as_duration mo now"
    and "as_duration mo now \<le> as_duration mo later" and "remaining mo p later = Inr r"
  shows "remaining mo p now = Inr (r + mono_sub mo later now)"
  using assms(2-4) monotonic.elapsed_dur [OF assms(1), of "op_t p"] monotonic.sub_dur [OF assms(1,3)]
  by (auto simp: op_defs Let_def split: if_splits)

theorem operation_remaining_decreases_witness:
  "remaining duration_clock (operation_new 10 5) 14 = Inr 1 \<and>
   remaining duration_clock (operation_new 10 5) 12 = Inr (1 + 2)"
proof -
  have "remaining duration_clock (operation_new 10 5) 14 = Inr 1"
    by (simp add: operation_new_def op_defs)
  with operation_remaining_decreases [OF duration_clock_monotonic, of "operation_new 10 5" 12 14 1]
  show ?thesis by (simp add: operation_new_def)
qed

end
