(* ===== verification/Interval.thy ===== *)
theory Interval
  imports Monotonic "HOL-Library.Word"
begin

text \<open>
  The interval helper of \<open>src/src/time.rs\<close> and its extensions of \<open>Duration\<close>. A tick takes the
  clock reading \<open>now\<close> it makes, and tells, besides the new state and whether the tick was in time,
  how long it sleeps. The loop that skips missed ticks is a partial function: it does not end for
  a period of zero. The counter is a 64-bit \<open>usize\<close> that wraps around.
\<close>

section \<open>Durations\<close>

definition mono_min :: "'t monotonic_ops \<Rightarrow> 't \<Rightarrow> 't \<Rightarrow> 't" where
  "mono_min mo a b = (if mono_less mo b a then b else a)"

definition mono_max :: "'t monotonic_ops \<Rightarrow> 't \<Rightarrow> 't \<Rightarrow> 't" where
  "mono_max mo a b = (if mono_less mo b a then a else b)"

definition fits :: "'t monotonic_ops \<Rightarrow> duration \<Rightarrow> 't list \<Rightarrow> bool" where
  "fits mo d ts =
     (case ts of
        [] \<Rightarrow> True
      | t # us \<Rightarrow>
          let min_ts = foldl (mono_min mo) t us; max_ts = foldl (mono_max mo) t us
          in as_duration mo max_ts - as_duration mo min_ts \<le> d)"

definition diff_abs :: "duration \<Rightarrow> duration \<Rightarrow> duration" where
  "diff_abs d other = (if d > other then d - other else other - d)"

section \<open>Intervals\<close>

datatype missed_tick_behavior = Burst | Delay | Skip

definition missed_tick_behavior_default :: missed_tick_behavior where
  "missed_tick_behavior_default = Burst"

record 't interval =
  next_tick :: "'t option"
  period :: duration
  missing_tick_behavior :: missed_tick_behavior
  ticks :: "64 word"

definition interval_new :: "duration \<Rightarrow> 't interval" where
  "interval_new p =
     \<lparr> next_tick = None, period = p, missing_tick_behavior = missed_tick_behavior_default, ticks = 0 \<rparr>"

text \<open>A frequency of zero divides by zero and panics.\<close>

definition interval_hz :: "64 word \<Rightarrow> 't interval option" where
  "interval_hz frequency =
     (if frequency = 0 then None else Some (interval_new (unat (1000000000 div frequency))))"

definition set_missing_tick_behavior :: "missed_tick_behavior \<Rightarrow> 't interval \<Rightarrow> 't interval" where
  "set_missing_tick_behavior b i = i\<lparr> missing_tick_behavior := b \<rparr>"

definition elapsed_ticks :: "'t interval \<Rightarrow> 64 word" where
  "elapsed_ticks i = ticks i"

partial_function (option) skip_loop :: "'t monotonic_ops \<Rightarrow> duration \<Rightarrow> 't \<Rightarrow> 't \<Rightarrow> 't option" where
  "skip_loop mo p now t =
     (if \<not> mono_less mo now t then skip_loop mo p now (mono_add mo t p) else Some t)"

definition tick :: "'t monotonic_ops \<Rightarrow> 't interval \<Rightarrow> 't \<Rightarrow>
    ('t interval \<times> bool \<times> duration option) option" where
  [op_defs]: "tick mo i0 now =
     (let i = i0\<lparr> ticks := ticks i0 + 1 \<rparr> in
      case next_tick i of
        Some nt \<Rightarrow>
          if mono_less mo now nt
          then Some (i\<lparr> next_tick := Some (mono_add mo nt (period i)) \<rparr>, True, Some (mono_sub mo nt now))
          else if \<not> mono_less mo nt now then Some (i, True, None)
          else (case missing_tick_behavior i of
              Burst \<Rightarrow> Some (i\<lparr> next_tick := Some (mono_add mo nt (period i)) \<rparr>, False, None)
            | Delay \<Rightarrow> Some (i\<lparr> next_tick := Some (mono_add mo now (period i)) \<rparr>, False, None)
            | Skip \<Rightarrow> map_option (\<lambda>t. (i\<lparr> next_tick := Some t \<rparr>, False, None))
                        (skip_loop mo (period i) now nt))
      | None \<Rightarrow> Some (i\<lparr> next_tick := Some (mono_add mo now (period i)) \<rparr>, True, None))"

text \<open>The iterator ticks for ever.\<close>

definition interval_next :: "'t monotonic_ops \<Rightarrow> 't interval \<Rightarrow> 't \<Rightarrow> ('t interval \<times> bool option) option" where
  "interval_next mo i now = map_option (\<lambda>(i', r, s). (i', Some r)) (tick mo i now)"

text \<open>Several ticks, each with its clock reading.\<close>

fun tick_run :: "'t monotonic_ops \<Rightarrow> 't interval \<Rightarrow> 't list \<Rightarrow> ('t interval \<times> bool list) option" where
  "tick_run mo i [] = Some (i, [])"
| "tick_run mo i (now # nows) =
     Option.bind (tick mo i now) (\<lambda>(i1, r, s).
       map_option (\<lambda>(i', rs). (i', r # rs)) (tick_run mo i1 nows))"

section \<open>The loop that skips\<close>

context monotonic
begin

lemma skip_loop_zero: "as_duration mo t \<le> as_duration mo now \<Longrightarrow> skip_loop mo 0 now t = None"
proof -
  have "m = mo \<longrightarrow> p = 0 \<longrightarrow> \<not> as_duration mo u \<le> as_duration mo n"
    if "skip_loop m p n u = Some r" for m p n u r
  proof (rule skip_loop.raw_induct [of "\<lambda>m p n u r. m = mo \<longrightarrow> p = 0 \<longrightarrow>
      \<not> as_duration mo u \<le> as_duration mo n", OF _ that], intro impI)
    fix f m p n u r
    assume IH: "\<And>m p n u r. f m p n u = Some r \<Longrightarrow>
        m = mo \<longrightarrow> p = 0 \<longrightarrow> \<not> as_duration mo u \<le> as_duration mo n"
      and body: "(if \<not> mono_less m n u then f m p n (mono_add m u p) else Some u) = Some r"
      and eqs: "m = mo" "p = 0"
    show "\<not> as_duration mo u \<le> as_duration mo n"
    proof (cases "mono_less mo n u")
      case False
      with body eqs have "f mo 0 n (mono_add mo u 0) = Some r" by simp
      from IH [OF this] show ?thesis by (simp add: dur_add)
    qed (simp add: less_dur)
  qed
  then show "as_duration mo t \<le> as_duration mo now \<Longrightarrow> skip_loop mo 0 now t = None"
    by (cases "skip_loop mo 0 now t") auto
qed

lemma skip_loop_ends:
  assumes "0 < p"
  shows "\<exists>r k. skip_loop mo p now t = Some r \<and> as_duration mo r = as_duration mo t + k * p \<and>
    as_duration mo now < as_duration mo r \<and>
    (as_duration mo t \<le> as_duration mo now \<longrightarrow> as_duration mo r \<le> as_duration mo now + p)"
proof (induction "Suc (as_duration mo now) - as_duration mo t" arbitrary: t rule: less_induct)
  case less
  show ?case
  proof (cases "mono_less mo now t")
    case True
    then show ?thesis by (subst skip_loop.simps) (auto simp: less_dur intro!: exI [of _ 0])
  next
    case False
    let ?u = "mono_add mo t p"
    have "Suc (as_duration mo now) - as_duration mo ?u < Suc (as_duration mo now) - as_duration mo t"
      using False assms by (auto simp: less_dur dur_add)
    from less [OF this] obtain r k where r: "skip_loop mo p now ?u = Some r"
      "as_duration mo r = as_duration mo ?u + k * p" "as_duration mo now < as_duration mo r"
      "as_duration mo ?u \<le> as_duration mo now \<longrightarrow> as_duration mo r \<le> as_duration mo now + p"
      by blast
    have "as_duration mo r \<le> as_duration mo now + p"
    proof (cases "as_duration mo ?u \<le> as_duration mo now")
      case gt: False
      then have "mono_less mo now ?u" by (simp add: less_dur)
      then have "r = ?u" using r(1) by (subst (asm) skip_loop.simps) simp
      with False show ?thesis by (simp add: less_dur dur_add)
    qed (use r(4) in simp)
    moreover have "skip_loop mo p now t = Some r"
      using False r(1) by (subst skip_loop.simps) simp
    moreover have "as_duration mo r = as_duration mo t + Suc k * p"
      using r(2) by (simp add: dur_add)
    ultimately show ?thesis using r(3) by blast
  qed
qed

lemma skip_loop_start:
  "as_duration mo nt < as_duration mo now \<Longrightarrow> 0 < p \<Longrightarrow>
   \<exists>r k. skip_loop mo p now nt = Some r \<and> as_duration mo r = as_duration mo nt + k * p \<and>
     as_duration mo now < as_duration mo r \<and> as_duration mo r \<le> as_duration mo now + p"
  using skip_loop_ends [of p now nt] by auto

text \<open>What one tick does, on the durations since the origin of the clock.\<close>

lemma tick_cases:
  assumes "missing_tick_behavior i = Skip \<longrightarrow> 0 < period i"
  obtains (first) i' nt' where "tick mo i now = Some (i', True, None)" and "next_tick i = None"
      and "i' = i\<lparr> ticks := ticks i + 1, next_tick := Some nt' \<rparr>"
      and "as_duration mo nt' = as_duration mo now + period i"
  | (early) i' nt nt' where "tick mo i now = Some (i', True, Some (as_duration mo nt - as_duration mo now))"
      and "next_tick i = Some nt" and "as_duration mo now < as_duration mo nt"
      and "i' = i\<lparr> ticks := ticks i + 1, next_tick := Some nt' \<rparr>"
      and "as_duration mo nt' = as_duration mo nt + period i"
  | (exact) i' nt where "tick mo i now = Some (i', True, None)" and "next_tick i = Some nt"
      and "as_duration mo now = as_duration mo nt" and "i' = i\<lparr> ticks := ticks i + 1 \<rparr>"
  | (late) i' nt nt' k where "tick mo i now = Some (i', False, None)" and "next_tick i = Some nt"
      and "as_duration mo nt < as_duration mo now"
      and "i' = i\<lparr> ticks := ticks i + 1, next_tick := Some nt' \<rparr>"
      and "as_duration mo nt' = (case missing_tick_behavior i of
             Burst \<Rightarrow> as_duration mo nt + period i
           | Delay \<Rightarrow> as_duration mo now + period i
           | Skip \<Rightarrow> as_duration mo nt + k * period i)"
      and "missing_tick_behavior i = Skip \<longrightarrow>
           as_duration mo now < as_duration mo nt' \<and> as_duration mo nt' \<le> as_duration mo now + period i"
proof (cases "next_tick i")
  case None
  then show thesis by (intro first) (auto simp: tick_def dur_add)
next
  case (Some nt)
  consider "as_duration mo now < as_duration mo nt" | "as_duration mo now = as_duration mo nt"
    | "as_duration mo nt < as_duration mo now" by linarith
  then show thesis
  proof cases
    case 1
    with Some show thesis by (intro early [of _ nt]) (auto simp: tick_def less_dur dur_add sub_dur)
  next
    case 2
    with Some show thesis by (intro exact [of _ nt]) (auto simp: tick_def less_dur)
  next
    case 3
    show thesis
    proof (cases "missing_tick_behavior i")
      case Burst
      with Some 3 show thesis by (intro late [of _ nt]) (auto simp: tick_def less_dur dur_add)
    next
      case Delay
      with Some 3 show thesis by (intro late [of _ nt]) (auto simp: tick_def less_dur dur_add)
    next
      case Skip
      with skip_loop_start [OF 3] assms obtain r k where "skip_loop mo (period i) now nt = Some r"
        "as_duration mo r = as_duration mo nt + k * period i" "as_duration mo now < as_duration mo r"
        "as_duration mo r \<le> as_duration mo now + period i" by blast
      with Some Skip 3 show thesis by (intro late [of _ nt r k]) (auto simp: tick_def less_dur)
    qed
  qed
qed

lemma tick_run_grid:
  assumes "missing_tick_behavior i \<noteq> Delay" and "missing_tick_behavior i = Skip \<longrightarrow> 0 < period i"
    and "next_tick i = Some nt"
  shows "\<exists>i' rs nt' k. tick_run mo i nows = Some (i', rs) \<and> next_tick i' = Some nt' \<and>
    as_duration mo nt' = as_duration mo nt + k * period i"
  using assms
proof (induction nows arbitrary: i nt)
  case Nil
  then show ?case by (auto intro: exI [of _ 0])
next
  case (Cons now nows)
  have "\<exists>i1 r s nt1 k. tick mo i now = Some (i1, r, s) \<and> next_tick i1 = Some nt1 \<and>
      period i1 = period i \<and> missing_tick_behavior i1 = missing_tick_behavior i \<and>
      as_duration mo nt1 = as_duration mo nt + k * period i"
    using Cons.prems(2)
  proof (cases rule: tick_cases [where now = now])
    case (early i' nu nt')
    with Cons.prems(3) show ?thesis by (auto intro!: exI [of _ 1])
  next
    case (exact i' nu)
    with Cons.prems(3) show ?thesis by (auto intro!: exI [of _ 0])
  next
    case (late i' nu nt' k)
    with Cons.prems(1,3) show ?thesis
      by (cases "missing_tick_behavior i") (auto intro: exI [of _ 1])
  qed (use Cons.prems(3) in simp)
  then obtain i1 r s nt1 k where i1: "tick mo i now = Some (i1, r, s)" "next_tick i1 = Some nt1"
      "period i1 = period i" "missing_tick_behavior i1 = missing_tick_behavior i"
      "as_duration mo nt1 = as_duration mo nt + k * period i" by blast
  from Cons.IH [of i1 nt1] i1 Cons.prems obtain i' rs nt' k' where "tick_run mo i1 nows = Some (i', rs)"
    "next_tick i' = Some nt'" "as_duration mo nt' = as_duration mo nt1 + k' * period i" by auto
  moreover from this(3) i1(5) have "as_duration mo nt' = as_duration mo nt + (k + k') * period i"
    by (simp add: distrib_right)
  ultimately show ?case using i1(1)
    by (intro exI [of _ i'] exI [of _ "r # rs"] exI [of _ nt'] exI [of _ "k + k'"]) simp
qed

end

lemma tick_count: "tick mo i now = Some (i', r, s) \<Longrightarrow> ticks i' = ticks i + 1"
  by (auto simp: tick_def Let_def split: option.splits if_splits missed_tick_behavior.splits)

lemma tick_run_count:
  "tick_run mo i nows = Some (i', rs) \<Longrightarrow> ticks i' = ticks i + of_nat (length nows) \<and> length rs = length nows"
proof (induction nows arbitrary: i i' rs)
  case (Cons now nows)
  then obtain i1 r s rs' where "tick mo i now = Some (i1, r, s)" "tick_run mo i1 nows = Some (i', rs')"
    "rs = r # rs'" by (auto simp: bind_eq_Some_conv)
  with Cons.IH [of i1 i' rs'] tick_count [of mo i now i1 r s] show ?case by (simp add: add.assoc)
qed simp

section \<open>Properties\<close>



text \<open>
  No drift: with the behaviours \<open>Burst\<close> and \<open>Skip\<close> every run of ticks returns, whatever the
  clock shows, and the next tick stays on the grid of the first one, a whole number of periods
  after it.
\<close>

theorem interval_no_drift:
  assumes "monotonic mo" and "missing_tick_behavior i \<noteq> Delay" and "0 < period i"
    and "next_tick i = Some nt"
  shows "\<exists>i' rs nt' k. tick_run mo i nows = Some (i', rs) \<and> length rs = length nows \<and>
    next_tick i' = Some nt' \<and> as_duration mo nt' = as_duration mo nt + k * period i"
  using monotonic.tick_run_grid [OF assms(1,2) _ assms(4), of nows] assms(3) tick_run_count by blast

theorem interval_no_drift_witness:
  "\<exists>i' rs nt'. tick_run duration_clock (set_missing_tick_behavior Skip (interval_new 10)\<lparr> next_tick := Some 10 \<rparr>)
      [4, 35, 36] = Some (i', rs) \<and> next_tick i' = Some nt' \<and> nt' mod 10 = 0"
proof -
  let ?i = "set_missing_tick_behavior Skip (interval_new 10)\<lparr> next_tick := Some 10 \<rparr>"
  from interval_no_drift [OF duration_clock_monotonic, of ?i 10 "[4, 35, 36]"]
  obtain i' rs nt' k where "tick_run duration_clock ?i [4, 35, 36] = Some (i', rs)"
    "next_tick i' = Some nt'" "nt' = 10 + k * 10"
    by (auto simp: set_missing_tick_behavior_def interval_new_def)
  then show ?thesis by (intro exI [of _ i'] exI [of _ rs] exI [of _ nt']) simp
qed

text \<open>
  What a single tick does: the first one only sets the grid; an early one sleeps until exactly
  the next tick and moves it by a period; a late one is reported as missed, does not sleep, and
  moves the next tick as the behaviour says, with \<open>Skip\<close> to the first point of the grid in the
  future.
\<close>

theorem tick_spec:
  assumes "monotonic mo" and "missing_tick_behavior i = Skip \<longrightarrow> 0 < period i"
  shows "\<exists>i' r s nt'. tick mo i now = Some (i', r, s) \<and> next_tick i' = Some nt' \<and>
    (case next_tick i of
       None \<Rightarrow> r \<and> s = None \<and> as_duration mo nt' = as_duration mo now + period i
     | Some nt \<Rightarrow>
         if as_duration mo now < as_duration mo nt
         then r \<and> s = Some (as_duration mo nt - as_duration mo now) \<and>
           as_duration mo nt' = as_duration mo nt + period i
         else if as_duration mo now = as_duration mo nt then r \<and> s = None \<and> nt' = nt
         else \<not> r \<and> s = None \<and> (case missing_tick_behavior i of
             Burst \<Rightarrow> as_duration mo nt' = as_duration mo nt + period i
           | Delay \<Rightarrow> as_duration mo nt' = as_duration mo now + period i
           | Skip \<Rightarrow> (\<exists>k. as_duration mo nt' = as_duration mo nt + k * period i) \<and>
               as_duration mo now < as_duration mo nt' \<and>
               as_duration mo nt' \<le> as_duration mo now + period i))"
  by (rule monotonic.tick_cases [OF assms, where now = now])
    (auto split: missed_tick_behavior.split)

theorem tick_spec_witness:
  "tick duration_clock (set_missing_tick_behavior Skip (interval_new 10)\<lparr> next_tick := Some 10 \<rparr>) 35 \<noteq> None"
  using tick_spec [OF duration_clock_monotonic,
      of "set_missing_tick_behavior Skip (interval_new 10)\<lparr> next_tick := Some 10 \<rparr>" 35]
  by (auto simp: interval_new_def set_missing_tick_behavior_def)

text \<open>
  C37: \<open>elapsed_ticks\<close> counts the calls of \<open>tick\<close>, the missed ones too, modulo two to the 64th.
\<close>

theorem elapsed_ticks_counts_calls:
  assumes "tick_run mo i nows = Some (i', rs)"
  shows "elapsed_ticks i' = elapsed_ticks i + of_nat (length rs)"
  using tick_run_count [OF assms] by (simp add: elapsed_ticks_def)

theorem elapsed_ticks_counts_calls_witness:
  "\<exists>i'. tick_run duration_clock (interval_new 10) [0, 25, 26] = Some (i', [True, False, False]) \<and>
     elapsed_ticks i' = 3"
proof -
  obtain i' where i': "tick_run duration_clock (interval_new 10) [0, 25, 26] = Some (i', [True, False, False])"
    by (simp add: op_defs interval_new_def missed_tick_behavior_default_def Let_def)
  from elapsed_ticks_counts_calls [OF i'] have "elapsed_ticks i' = 3"
    by (simp add: elapsed_ticks_def interval_new_def)
  with i' show ?thesis by blast
qed

text \<open>
  A tick at exactly the right time does not move the next one: with a period of ten, ticks at
  0 and at 10 are both in time, and the next one, a single nanosecond later, is reported as missed.
\<close>

theorem exact_tick_does_not_advance:
  "\<exists>i'. tick_run duration_clock (interval_new 10) [0, 10, 11] = Some (i', [True, True, False])"
  by (simp add: op_defs interval_new_def missed_tick_behavior_default_def Let_def)

lemma fold_min_dur:
  assumes "monotonic mo"
  shows "as_duration mo (foldl (mono_min mo) t us) =
    foldl min (as_duration mo t) (map (as_duration mo) us)"
proof (induction us arbitrary: t)
  case (Cons u us)
  have "as_duration mo (mono_min mo t u) = min (as_duration mo t) (as_duration mo u)"
    by (simp add: mono_min_def monotonic.less_dur [OF assms])
  with Cons.IH [of "mono_min mo t u"] show ?case by simp
qed simp

lemma fold_max_dur:
  assumes "monotonic mo"
  shows "as_duration mo (foldl (mono_max mo) t us) =
    foldl max (as_duration mo t) (map (as_duration mo) us)"
proof (induction us arbitrary: t)
  case (Cons u us)
  have "as_duration mo (mono_max mo t u) = max (as_duration mo t) (as_duration mo u)"
    by (simp add: mono_max_def monotonic.less_dur [OF assms])
  with Cons.IH [of "mono_max mo t u"] show ?case by simp
qed simp

lemma foldl_min_le: "foldl min x ys \<le> z \<longleftrightarrow> (\<exists>y \<in> insert x (set ys). y \<le> z)" for x :: nat
  by (induction ys arbitrary: x) (auto simp: min_le_iff_disj)

lemma foldl_max_le: "foldl max x ys \<le> z \<longleftrightarrow> (\<forall>y \<in> insert x (set ys). y \<le> z)" for x :: nat
  by (induction ys arbitrary: x) auto

lemma foldl_min_ge: "z \<le> foldl min x ys \<longleftrightarrow> (\<forall>y \<in> insert x (set ys). z \<le> y)" for x :: nat
  by (induction ys arbitrary: x) auto

lemma spread_le:
  fixes x :: nat
  shows "foldl max x ys - foldl min x ys \<le> d \<longleftrightarrow>
    (\<forall>a \<in> insert x (set ys). \<forall>b \<in> insert x (set ys). a - b \<le> d)"
proof -
  have "foldl max x ys - foldl min x ys \<le> d \<longleftrightarrow> foldl max x ys \<le> foldl min x ys + d" by linarith
  also have "\<dots> \<longleftrightarrow> (\<forall>a \<in> insert x (set ys). a \<le> foldl min x ys + d)" by (rule foldl_max_le)
  also have "\<dots> \<longleftrightarrow> (\<forall>a \<in> insert x (set ys). a - d \<le> foldl min x ys)" by (simp add: le_diff_conv)
  also have "\<dots> \<longleftrightarrow> (\<forall>a \<in> insert x (set ys). \<forall>b \<in> insert x (set ys). a - d \<le> b)"
    by (simp only: foldl_min_ge)
  also have "\<dots> \<longleftrightarrow> (\<forall>a \<in> insert x (set ys). \<forall>b \<in> insert x (set ys). a - b \<le> d)"
    by (simp add: le_diff_conv add.commute)
  finally show ?thesis .
qed

text \<open>
  C39: \<open>fits\<close> holds just when any two of the given times are at most the duration apart, for any
  number of times.
\<close>

theorem fits_iff:
  assumes "monotonic mo"
  shows "fits mo d ts \<longleftrightarrow> (\<forall>a \<in> set ts. \<forall>b \<in> set ts. mono_abs_diff mo a b \<le> d)"
proof (cases ts)
  case (Cons t us)
  have "fits mo d ts \<longleftrightarrow>
      (\<forall>a \<in> as_duration mo ` set ts. \<forall>b \<in> as_duration mo ` set ts. a - b \<le> d)"
    using Cons spread_le [of "as_duration mo t" "map (as_duration mo) us" d]
    by (simp add: fits_def fold_min_dur [OF assms] fold_max_dur [OF assms])
  also have "\<dots> \<longleftrightarrow> (\<forall>a \<in> set ts. \<forall>b \<in> set ts. mono_abs_diff mo a b \<le> d)"
  proof -
    have "mono_abs_diff mo a b \<le> d \<longleftrightarrow> as_duration mo a - as_duration mo b \<le> d \<and>
        as_duration mo b - as_duration mo a \<le> d" for a b
      unfolding monotonic.abs_diff_dur [OF assms] by linarith
    then show ?thesis by auto
  qed
  finally show ?thesis .
qed (simp add: fits_def)

theorem fits_iff_witness:
  "fits duration_clock 10 [7, 3, 12] \<and> \<not> fits duration_clock 8 [7, 3, 12]"
  using fits_iff [OF duration_clock_monotonic, of 10 "[7, 3, 12]"]
    fits_iff [OF duration_clock_monotonic, of 8 "[7, 3, 12]"] by simp

end
