(* ===== verification/Ordered_Map.thy ===== *)
theory Ordered_Map
  imports Prelude
begin

text \<open>
  The \<open>BTreeMap\<close> of the standard library as the list of its entries in the order of the keys, with
  the operations that \<open>src/src/event_map.rs\<close> and \<open>src/src/system.rs\<close> use.
\<close>

section \<open>The ordered map\<close>

fun bt_insert :: "'k::linorder \<Rightarrow> 'v \<Rightarrow> ('k \<times> 'v) list \<Rightarrow> ('k \<times> 'v) list" where
  "bt_insert k v [] = [(k, v)]"
| "bt_insert k v ((k', v') # xs) =
     (if k < k' then (k, v) # (k', v') # xs
      else if k = k' then (k, v) # xs
      else (k', v') # bt_insert k v xs)"

definition bt_wf :: "('k::linorder \<times> 'v) list \<Rightarrow> bool" where
  [inv_defs]: "bt_wf xs \<longleftrightarrow> sorted_wrt (<) (map fst xs)"

text \<open>\<open>range(..=key).next_back()\<close>, \<open>range(key..).next()\<close> and \<open>split_off(&key)\<close>.\<close>

definition bt_last_upto :: "'k::linorder \<Rightarrow> ('k \<times> 'v) list \<Rightarrow> 'k option" where
  "bt_last_upto key xs =
     (case rev (filter (\<lambda>(k, v). k \<le> key) xs) of [] \<Rightarrow> None | (k, v) # _ \<Rightarrow> Some k)"

definition bt_first_from :: "'k::linorder \<Rightarrow> ('k \<times> 'v) list \<Rightarrow> 'k option" where
  "bt_first_from key xs =
     (case filter (\<lambda>(k, v). key \<le> k) xs of [] \<Rightarrow> None | (k, v) # _ \<Rightarrow> Some k)"

definition bt_split_off :: "'k::linorder \<Rightarrow> ('k \<times> 'v) list \<Rightarrow> ('k \<times> 'v) list" where
  "bt_split_off key xs = filter (\<lambda>(k, v). key \<le> k) xs"

section \<open>The ordered map behaves like a map\<close>

lemma set_bt_insert: "fst ` set (bt_insert k v xs) = insert k (fst ` set xs)"
  by (induction k v xs rule: bt_insert.induct) auto

lemma bt_wf_Cons: "bt_wf ((k, v) # xs) \<longleftrightarrow> bt_wf xs \<and> (\<forall>k' \<in> fst ` set xs. k < k')"
  by (auto simp: bt_wf_def)

lemma bt_insert_wf: "bt_wf xs \<Longrightarrow> bt_wf (bt_insert k v xs)"
proof (induction k v xs rule: bt_insert.induct)
  case (2 k v k' v' xs)
  then show ?case by (auto simp: bt_wf_Cons set_bt_insert simp del: image_iff)
qed (simp add: bt_wf_def)

lemma bt_wf_distinct: "bt_wf xs \<Longrightarrow> distinct (map fst xs)"
proof (induction xs)
  case (Cons x xs)
  then show ?case by (cases x) (force simp: bt_wf_Cons)
qed simp

lemma bt_insert_map_of: "bt_wf xs \<Longrightarrow> map_of (bt_insert k v xs) = (map_of xs)(k \<mapsto> v)"
  by (induction k v xs rule: bt_insert.induct) (auto simp: bt_wf_def fun_eq_iff)

lemma bt_filter_wf: "bt_wf xs \<Longrightarrow> bt_wf (filter P xs)"
  by (induction xs) (auto simp: bt_wf_def)

lemma map_of_filter_key: "map_of (filter (\<lambda>(k, v). P k) xs) k = (if P k then map_of xs k else None)"
  by (induction xs) auto

lemma bt_split_off_map_of: "map_of (bt_split_off key xs) = map_of xs |` {key..}"
  by (simp add: bt_split_off_def map_of_filter_key restrict_map_def fun_eq_iff)

lemma bt_first_from_Some:
  assumes "bt_wf xs" and "bt_first_from key xs = Some u"
  shows "u \<in> fst ` set xs \<and> key \<le> u \<and> (\<forall>k \<in> fst ` set xs. key \<le> k \<longrightarrow> u \<le> k)"
  using assms
proof (induction xs)
  case (Cons x xs)
  obtain k v where x: "x = (k, v)" by (cases x)
  show ?case
  proof (cases "key \<le> k")
    case True
    with Cons.prems x show ?thesis by (auto simp: bt_first_from_def bt_wf_Cons less_imp_le)
  next
    case False
    with Cons x show ?thesis by (auto simp: bt_first_from_def bt_wf_Cons)
  qed
qed (simp add: bt_first_from_def)

lemma bt_first_from_None: "bt_first_from key xs = None \<Longrightarrow> k \<in> fst ` set xs \<Longrightarrow> k < key"
  by (auto simp: bt_first_from_def filter_empty_conv not_le split: list.splits)

lemma bt_last_upto_append:
  "bt_last_upto key (xs @ [(k, v)]) = (if k \<le> key then Some k else bt_last_upto key xs)"
  by (simp add: bt_last_upto_def)

lemma bt_wf_snoc: "bt_wf (xs @ [(k, v)]) \<longleftrightarrow> bt_wf xs \<and> (\<forall>k' \<in> fst ` set xs. k' < k)"
  by (auto simp: bt_wf_def sorted_wrt_append)

lemma bt_last_upto_Some:
  assumes "bt_wf xs" and "bt_last_upto key xs = Some l"
  shows "l \<in> fst ` set xs \<and> l \<le> key \<and> (\<forall>k \<in> fst ` set xs. k \<le> key \<longrightarrow> k \<le> l)"
  using assms
proof (induction xs rule: rev_induct)
  case (snoc x xs)
  obtain k v where x: "x = (k, v)" by (cases x)
  with snoc show ?case
    by (auto simp: bt_last_upto_append bt_wf_snoc less_imp_le split: if_splits)
qed (simp add: bt_last_upto_def)

lemma bt_last_upto_None: "bt_last_upto key xs = None \<Longrightarrow> k \<in> fst ` set xs \<Longrightarrow> key < k"
  by (auto simp: bt_last_upto_def filter_empty_conv not_le split: list.splits)

end
