(* ===== verification/Event_Map.thy ===== *)
theory Event_Map
  imports Ordered_Map
begin

text \<open>
  The event map of \<open>src/src/event_map.rs\<close>: a \<open>BTreeMap\<close> from key points to events, kept as the
  list of its entries in the order of the keys, and a limit on the distance of an answer. The
  subtraction of the key type is a parameter; it returns \<open>None\<close> where the type's operator panics
  (an unsigned difference below zero).
\<close>

section \<open>The event map\<close>

record ('k, 'v, 'd) event_map =
  em_data :: "('k \<times> 'v) list"
  max_delta :: "'d option"

record ('k, 'v, 'd) event_value =
  ev_key :: 'k
  ev_value :: 'v
  ev_delta :: 'd

record ('k, 'd) event_key =
  ek_key :: 'k
  ek_delta :: 'd

definition event_map_new :: "('k, 'v, 'd) event_map" where
  "event_map_new = \<lparr> em_data = [], max_delta = None \<rparr>"

definition with_max_delta :: "'d \<Rightarrow> ('k, 'v, 'd) event_map \<Rightarrow> ('k, 'v, 'd) event_map" where
  "with_max_delta d m = m\<lparr> max_delta := Some d \<rparr>"

definition em_insert :: "'k::linorder \<Rightarrow> 'v \<Rightarrow> ('k, 'v, 'd) event_map \<Rightarrow> ('k, 'v, 'd) event_map" where
  [op_defs]: "em_insert k v m = m\<lparr> em_data := bt_insert k v (em_data m) \<rparr>"

definition clear_all :: "('k, 'v, 'd) event_map \<Rightarrow> ('k, 'v, 'd) event_map" where
  [op_defs]: "clear_all m = m\<lparr> em_data := [] \<rparr>"

definition cleanup :: "'k::linorder \<Rightarrow> ('k, 'v, 'd) event_map \<Rightarrow> ('k, 'v, 'd) event_map" where
  [op_defs]: "cleanup key m = m\<lparr> em_data := bt_split_off key (em_data m) \<rparr>"

text \<open>The nearest key; the outer option is \<open>None\<close> for a panic.\<close>

definition closest_key :: "('k::linorder \<Rightarrow> 'k \<Rightarrow> 'd::ord option) \<Rightarrow> ('k \<times> 'v) list \<Rightarrow> 'k \<Rightarrow>
    ('k, 'd) event_key option option" where
  "closest_key sub xs key =
     (case (bt_last_upto key xs, bt_first_from key xs) of
        (Some l, Some u) \<Rightarrow>
          Option.bind (sub key l) (\<lambda>lower_diff. Option.bind (sub u key) (\<lambda>upper_diff.
            Some (Some (if lower_diff \<le> upper_diff
              then \<lparr> ek_key = l, ek_delta = lower_diff \<rparr>
              else \<lparr> ek_key = u, ek_delta = upper_diff \<rparr>))))
      | (Some l, None) \<Rightarrow> map_option (\<lambda>d. Some \<lparr> ek_key = l, ek_delta = d \<rparr>) (sub key l)
      | (None, Some u) \<Rightarrow> map_option (\<lambda>d. Some \<lparr> ek_key = u, ek_delta = d \<rparr>) (sub u key)
      | (None, None) \<Rightarrow> Some None)"

definition get_closest_to :: "('k::linorder \<Rightarrow> 'k \<Rightarrow> 'd::ord option) \<Rightarrow> ('k, 'v, 'd) event_map \<Rightarrow> 'k \<Rightarrow>
    ('k, 'v, 'd) event_value option option" where
  "get_closest_to sub m key =
     map_option (\<lambda>closest.
       case closest of
         None \<Rightarrow> None
       | Some c \<Rightarrow>
           if (case max_delta m of Some limit \<Rightarrow> limit < ek_delta c | None \<Rightarrow> False) then None
           else map_option (\<lambda>v. \<lparr> ev_key = ek_key c, ev_value = v, ev_delta = ek_delta c \<rparr>)
                  (map_of (em_data m) (ek_key c)))
       (closest_key sub (em_data m) key)"

section \<open>Subtractions that measure a distance\<close>

text \<open>
  What the search relies on: subtracting the smaller key from the larger one does not panic, and
  the difference grows with the distance.
\<close>

locale key_distance =
  fixes sub :: "'k::linorder \<Rightarrow> 'k \<Rightarrow> 'd::linorder option"
  assumes sub_defined: "b \<le> a \<Longrightarrow> \<exists>d. sub a b = Some d"
    and sub_lower: "b \<le> b' \<Longrightarrow> b' \<le> a \<Longrightarrow> sub a b = Some d \<Longrightarrow> sub a b' = Some d' \<Longrightarrow> d' \<le> d"
    and sub_upper: "a \<le> b \<Longrightarrow> b \<le> b' \<Longrightarrow> sub b a = Some d \<Longrightarrow> sub b' a = Some d' \<Longrightarrow> d \<le> d'"
begin

definition dist :: "'k \<Rightarrow> 'k \<Rightarrow> 'd" where
  "dist key k = the (if k \<le> key then sub key k else sub k key)"

lemma dist_lower: "k \<le> key \<Longrightarrow> sub key k = Some (dist key k)"
  using sub_defined [of k key] by (auto simp: dist_def)

lemma dist_upper: "key \<le> k \<Longrightarrow> sub k key = Some (dist key k)"
  using sub_defined [of key k] by (cases "k = key") (auto simp: dist_def)

lemma dist_mono_lower: "k \<le> k' \<Longrightarrow> k' \<le> key \<Longrightarrow> dist key k' \<le> dist key k"
  using sub_lower [of k k' key] dist_lower [of k key] dist_lower [of k' key] by auto

lemma dist_mono_upper: "key \<le> k' \<Longrightarrow> k' \<le> k \<Longrightarrow> dist key k' \<le> dist key k"
  using sub_upper [of key k' k] dist_upper [of key k] dist_upper [of key k'] by auto

lemma closest_key_spec:
  assumes "bt_wf xs"
  shows "\<exists>r. closest_key sub xs key = Some r \<and>
    (case r of
       None \<Rightarrow> xs = []
     | Some c \<Rightarrow> ek_key c \<in> fst ` set xs \<and> ek_delta c = dist key (ek_key c) \<and>
         (\<forall>k \<in> fst ` set xs. dist key (ek_key c) \<le> dist key k) \<and>
         (\<forall>k \<in> fst ` set xs. key < ek_key c \<and> k \<le> key \<longrightarrow> dist key (ek_key c) < dist key k))"
proof (cases "bt_last_upto key xs")
  case None
  note low = bt_last_upto_None [OF None]
  show ?thesis
  proof (cases "bt_first_from key xs")
    case none: None
    have "xs = []" using low bt_first_from_None [OF none] by (cases xs) fastforce+
    with None none show ?thesis by (simp add: closest_key_def)
  next
    case (Some u)
    note up = bt_first_from_Some [OF assms Some]
    have "\<forall>k \<in> fst ` set xs. dist key u \<le> dist key k"
      using up low dist_mono_upper by (meson less_imp_le)
    moreover have "closest_key sub xs key = Some (Some \<lparr> ek_key = u, ek_delta = dist key u \<rparr>)"
      using None Some up dist_upper [of key u] by (simp add: closest_key_def)
    moreover have "\<not> k \<le> key" if "k \<in> fst ` set xs" for k using low [OF that] by simp
    ultimately show ?thesis using up by (auto simp del: image_iff)
  qed
next
  case l: (Some l)
  note low = bt_last_upto_Some [OF assms l]
  show ?thesis
  proof (cases "bt_first_from key xs")
    case None
    have "\<forall>k \<in> fst ` set xs. dist key l \<le> dist key k"
      using low bt_first_from_None [OF None] dist_mono_lower by (meson less_imp_le)
    moreover have "closest_key sub xs key = Some (Some \<lparr> ek_key = l, ek_delta = dist key l \<rparr>)"
      using None l low dist_lower [of l key] by (simp add: closest_key_def)
    ultimately show ?thesis using low by (auto simp del: image_iff)
  next
    case (Some u)
    note up = bt_first_from_Some [OF assms Some]
    have near: "dist key l \<le> dist key k \<or> dist key u \<le> dist key k" if "k \<in> fst ` set xs" for k
      using that low up dist_mono_lower [of k l key] dist_mono_upper [of key u k] by (meson linear)
    have lower: "dist key l \<le> dist key k" if "k \<in> fst ` set xs" "k \<le> key" for k
      using that low dist_mono_lower [of k l key] by blast
    let ?c = "if dist key l \<le> dist key u then \<lparr> ek_key = l, ek_delta = dist key l \<rparr>
      else \<lparr> ek_key = u, ek_delta = dist key u \<rparr>"
    have "closest_key sub xs key = Some (Some ?c)"
      using l Some low up dist_lower [of l key] dist_upper [of key u] by (simp add: closest_key_def)
    moreover have "dist key (ek_key ?c) \<le> dist key k" if "k \<in> fst ` set xs" for k
      using near [OF that] by (auto intro: order_trans)
    moreover have "dist key (ek_key ?c) < dist key k"
      if "k \<in> fst ` set xs" "key < ek_key ?c" "k \<le> key" for k
      using lower [OF that(1,3)] that(2) low by (auto split: if_splits)
    ultimately show ?thesis using low up by auto
  qed
qed

lemma get_closest_spec:
  assumes "bt_wf (em_data m)"
  shows "\<exists>r. get_closest_to sub m key = Some r \<and>
    (case r of
       None \<Rightarrow> \<forall>k \<in> dom (map_of (em_data m)). \<exists>limit. max_delta m = Some limit \<and> limit < dist key k
     | Some ev \<Rightarrow> map_of (em_data m) (ev_key ev) = Some (ev_value ev) \<and>
         ev_delta ev = dist key (ev_key ev) \<and>
         (\<forall>limit. max_delta m = Some limit \<longrightarrow> ev_delta ev \<le> limit) \<and>
         (\<forall>k \<in> dom (map_of (em_data m)). ev_delta ev \<le> dist key k \<and>
            (key < ev_key ev \<and> k \<le> key \<longrightarrow> ev_delta ev < dist key k)))"
proof -
  obtain r where r: "closest_key sub (em_data m) key = Some r"
    and spec: "case r of None \<Rightarrow> em_data m = []
     | Some c \<Rightarrow> ek_key c \<in> fst ` set (em_data m) \<and> ek_delta c = dist key (ek_key c) \<and>
         (\<forall>k \<in> fst ` set (em_data m). dist key (ek_key c) \<le> dist key k) \<and>
         (\<forall>k \<in> fst ` set (em_data m). key < ek_key c \<and> k \<le> key \<longrightarrow> dist key (ek_key c) < dist key k)"
    using closest_key_spec [OF assms, of key] by blast
  show ?thesis
  proof (cases r)
    case None
    with r spec show ?thesis by (simp add: get_closest_to_def)
  next
    case (Some c)
    with spec obtain v where v: "map_of (em_data m) (ek_key c) = Some v"
      by (auto simp: dom_map_of_conv_image_fst [symmetric])
    show ?thesis
    proof (cases "\<exists>limit. max_delta m = Some limit \<and> limit < ek_delta c")
      case True
      with r Some spec show ?thesis
        by (auto simp: get_closest_to_def dom_map_of_conv_image_fst intro: less_le_trans)
    next
      case False
      with r Some spec v show ?thesis
        by (auto simp: get_closest_to_def dom_map_of_conv_image_fst not_less split: option.split)
    qed
  qed
qed

end

text \<open>Unsigned keys, whose subtraction panics below zero, and signed ones.\<close>

definition unsigned_sub :: "nat \<Rightarrow> nat \<Rightarrow> nat option" where
  "unsigned_sub a b = (if b \<le> a then Some (a - b) else None)"

definition signed_sub :: "int \<Rightarrow> int \<Rightarrow> int option" where
  "signed_sub a b = Some (a - b)"

interpretation unsigned: key_distance unsigned_sub
  by unfold_locales (auto simp: unsigned_sub_def split: if_splits)

interpretation signed: key_distance signed_sub
  by unfold_locales (auto simp: signed_sub_def)

lemma unsigned_dist: "unsigned.dist key k = (key - k) + (k - key)"
  by (simp add: unsigned.dist_def unsigned_sub_def)

section \<open>Properties\<close>

definition sample_map :: "(nat, string, nat) event_map" where
  "sample_map = with_max_delta 3 (em_insert 7 ''d'' (em_insert 1 ''a'' (em_insert 3 ''b'' event_map_new)))"

lemma sample_map_wf: "bt_wf (em_data sample_map)"
  by (simp add: sample_map_def with_max_delta_def op_defs event_map_new_def bt_wf_def)

text \<open>
  C23: the search never panics on unsigned keys, on either side of the requested point, and is
  exact: it returns a stored event with its true distance, within the limit, such that no event is
  nearer and none before the point is as near unless the answer itself is not after it; and it
  returns nothing just when every stored event is beyond the limit.
\<close>

theorem event_map_closest:
  fixes m :: "(nat, 'v, nat) event_map"
  assumes "bt_wf (em_data m)"
  shows "\<exists>r. get_closest_to unsigned_sub m key = Some r \<and>
    (case r of
       None \<Rightarrow> \<forall>k \<in> dom (map_of (em_data m)).
         \<exists>limit. max_delta m = Some limit \<and> limit < (key - k) + (k - key)
     | Some ev \<Rightarrow> map_of (em_data m) (ev_key ev) = Some (ev_value ev) \<and>
         ev_delta ev = (key - ev_key ev) + (ev_key ev - key) \<and>
         (\<forall>limit. max_delta m = Some limit \<longrightarrow> ev_delta ev \<le> limit) \<and>
         (\<forall>k \<in> dom (map_of (em_data m)). ev_delta ev \<le> (key - k) + (k - key) \<and>
            (key < ev_key ev \<and> k \<le> key \<longrightarrow> ev_delta ev < (key - k) + (k - key))))"
  using unsigned.get_closest_spec [OF assms, of key] unfolding unsigned_dist .

theorem event_map_closest_witness:
  "get_closest_to unsigned_sub sample_map 5 = Some (Some \<lparr> ev_key = 3, ev_value = ''b'', ev_delta = 2 \<rparr>) \<and>
   get_closest_to unsigned_sub sample_map 11 = Some None \<and>
   map_of (em_data sample_map) 7 = Some ''d'' \<and> 3 < (11 - 7) + (7 - 11 :: nat)"
proof -
  have r: "get_closest_to unsigned_sub sample_map 5 = Some (Some \<lparr> ev_key = 3, ev_value = ''b'', ev_delta = 2 \<rparr>)"
    "get_closest_to unsigned_sub sample_map 11 = Some None" "max_delta sample_map = Some 3"
    "map_of (em_data sample_map) 7 = Some ''d''"
    by code_simp+
  from event_map_closest [OF sample_map_wf, of 11] r(2,3)
  have "\<forall>k \<in> dom (map_of (em_data sample_map)). 3 < (11 - k) + (k - 11 :: nat)" by simp
  then have "3 < (11 - 7) + (7 - 11 :: nat)" using r(4) by (rule bspec [OF _ domI])
  with r show ?thesis by blast
qed

text \<open>
  An event just inserted is found at its own key point with distance zero, whatever the limit
  and the other events are; and the map stays in the order of its keys.
\<close>

theorem event_map_insert_get:
  fixes m :: "(nat, 'v, nat) event_map"
  assumes "bt_wf (em_data m)"
  shows "get_closest_to unsigned_sub (em_insert k v m) k =
      Some (Some \<lparr> ev_key = k, ev_value = v, ev_delta = 0 \<rparr>) \<and> bt_wf (em_data (em_insert k v m))"
proof -
  have wf: "bt_wf (em_data (em_insert k v m))" using assms by (simp add: em_insert_def bt_insert_wf)
  have k: "map_of (em_data (em_insert k v m)) k = Some v"
    using assms by (simp add: em_insert_def bt_insert_map_of)
  then have dom: "k \<in> dom (map_of (em_data (em_insert k v m)))" by blast
  obtain r where r: "get_closest_to unsigned_sub (em_insert k v m) k = Some r"
    and spec: "case r of
       None \<Rightarrow> \<forall>k' \<in> dom (map_of (em_data (em_insert k v m))). \<exists>limit.
         max_delta (em_insert k v m) = Some limit \<and> limit < unsigned.dist k k'
     | Some ev \<Rightarrow> map_of (em_data (em_insert k v m)) (ev_key ev) = Some (ev_value ev) \<and>
         ev_delta ev = unsigned.dist k (ev_key ev) \<and>
         (\<forall>limit. max_delta (em_insert k v m) = Some limit \<longrightarrow> ev_delta ev \<le> limit) \<and>
         (\<forall>k' \<in> dom (map_of (em_data (em_insert k v m))). ev_delta ev \<le> unsigned.dist k k' \<and>
           (k < ev_key ev \<and> k' \<le> k \<longrightarrow> ev_delta ev < unsigned.dist k k'))"
    using unsigned.get_closest_spec [OF wf, of k] by blast
  show ?thesis
  proof (cases r)
    case None
    with spec have "\<forall>k' \<in> dom (map_of (em_data (em_insert k v m))). \<exists>limit.
      max_delta (em_insert k v m) = Some limit \<and> limit < unsigned.dist k k'" by simp
    from bspec [OF this dom] show ?thesis by (simp add: unsigned_dist)
  next
    case (Some ev)
    with spec dom have "ev_delta ev = unsigned.dist k (ev_key ev)" "ev_delta ev \<le> unsigned.dist k k"
      by auto
    then have "ev_delta ev = 0" "ev_key ev = k" by (simp_all add: unsigned_dist)
    with Some spec k have "ev = \<lparr> ev_key = k, ev_value = v, ev_delta = 0 \<rparr>" by (cases ev) simp
    with r Some wf show ?thesis by simp
  qed
qed

theorem event_map_insert_get_witness:
  "get_closest_to unsigned_sub (em_insert 5 ''c'' sample_map) 5 =
     Some (Some \<lparr> ev_key = 5, ev_value = ''c'', ev_delta = 0 \<rparr>)"
  using event_map_insert_get [OF sample_map_wf, of 5 "''c''"] by simp

text \<open>Clean-up keeps the events from the key point on, and nothing else changes the others.\<close>

lemma event_map_updates:
  "bt_wf (em_data m) \<Longrightarrow> map_of (em_data (em_insert k v m)) = (map_of (em_data m))(k \<mapsto> v)"
  "map_of (em_data (cleanup key m)) = map_of (em_data m) |` {key..}"
  "bt_wf (em_data m) \<Longrightarrow> bt_wf (em_data (cleanup key m))" "bt_wf (em_data (clear_all m))"
  by (simp_all add: op_defs bt_insert_map_of bt_split_off_map_of)
    (simp_all add: bt_split_off_def bt_filter_wf, simp add: bt_wf_def)

end
