(* ===== verification/Base_Channel_Async.thy ===== *)
theory Base_Channel_Async
  imports Channel_Storage Monitor "HOL-Library.AList"
begin

text \<open>
  The asynchronous channel of \<open>src/src/base_channel_async.rs\<close>. Besides the queue and the handle
  counters the mutex guards, for each side, a queue of wakers: of futures that wait (with the
  waker to call), and of blocked threads (\<open>None\<close>), which sleep on a condition variable. A poll of a
  future is a critical section, as every other operation; so the channel is code for the monitor
  theory again, whose state also holds the futures the clients have created.
\<close>

section \<open>State\<close>

type_synonym client_id = nat
type_synonym waker = nat

datatype async_cv = Data_Available | Space_Available

record 's async_inner =
  a_queue :: 's
  a_senders :: usize
  a_receivers :: usize
  send_fut_wakers :: "(waker \<times> client_id) option list"
  send_fut_waker_ids :: "client_id set"
  send_fut_pending :: "client_id set"
  recv_fut_wakers :: "(waker \<times> client_id) option list"
  recv_fut_waker_ids :: "client_id set"
  recv_fut_pending :: "client_id set"

definition async_inner_new :: "('e, 'a, 's) channel_storage \<Rightarrow> usize \<Rightarrow> bool \<Rightarrow> 's async_inner option" where
  "async_inner_new st capacity ordr =
     (if capacity = 0 then None
      else map_option (\<lambda>q. \<lparr> a_queue = q, a_senders = 1, a_receivers = 1,
             send_fut_wakers = [], send_fut_waker_ids = {}, send_fut_pending = {},
             recv_fut_wakers = [], recv_fut_waker_ids = {}, recv_fut_pending = {} \<rparr>)
             (cs_with_capacity_and_ordering st capacity ordr))"

section \<open>Wakers\<close>

named_theorems waker_defs \<open>definitions of the operations on wakers\<close>

text \<open>What an operation does besides changing the state: call a waker, notify a condition variable.\<close>

datatype effect = Wake waker | Notify "async_cv signal"

definition wake_next_send :: "'s async_inner \<Rightarrow> 's async_inner \<times> effect list" where
  [waker_defs]: "wake_next_send d =
     (case send_fut_wakers d of
        [] \<Rightarrow> (d, [])
      | Some (waker, cid) # ws \<Rightarrow>
          (d\<lparr> send_fut_wakers := ws, send_fut_waker_ids := send_fut_waker_ids d - {cid},
              send_fut_pending := insert cid (send_fut_pending d) \<rparr>, [Wake waker])
      | None # ws \<Rightarrow> (d\<lparr> send_fut_wakers := ws \<rparr>, [Notify (Notify_One Space_Available)]))"

definition wake_all_sends :: "'s async_inner \<Rightarrow> 's async_inner \<times> effect list" where
  [waker_defs]: "wake_all_sends d =
     (d\<lparr> send_fut_waker_ids := {}, send_fut_wakers := [] \<rparr>,
      map (\<lambda>(waker, cid). Wake waker) (List.map_filter (\<lambda>w. w) (send_fut_wakers d)) @
        [Notify (Notify_All Space_Available)])"

text \<open>\<open>position\<close> and \<open>remove\<close>: the first entry of the client goes.\<close>

fun remove_waker :: "client_id \<Rightarrow> (waker \<times> client_id) option list \<Rightarrow>
    (waker \<times> client_id) option list option" where
  "remove_waker cid [] = None"
| "remove_waker cid (w # ws) =
     (if (case w of Some (_, i) \<Rightarrow> i = cid | None \<Rightarrow> False) then Some ws
      else map_option (\<lambda>ws'. w # ws') (remove_waker cid ws))"

definition notify_send_fut_drop :: "client_id \<Rightarrow> 's async_inner \<Rightarrow> 's async_inner \<times> effect list" where
  [waker_defs]: "notify_send_fut_drop cid d0 =
     (let d = (case remove_waker cid (send_fut_wakers d0) of
                 Some ws \<Rightarrow> d0\<lparr> send_fut_wakers := ws,
                                send_fut_waker_ids := send_fut_waker_ids d0 - {cid} \<rparr>
               | None \<Rightarrow> d0)
      in if cid \<in> send_fut_pending d
         then wake_next_send (d\<lparr> send_fut_pending := send_fut_pending d - {cid} \<rparr>)
         else (d, []))"

definition confirm_send_fut_waked :: "client_id \<Rightarrow> 's async_inner \<Rightarrow> 's async_inner" where
  [waker_defs]: "confirm_send_fut_waked cid d = d\<lparr> send_fut_pending := send_fut_pending d - {cid} \<rparr>"

definition append_send_fut_waker :: "waker \<Rightarrow> client_id \<Rightarrow> 's async_inner \<Rightarrow> 's async_inner" where
  [waker_defs]: "append_send_fut_waker waker cid d =
     (if cid \<in> send_fut_waker_ids d then d
      else d\<lparr> send_fut_waker_ids := insert cid (send_fut_waker_ids d),
              send_fut_wakers := send_fut_wakers d @ [Some (waker, cid)] \<rparr>)"

definition append_send_sync_waker :: "'s async_inner \<Rightarrow> 's async_inner" where
  [waker_defs]: "append_send_sync_waker d = d\<lparr> send_fut_wakers := send_fut_wakers d @ [None] \<rparr>"

definition wake_next_recv :: "'s async_inner \<Rightarrow> 's async_inner \<times> effect list" where
  [waker_defs]: "wake_next_recv d =
     (case recv_fut_wakers d of
        [] \<Rightarrow> (d, [])
      | Some (waker, cid) # ws \<Rightarrow>
          (d\<lparr> recv_fut_wakers := ws, recv_fut_pending := insert cid (recv_fut_pending d),
              recv_fut_waker_ids := recv_fut_waker_ids d - {cid} \<rparr>, [Wake waker])
      | None # ws \<Rightarrow> (d\<lparr> recv_fut_wakers := ws \<rparr>, [Notify (Notify_One Data_Available)]))"

definition wake_all_recvs :: "'s async_inner \<Rightarrow> 's async_inner \<times> effect list" where
  [waker_defs]: "wake_all_recvs d =
     (d\<lparr> recv_fut_wakers := [], recv_fut_waker_ids := {} \<rparr>,
      map (\<lambda>(waker, cid). Wake waker) (List.map_filter (\<lambda>w. w) (recv_fut_wakers d)) @
        [Notify (Notify_All Data_Available)])"

definition notify_recv_fut_drop :: "client_id \<Rightarrow> 's async_inner \<Rightarrow> 's async_inner \<times> effect list" where
  [waker_defs]: "notify_recv_fut_drop cid d0 =
     (let d = (case remove_waker cid (recv_fut_wakers d0) of
                 Some ws \<Rightarrow> d0\<lparr> recv_fut_wakers := ws,
                                recv_fut_waker_ids := recv_fut_waker_ids d0 - {cid} \<rparr>
               | None \<Rightarrow> d0)
      in if cid \<in> recv_fut_pending d
         then wake_next_recv (d\<lparr> recv_fut_pending := recv_fut_pending d - {cid} \<rparr>)
         else (d, []))"

definition confirm_recv_fut_waked :: "client_id \<Rightarrow> 's async_inner \<Rightarrow> 's async_inner" where
  [waker_defs]: "confirm_recv_fut_waked cid d = d\<lparr> recv_fut_pending := recv_fut_pending d - {cid} \<rparr>"

definition append_recv_fut_waker :: "waker \<Rightarrow> client_id \<Rightarrow> 's async_inner \<Rightarrow> 's async_inner" where
  [waker_defs]: "append_recv_fut_waker waker cid d =
     (if cid \<in> recv_fut_waker_ids d then d
      else d\<lparr> recv_fut_waker_ids := insert cid (recv_fut_waker_ids d),
              recv_fut_wakers := recv_fut_wakers d @ [Some (waker, cid)] \<rparr>)"

definition append_recv_sync_waker :: "'s async_inner \<Rightarrow> 's async_inner" where
  [waker_defs]: "append_recv_sync_waker d = d\<lparr> recv_fut_wakers := recv_fut_wakers d @ [None] \<rparr>"

section \<open>Futures\<close>

record 'a send_future =
  sf_queued :: bool
  sf_value :: "'a option"

record recv_future =
  rf_queued :: bool

text \<open>
  A poll gives the inner data, the effects, and either the result (the future is done) or the
  future's new state (pending); \<open>None\<close> is a panic, \<open>unwrap\<close> of a missing value.
\<close>

definition poll_send :: "('e, 'a, 's) channel_storage \<Rightarrow> 'e \<Rightarrow> waker \<Rightarrow> client_id \<Rightarrow> 'a send_future \<Rightarrow>
    's async_inner \<Rightarrow> ('s async_inner \<times> effect list \<times> (unit result + 'a send_future)) option" where
  [op_defs]: "poll_send st e waker cid f d0 =
     (let d = (if sf_queued f then confirm_send_fut_waked cid d0 else d0) in
      if a_receivers d = 0 then Some (d, [], Inl (Inl ChannelClosed))
      else if send_fut_wakers d = [] \<or> sf_queued f then
        (case sf_value f of
           None \<Rightarrow> None
         | Some value \<Rightarrow>
             (case cs_try_push st e (a_queue d) value of
                None \<Rightarrow> None
              | Some (q, Full val) \<Rightarrow>
                  Some (append_send_fut_waker waker cid (d\<lparr> a_queue := q \<rparr>), [],
                        Inr \<lparr> sf_queued = True, sf_value = Some val \<rparr>)
              | Some (q, Pushed) \<Rightarrow>
                  (let (d', effs) = wake_next_recv (d\<lparr> a_queue := q \<rparr>) in Some (d', effs, Inl (Inr ())))
              | Some (q, Skipped) \<Rightarrow> Some (d\<lparr> a_queue := q \<rparr>, [], Inl (Inl ChannelSkipped))))
      else Some (append_send_fut_waker waker cid d, [], Inr (f\<lparr> sf_queued := True \<rparr>)))"

definition poll_recv :: "('e, 'a, 's) channel_storage \<Rightarrow> 'e \<Rightarrow> waker \<Rightarrow> client_id \<Rightarrow> recv_future \<Rightarrow>
    's async_inner \<Rightarrow> 's async_inner \<times> effect list \<times> ('a result + recv_future)" where
  [op_defs]: "poll_recv st e waker cid f d0 =
     (let d = (if rf_queued f then confirm_recv_fut_waked cid d0 else d0) in
      if recv_fut_wakers d = [] \<or> rf_queued f then
        (case cs_get st e (a_queue d) of
           (q, Some val) \<Rightarrow>
             (let (d', effs) = wake_next_send (d\<lparr> a_queue := q \<rparr>) in (d', effs, Inl (Inr val)))
         | (q, None) \<Rightarrow>
             if a_senders d = 0 then (d\<lparr> a_queue := q \<rparr>, [], Inl (Inl ChannelClosed))
             else (append_recv_fut_waker waker cid (d\<lparr> a_queue := q \<rparr>), [],
                   Inr \<lparr> rf_queued = True \<rparr>))
      else (append_recv_fut_waker waker cid d, [], Inr \<lparr> rf_queued = True \<rparr>))"

section \<open>Operations of senders and receivers\<close>

text \<open>
  \<open>A_Send\<close> and \<open>A_Recv\<close> create a future; it is then polled by its task, with the waker of the poll,
  and dropped. A future that is done is dropped at once, which does nothing then, as it is not
  queued any more.
\<close>

datatype 'a async_op =
    A_Send 'a | Poll_Send client_id waker | Drop_Send client_id
  | A_Try_Send 'a | Send_Blocking 'a | Send_Blocking_Timeout 'a
  | A_Recv | Poll_Recv client_id waker | Drop_Recv client_id
  | A_Try_Recv | Recv_Blocking | Recv_Blocking_Timeout
  | A_Clone_Sender | A_Drop_Sender | A_Clone_Receiver | A_Drop_Receiver
  | A_Len | A_Is_Full | A_Is_Empty | A_Sender_Is_Alive | A_Receiver_Is_Alive

datatype 'a async_result =
    AR_Unit "unit result" | AR_Value "'a result" | AR_Future client_id | AR_Pending
  | AR_Len usize | AR_Bool bool | AR_Done

type_synonym ('a, 's) async_inner_stretch =
  "'s async_inner \<times> effect list \<times> ('a async_op, async_cv, 'a async_result) outcome"

definition async_try_send :: "('e, 'a, 's) channel_storage \<Rightarrow> 'e \<Rightarrow> 'a \<Rightarrow> 's async_inner \<Rightarrow>
    ('a, 's) async_inner_stretch" where
  [op_defs]: "async_try_send st e value d =
     (if a_receivers d = 0 then (d, [], Return (AR_Unit (Inl ChannelClosed)))
      else (case cs_try_push st e (a_queue d) value of
          None \<Rightarrow> (d, [], Panic)
        | Some (q, Pushed) \<Rightarrow>
            (let (d', effs) = wake_next_recv (d\<lparr> a_queue := q \<rparr>) in
             (d', effs, Return (AR_Unit (Inr ()))))
        | Some (q, Skipped) \<Rightarrow> (d\<lparr> a_queue := q \<rparr>, [], Return (AR_Unit (Inl ChannelSkipped)))
        | Some (q, Full val) \<Rightarrow> (d\<lparr> a_queue := q \<rparr>, [], Return (AR_Unit (Inl ChannelFull)))))"

definition send_blocking :: "('e, 'a, 's) channel_storage \<Rightarrow> 'e \<Rightarrow> 'a \<Rightarrow> 's async_inner \<Rightarrow>
    ('a, 's) async_inner_stretch" where
  [op_defs]: "send_blocking st e value d =
     (if a_receivers d = 0 then (d, [], Return (AR_Unit (Inl ChannelClosed)))
      else (case cs_try_push st e (a_queue d) value of
          None \<Rightarrow> (d, [], Panic)
        | Some (q, Full val) \<Rightarrow>
            (append_send_sync_waker (d\<lparr> a_queue := q \<rparr>), [],
             Wait Space_Available (Send_Blocking val) None)
        | Some (q, Pushed) \<Rightarrow>
            (let (d', effs) = wake_next_recv (d\<lparr> a_queue := q \<rparr>) in
             (d', effs, Return (AR_Unit (Inr ()))))
        | Some (q, Skipped) \<Rightarrow> (d\<lparr> a_queue := q \<rparr>, [], Return (AR_Unit (Inl ChannelSkipped)))))"

text \<open>With a timeout the receivers are notified of a skipped value, too.\<close>

definition send_blocking_timeout :: "('e, 'a, 's) channel_storage \<Rightarrow> 'e \<Rightarrow> 'a \<Rightarrow> 's async_inner \<Rightarrow>
    ('a, 's) async_inner_stretch" where
  [op_defs]: "send_blocking_timeout st e value d =
     (if a_receivers d = 0 then (d, [], Return (AR_Unit (Inl ChannelClosed)))
      else (case cs_try_push st e (a_queue d) value of
          None \<Rightarrow> (d, [], Panic)
        | Some (q, Full val) \<Rightarrow>
            (append_send_sync_waker (d\<lparr> a_queue := q \<rparr>), [],
             Wait Space_Available (Send_Blocking_Timeout val) (Some (AR_Unit (Inl Timeout))))
        | Some (q, Pushed) \<Rightarrow>
            (let (d', effs) = wake_next_recv (d\<lparr> a_queue := q \<rparr>) in
             (d', effs, Return (AR_Unit (Inr ()))))
        | Some (q, Skipped) \<Rightarrow>
            (let (d', effs) = wake_next_recv (d\<lparr> a_queue := q \<rparr>) in
             (d', effs, Return (AR_Unit (Inl ChannelSkipped))))))"

definition async_try_recv :: "('e, 'a, 's) channel_storage \<Rightarrow> 'e \<Rightarrow> 's async_inner \<Rightarrow>
    ('a, 's) async_inner_stretch" where
  [op_defs]: "async_try_recv st e d =
     (case cs_get st e (a_queue d) of
        (q, Some val) \<Rightarrow>
          (let (d', effs) = wake_next_send (d\<lparr> a_queue := q \<rparr>) in
           (d', effs, Return (AR_Value (Inr val))))
      | (q, None) \<Rightarrow>
          (d\<lparr> a_queue := q \<rparr>, [],
           Return (AR_Value (Inl (if a_senders d = 0 then ChannelClosed else ChannelEmpty)))))"

definition recv_blocking :: "('e, 'a, 's) channel_storage \<Rightarrow> 'e \<Rightarrow> 's async_inner \<Rightarrow>
    ('a, 's) async_inner_stretch" where
  [op_defs]: "recv_blocking st e d =
     (case cs_get st e (a_queue d) of
        (q, Some val) \<Rightarrow>
          (let (d', effs) = wake_next_send (d\<lparr> a_queue := q \<rparr>) in
           (d', effs, Return (AR_Value (Inr val))))
      | (q, None) \<Rightarrow>
          if a_senders d = 0 then (d\<lparr> a_queue := q \<rparr>, [], Return (AR_Value (Inl ChannelClosed)))
          else (append_recv_sync_waker (d\<lparr> a_queue := q \<rparr>), [],
                Wait Data_Available Recv_Blocking None))"

definition recv_blocking_timeout :: "('e, 'a, 's) channel_storage \<Rightarrow> 'e \<Rightarrow> 's async_inner \<Rightarrow>
    ('a, 's) async_inner_stretch" where
  [op_defs]: "recv_blocking_timeout st e d =
     (case cs_get st e (a_queue d) of
        (q, Some val) \<Rightarrow>
          (let (d', effs) = wake_next_send (d\<lparr> a_queue := q \<rparr>) in
           (d', effs, Return (AR_Value (Inr val))))
      | (q, None) \<Rightarrow>
          if a_senders d = 0 then (d\<lparr> a_queue := q \<rparr>, [], Return (AR_Value (Inl ChannelClosed)))
          else (append_recv_sync_waker (d\<lparr> a_queue := q \<rparr>), [],
                Wait Data_Available Recv_Blocking_Timeout (Some (AR_Value (Inl Timeout)))))"

definition async_sender_clone :: "'s async_inner \<Rightarrow> 's async_inner" where
  [simp]: "async_sender_clone d = d\<lparr> a_senders := a_senders d + 1 \<rparr>"

definition async_receiver_clone :: "'s async_inner \<Rightarrow> 's async_inner" where
  [simp]: "async_receiver_clone d = d\<lparr> a_receivers := a_receivers d + 1 \<rparr>"

definition async_sender_drop :: "'s async_inner \<Rightarrow> ('s async_inner \<times> effect list) option" where
  [op_defs]: "async_sender_drop d =
     (if a_senders d = 0 then None
      else let d' = d\<lparr> a_senders := a_senders d - 1 \<rparr> in
        Some (if a_senders d' = 0 then wake_all_recvs d' else (d', [])))"

definition async_receiver_drop :: "'s async_inner \<Rightarrow> ('s async_inner \<times> effect list) option" where
  [op_defs]: "async_receiver_drop d =
     (if a_receivers d = 0 then None
      else let d' = d\<lparr> a_receivers := a_receivers d - 1 \<rparr> in
        Some (if a_receivers d' = 0 then wake_all_sends d' else (d', [])))"

section \<open>The channel and its clients\<close>

text \<open>
  The shared data of the monitor: the inner data, the counter for the ids of futures, the futures
  that exist (each lives in its task), and, not in the code, the live handles, the tasks whose
  waker was called since they were last polled, and the values that were sent and received so far.
\<close>

record ('a, 's) async_shared =
  a_inner :: "'s async_inner"
  next_op_id :: client_id
  send_futs :: "(client_id \<times> 'a send_future) list"
  recv_futs :: "(client_id \<times> recv_future) list"
  a_tx_live :: nat
  a_rx_live :: nat
  woken_tasks :: "waker list"
  a_sent :: "'a list"
  a_received :: "'a list"

definition make_channel_async :: "('e, 'a, 's) channel_storage \<Rightarrow> usize \<Rightarrow> bool \<Rightarrow>
    ('a, 's) async_shared option" where
  "make_channel_async st capacity ordr =
     map_option (\<lambda>d. \<lparr> a_inner = d, next_op_id = 0, send_futs = [], recv_futs = [],
         a_tx_live = 1, a_rx_live = 1, woken_tasks = [], a_sent = [], a_received = [] \<rparr>)
       (async_inner_new st capacity ordr)"

type_synonym ('a, 's) async_stretch =
  "('a, 's) async_shared \<times> effect list \<times> ('a async_op, async_cv, 'a async_result) outcome"

definition on_inner :: "('a, 's) async_shared \<Rightarrow> ('a, 's) async_inner_stretch \<Rightarrow> ('a, 's) async_stretch" where
  [op_defs]: "on_inner h r = (let (d, effs, out) = r in (h\<lparr> a_inner := d \<rparr>, effs, out))"

definition run_poll_send :: "('e, 'a, 's) channel_storage \<Rightarrow> 'e \<Rightarrow> client_id \<Rightarrow> waker \<Rightarrow>
    ('a, 's) async_shared \<Rightarrow> ('a, 's) async_stretch" where
  [op_defs]: "run_poll_send st e cid waker h =
     (case Option.bind (map_of (send_futs h) cid) (\<lambda>f. poll_send st e waker cid f (a_inner h)) of
        None \<Rightarrow> (h, [], Panic)
      | Some (d, effs, Inl r) \<Rightarrow>
          (h\<lparr> a_inner := d, send_futs := AList.delete cid (send_futs h) \<rparr>, effs, Return (AR_Unit r))
      | Some (d, effs, Inr f) \<Rightarrow>
          (h\<lparr> a_inner := d, send_futs := AList.update cid f (send_futs h) \<rparr>, effs, Return AR_Pending))"

definition run_poll_recv :: "('e, 'a, 's) channel_storage \<Rightarrow> 'e \<Rightarrow> client_id \<Rightarrow> waker \<Rightarrow>
    ('a, 's) async_shared \<Rightarrow> ('a, 's) async_stretch" where
  [op_defs]: "run_poll_recv st e cid waker h =
     (case map_of (recv_futs h) cid of
        None \<Rightarrow> (h, [], Panic)
      | Some f \<Rightarrow>
          (case poll_recv st e waker cid f (a_inner h) of
             (d, effs, Inl r) \<Rightarrow>
               (h\<lparr> a_inner := d, recv_futs := AList.delete cid (recv_futs h) \<rparr>, effs, Return (AR_Value r))
           | (d, effs, Inr f') \<Rightarrow>
               (h\<lparr> a_inner := d, recv_futs := AList.update cid f' (recv_futs h) \<rparr>, effs, Return AR_Pending)))"

definition send_future_drop :: "client_id \<Rightarrow> ('a, 's) async_shared \<Rightarrow> ('a, 's) async_stretch" where
  [op_defs]: "send_future_drop cid h =
     (case map_of (send_futs h) cid of
        None \<Rightarrow> (h, [], Panic)
      | Some f \<Rightarrow>
          (let (d, effs) = (if sf_queued f then notify_send_fut_drop cid (a_inner h) else (a_inner h, []))
           in (h\<lparr> a_inner := d, send_futs := AList.delete cid (send_futs h) \<rparr>, effs, Return AR_Done)))"

definition recv_future_drop :: "client_id \<Rightarrow> ('a, 's) async_shared \<Rightarrow> ('a, 's) async_stretch" where
  [op_defs]: "recv_future_drop cid h =
     (case map_of (recv_futs h) cid of
        None \<Rightarrow> (h, [], Panic)
      | Some f \<Rightarrow>
          (let (d, effs) = (if rf_queued f then notify_recv_fut_drop cid (a_inner h) else (a_inner h, []))
           in (h\<lparr> a_inner := d, recv_futs := AList.delete cid (recv_futs h) \<rparr>, effs, Return AR_Done)))"

definition async_send :: "'a \<Rightarrow> ('a, 's) async_shared \<Rightarrow> ('a, 's) async_stretch" where
  [op_defs]: "async_send value h =
     (h\<lparr> next_op_id := next_op_id h + 1,
         send_futs := AList.update (next_op_id h) \<lparr> sf_queued = False, sf_value = Some value \<rparr> (send_futs h) \<rparr>,
      [], Return (AR_Future (next_op_id h)))"

definition async_recv :: "('a, 's) async_shared \<Rightarrow> ('a, 's) async_stretch" where
  [op_defs]: "async_recv h =
     (h\<lparr> next_op_id := next_op_id h + 1,
         recv_futs := AList.update (next_op_id h) \<lparr> rf_queued = False \<rparr> (recv_futs h) \<rparr>,
      [], Return (AR_Future (next_op_id h)))"

fun async_stretch :: "('e, 'a, 's) channel_storage \<Rightarrow> 'e \<Rightarrow> 'a async_op \<Rightarrow> ('a, 's) async_shared \<Rightarrow>
    ('a, 's) async_stretch" where
  "async_stretch st e (A_Send a) h = async_send a h"
| "async_stretch st e (Poll_Send cid waker) h = run_poll_send st e cid waker h"
| "async_stretch st e (Drop_Send cid) h = send_future_drop cid h"
| "async_stretch st e (A_Try_Send a) h = on_inner h (async_try_send st e a (a_inner h))"
| "async_stretch st e (Send_Blocking a) h = on_inner h (send_blocking st e a (a_inner h))"
| "async_stretch st e (Send_Blocking_Timeout a) h = on_inner h (send_blocking_timeout st e a (a_inner h))"
| "async_stretch st e A_Recv h = async_recv h"
| "async_stretch st e (Poll_Recv cid waker) h = run_poll_recv st e cid waker h"
| "async_stretch st e (Drop_Recv cid) h = recv_future_drop cid h"
| "async_stretch st e A_Try_Recv h = on_inner h (async_try_recv st e (a_inner h))"
| "async_stretch st e Recv_Blocking h = on_inner h (recv_blocking st e (a_inner h))"
| "async_stretch st e Recv_Blocking_Timeout h = on_inner h (recv_blocking_timeout st e (a_inner h))"
| "async_stretch st e A_Clone_Sender h =
     (h\<lparr> a_inner := async_sender_clone (a_inner h), a_tx_live := a_tx_live h + 1 \<rparr>, [], Return AR_Done)"
| "async_stretch st e A_Drop_Sender h =
     (case async_sender_drop (a_inner h) of
        None \<Rightarrow> (h, [], Panic)
      | Some (d, effs) \<Rightarrow> (h\<lparr> a_inner := d, a_tx_live := a_tx_live h - 1 \<rparr>, effs, Return AR_Done))"
| "async_stretch st e A_Clone_Receiver h =
     (h\<lparr> a_inner := async_receiver_clone (a_inner h), a_rx_live := a_rx_live h + 1 \<rparr>, [], Return AR_Done)"
| "async_stretch st e A_Drop_Receiver h =
     (case async_receiver_drop (a_inner h) of
        None \<Rightarrow> (h, [], Panic)
      | Some (d, effs) \<Rightarrow> (h\<lparr> a_inner := d, a_rx_live := a_rx_live h - 1 \<rparr>, effs, Return AR_Done))"
| "async_stretch st e A_Len h = (h, [], Return (AR_Len (cs_len st (a_queue (a_inner h)))))"
| "async_stretch st e A_Is_Full h = (h, [], Return (AR_Bool (cs_is_full st (a_queue (a_inner h)))))"
| "async_stretch st e A_Is_Empty h = (h, [], Return (AR_Bool (cs_is_empty st (a_queue (a_inner h)))))"
| "async_stretch st e A_Sender_Is_Alive h = (h, [], Return (AR_Bool (a_receivers (a_inner h) > 0)))"
| "async_stretch st e A_Receiver_Is_Alive h = (h, [], Return (AR_Bool (a_senders (a_inner h) > 0)))"

text \<open>The records of what was sent and received, and of the wakers that were called.\<close>

fun offered :: "'a async_op \<Rightarrow> ('a, 's) async_shared \<Rightarrow> 'a list" where
  "offered (A_Try_Send a) h = [a]"
| "offered (Send_Blocking a) h = [a]"
| "offered (Send_Blocking_Timeout a) h = [a]"
| "offered (Poll_Send cid waker) h =
     (case map_of (send_futs h) cid of
        Some f \<Rightarrow> (case sf_value f of Some a \<Rightarrow> [a] | None \<Rightarrow> [])
      | None \<Rightarrow> [])"
| "offered _ h = []"

fun log_sent :: "'a list \<Rightarrow> ('a async_op, async_cv, 'a async_result) outcome \<Rightarrow> 'a list" where
  "log_sent xs (Return (AR_Unit (Inr u))) = xs"
| "log_sent xs _ = []"

fun log_received :: "('a async_op, async_cv, 'a async_result) outcome \<Rightarrow> 'a list" where
  "log_received (Return (AR_Value (Inr a))) = [a]"
| "log_received _ = []"

fun polled_task :: "'a async_op \<Rightarrow> waker option" where
  "polled_task (Poll_Send cid waker) = Some waker"
| "polled_task (Poll_Recv cid waker) = Some waker"
| "polled_task _ = None"

fun effect_wakes :: "effect \<Rightarrow> waker list" where
  "effect_wakes (Wake w) = [w]"
| "effect_wakes (Notify s) = []"

fun effect_signals :: "effect \<Rightarrow> async_cv signal list" where
  "effect_signals (Wake w) = []"
| "effect_signals (Notify s) = [s]"

definition async_code :: "('e, 'a, 's) channel_storage \<Rightarrow>
    ('e, ('a, 's) async_shared, 'a async_op, async_cv, 'a async_result) code" where
  "async_code st e op h =
     (let (h', effs, out) = async_stretch st e op h in
      (h'\<lparr> woken_tasks := filter (\<lambda>w. polled_task op \<noteq> Some w) (woken_tasks h) @
             concat (map effect_wakes effs),
           a_sent := a_sent h @ log_sent (offered op h) out,
           a_received := a_received h @ log_received out \<rparr>,
       concat (map effect_signals effs), out))"

fun async_waits_on :: "'a async_op \<Rightarrow> async_cv option" where
  "async_waits_on (Send_Blocking a) = Some Space_Available"
| "async_waits_on (Send_Blocking_Timeout a) = Some Space_Available"
| "async_waits_on Recv_Blocking = Some Data_Available"
| "async_waits_on Recv_Blocking_Timeout = Some Data_Available"
| "async_waits_on _ = None"

type_synonym ('a, 's) async_monitor =
  "(nat, ('a, 's) async_shared, 'a async_op, async_cv, 'a async_result) monitor"

definition blocked_on :: "async_cv \<Rightarrow> ('a, 's) async_monitor \<Rightarrow> bool" where
  "blocked_on cv m \<longleftrightarrow>
     list_ex (\<lambda>w. async_waits_on (w_op w) = Some cv) (asleep m) \<or>
     list_ex (\<lambda>(t, op). async_waits_on op = Some cv) (ready m)"

text \<open>
  A client uses the handles it holds and the futures that exist; the last handle of a side cannot
  be dropped while a future or a blocked thread borrows it.
\<close>

fun async_admits :: "('a, 's) async_monitor \<Rightarrow> 'a async_op \<Rightarrow> bool" where
  "async_admits m (Poll_Send cid waker) \<longleftrightarrow> map_of (send_futs (shared m)) cid \<noteq> None"
| "async_admits m (Drop_Send cid) \<longleftrightarrow> map_of (send_futs (shared m)) cid \<noteq> None"
| "async_admits m (Poll_Recv cid waker) \<longleftrightarrow> map_of (recv_futs (shared m)) cid \<noteq> None"
| "async_admits m (Drop_Recv cid) \<longleftrightarrow> map_of (recv_futs (shared m)) cid \<noteq> None"
| "async_admits m (A_Send a) \<longleftrightarrow> a_tx_live (shared m) > 0"
| "async_admits m (A_Try_Send a) \<longleftrightarrow> a_tx_live (shared m) > 0"
| "async_admits m (Send_Blocking a) \<longleftrightarrow> a_tx_live (shared m) > 0"
| "async_admits m (Send_Blocking_Timeout a) \<longleftrightarrow> a_tx_live (shared m) > 0"
| "async_admits m A_Clone_Sender \<longleftrightarrow> a_tx_live (shared m) > 0"
| "async_admits m A_Sender_Is_Alive \<longleftrightarrow> a_tx_live (shared m) > 0"
| "async_admits m A_Drop_Sender \<longleftrightarrow>
     a_tx_live (shared m) > (if blocked_on Space_Available m \<or> send_futs (shared m) \<noteq> [] then 1 else 0)"
| "async_admits m A_Drop_Receiver \<longleftrightarrow>
     a_rx_live (shared m) > (if blocked_on Data_Available m \<or> recv_futs (shared m) \<noteq> [] then 1 else 0)"
| "async_admits m A_Recv \<longleftrightarrow> a_rx_live (shared m) > 0"
| "async_admits m A_Try_Recv \<longleftrightarrow> a_rx_live (shared m) > 0"
| "async_admits m Recv_Blocking \<longleftrightarrow> a_rx_live (shared m) > 0"
| "async_admits m Recv_Blocking_Timeout \<longleftrightarrow> a_rx_live (shared m) > 0"
| "async_admits m A_Clone_Receiver \<longleftrightarrow> a_rx_live (shared m) > 0"
| "async_admits m A_Receiver_Is_Alive \<longleftrightarrow> a_rx_live (shared m) > 0"
| "async_admits m _ \<longleftrightarrow> a_tx_live (shared m) > 0 \<or> a_rx_live (shared m) > 0"

definition async_run :: "('e, 'a, 's) channel_storage \<Rightarrow> usize \<Rightarrow> bool \<Rightarrow> bool \<Rightarrow>
    (nat, 'a async_op, 'a async_result) event list \<Rightarrow> ('a, 's) async_monitor \<Rightarrow> bool" where
  "async_run st capacity ordr spurious evs m \<longleftrightarrow>
     (\<exists>h. make_channel_async st capacity ordr = Some h \<and>
        mon_run (async_code st) async_admits spurious (fresh_monitor h) evs m)"

definition async_exec :: "('e, 'a, 's) channel_storage \<Rightarrow> usize \<Rightarrow> bool \<Rightarrow>
    (nat, 'e, 'a async_op) choice list \<Rightarrow>
    ((nat, 'a async_op, 'a async_result) event list \<times> ('a, 's) async_monitor) option" where
  "async_exec st n b cs =
     Option.bind (make_channel_async st n b) (\<lambda>h. exec (async_code st) async_admits (fresh_monitor h) cs)"

lemma async_exec_run: "async_exec st n b cs = Some (evs, m) \<Longrightarrow> async_run st n b spurious evs m"
  by (auto simp: async_exec_def async_run_def bind_eq_Some_conv intro: exec_run)

section \<open>What the operations on wakers leave alone\<close>

lemma wake_next_send_frame [simp]:
  "a_queue (fst (wake_next_send d)) = a_queue d" "a_senders (fst (wake_next_send d)) = a_senders d"
  "a_receivers (fst (wake_next_send d)) = a_receivers d"
  "recv_fut_wakers (fst (wake_next_send d)) = recv_fut_wakers d"
  "recv_fut_waker_ids (fst (wake_next_send d)) = recv_fut_waker_ids d"
  by (auto simp: waker_defs split: list.split option.split)

lemma wake_next_recv_frame [simp]:
  "a_queue (fst (wake_next_recv d)) = a_queue d" "a_senders (fst (wake_next_recv d)) = a_senders d"
  "a_receivers (fst (wake_next_recv d)) = a_receivers d"
  "send_fut_wakers (fst (wake_next_recv d)) = send_fut_wakers d"
  "send_fut_waker_ids (fst (wake_next_recv d)) = send_fut_waker_ids d"
  by (auto simp: waker_defs split: list.split option.split)

lemma wake_all_frame [simp]:
  "a_queue (fst (wake_all_sends d)) = a_queue d" "a_senders (fst (wake_all_sends d)) = a_senders d"
  "a_receivers (fst (wake_all_sends d)) = a_receivers d"
  "recv_fut_wakers (fst (wake_all_sends d)) = recv_fut_wakers d"
  "recv_fut_waker_ids (fst (wake_all_sends d)) = recv_fut_waker_ids d"
  "a_queue (fst (wake_all_recvs d)) = a_queue d" "a_senders (fst (wake_all_recvs d)) = a_senders d"
  "a_receivers (fst (wake_all_recvs d)) = a_receivers d"
  "send_fut_wakers (fst (wake_all_recvs d)) = send_fut_wakers d"
  "send_fut_waker_ids (fst (wake_all_recvs d)) = send_fut_waker_ids d"
  by (simp_all add: waker_defs)

lemma confirm_frame [simp]:
  "a_queue (confirm_send_fut_waked cid d) = a_queue d"
  "a_senders (confirm_send_fut_waked cid d) = a_senders d"
  "a_receivers (confirm_send_fut_waked cid d) = a_receivers d"
  "send_fut_wakers (confirm_send_fut_waked cid d) = send_fut_wakers d"
  "send_fut_waker_ids (confirm_send_fut_waked cid d) = send_fut_waker_ids d"
  "recv_fut_wakers (confirm_send_fut_waked cid d) = recv_fut_wakers d"
  "recv_fut_waker_ids (confirm_send_fut_waked cid d) = recv_fut_waker_ids d"
  "a_queue (confirm_recv_fut_waked cid d) = a_queue d"
  "a_senders (confirm_recv_fut_waked cid d) = a_senders d"
  "a_receivers (confirm_recv_fut_waked cid d) = a_receivers d"
  "recv_fut_wakers (confirm_recv_fut_waked cid d) = recv_fut_wakers d"
  "recv_fut_waker_ids (confirm_recv_fut_waked cid d) = recv_fut_waker_ids d"
  "send_fut_wakers (confirm_recv_fut_waked cid d) = send_fut_wakers d"
  "send_fut_waker_ids (confirm_recv_fut_waked cid d) = send_fut_waker_ids d"
  by (simp_all add: waker_defs)

lemma append_frame [simp]:
  "a_queue (append_send_fut_waker w cid d) = a_queue d"
  "a_senders (append_send_fut_waker w cid d) = a_senders d"
  "a_receivers (append_send_fut_waker w cid d) = a_receivers d"
  "recv_fut_wakers (append_send_fut_waker w cid d) = recv_fut_wakers d"
  "recv_fut_waker_ids (append_send_fut_waker w cid d) = recv_fut_waker_ids d"
  "a_queue (append_recv_fut_waker w cid d) = a_queue d"
  "a_senders (append_recv_fut_waker w cid d) = a_senders d"
  "a_receivers (append_recv_fut_waker w cid d) = a_receivers d"
  "send_fut_wakers (append_recv_fut_waker w cid d) = send_fut_wakers d"
  "send_fut_waker_ids (append_recv_fut_waker w cid d) = send_fut_waker_ids d"
  "a_queue (append_send_sync_waker d) = a_queue d"
  "a_senders (append_send_sync_waker d) = a_senders d"
  "a_receivers (append_send_sync_waker d) = a_receivers d"
  "recv_fut_wakers (append_send_sync_waker d) = recv_fut_wakers d"
  "recv_fut_waker_ids (append_send_sync_waker d) = recv_fut_waker_ids d"
  "a_queue (append_recv_sync_waker d) = a_queue d"
  "a_senders (append_recv_sync_waker d) = a_senders d"
  "a_receivers (append_recv_sync_waker d) = a_receivers d"
  "send_fut_wakers (append_recv_sync_waker d) = send_fut_wakers d"
  "send_fut_waker_ids (append_recv_sync_waker d) = send_fut_waker_ids d"
  by (simp_all add: waker_defs)

lemma fut_drop_frame [simp]:
  "a_queue (fst (notify_send_fut_drop cid d)) = a_queue d"
  "a_senders (fst (notify_send_fut_drop cid d)) = a_senders d"
  "a_receivers (fst (notify_send_fut_drop cid d)) = a_receivers d"
  "recv_fut_wakers (fst (notify_send_fut_drop cid d)) = recv_fut_wakers d"
  "recv_fut_waker_ids (fst (notify_send_fut_drop cid d)) = recv_fut_waker_ids d"
  "a_queue (fst (notify_recv_fut_drop cid d)) = a_queue d"
  "a_senders (fst (notify_recv_fut_drop cid d)) = a_senders d"
  "a_receivers (fst (notify_recv_fut_drop cid d)) = a_receivers d"
  "send_fut_wakers (fst (notify_recv_fut_drop cid d)) = send_fut_wakers d"
  "send_fut_waker_ids (fst (notify_recv_fut_drop cid d)) = send_fut_waker_ids d"
  by (auto simp: notify_send_fut_drop_def notify_recv_fut_drop_def Let_def split: option.split)

text \<open>In the rules below a result of an operation is taken apart with its frame.\<close>

lemmas waker_frames =
  wake_next_send_frame wake_next_recv_frame wake_all_frame fut_drop_frame

section \<open>The waker queues\<close>

text \<open>
  A waker queue is consistent when no future is in it twice and the set of ids is exactly the ids
  in it.
\<close>

definition waker_ids :: "(waker \<times> client_id) option list \<Rightarrow> client_id list" where
  "waker_ids ws = map snd (List.map_filter (\<lambda>w. w) ws)"

definition wakers_ok :: "(waker \<times> client_id) option list \<Rightarrow> client_id set \<Rightarrow> bool" where
  [inv_defs]: "wakers_ok ws ids \<longleftrightarrow> distinct (waker_ids ws) \<and> set (waker_ids ws) = ids"

lemma waker_ids_simps [simp]:
  "waker_ids [] = []" "waker_ids (None # ws) = waker_ids ws"
  "waker_ids (Some (w, i) # ws) = i # waker_ids ws" "waker_ids (us @ vs) = waker_ids us @ waker_ids vs"
  by (simp_all add: waker_ids_def map_filter_simps) (simp add: map_filter_def)

lemma wakers_ok_simps [simp]:
  "wakers_ok [] ids \<longleftrightarrow> ids = {}"
  "wakers_ok (ws @ [None]) ids \<longleftrightarrow> wakers_ok ws ids"
  by (auto simp: wakers_ok_def)

lemma remove_waker_Some:
  "remove_waker cid ws = Some ws' \<Longrightarrow>
   \<exists>us w vs. ws = us @ Some (w, cid) # vs \<and> ws' = us @ vs"
proof (induction ws arbitrary: ws')
  case (Cons x xs)
  show ?case
  proof (cases "\<exists>w. x = Some (w, cid)")
    case True
    with Cons.prems show ?thesis by (auto intro: exI [of _ "[]"])
  next
    case False
    with Cons.prems obtain ys where "remove_waker cid xs = Some ys" "ws' = x # ys"
      by (auto split: option.splits if_splits)
    with Cons.IH [of ys] obtain us w vs where "xs = us @ Some (w, cid) # vs" "ws' = x # us @ vs" by blast
    then show ?thesis by (intro exI [of _ "x # us"] exI [of _ w] exI [of _ vs]) simp
  qed
qed simp

definition async_wf :: "'s async_inner \<Rightarrow> bool" where
  [inv_defs]: "async_wf d \<longleftrightarrow>
     wakers_ok (send_fut_wakers d) (send_fut_waker_ids d) \<and>
     wakers_ok (recv_fut_wakers d) (recv_fut_waker_ids d) \<and>
     (a_receivers d = 0 \<longrightarrow> send_fut_wakers d = []) \<and> (a_senders d = 0 \<longrightarrow> recv_fut_wakers d = [])"

lemma wakers_ok_append:
  "wakers_ok ws ids \<Longrightarrow> cid \<notin> ids \<Longrightarrow> wakers_ok (ws @ [Some (w, cid)]) (insert cid ids)"
  by (auto simp: wakers_ok_def)

lemma wakers_ok_pop: "wakers_ok (Some (w, cid) # ws) ids \<Longrightarrow> wakers_ok ws (ids - {cid})"
  by (auto simp: wakers_ok_def)

lemma wakers_ok_pop_None: "wakers_ok (None # ws) ids \<Longrightarrow> wakers_ok ws ids"
  by (simp add: wakers_ok_def)

lemma wakers_ok_remove:
  "wakers_ok ws ids \<Longrightarrow> remove_waker cid ws = Some ws' \<Longrightarrow> wakers_ok ws' (ids - {cid})"
  by (drule remove_waker_Some) (auto simp: wakers_ok_def)

lemma async_wf_queue [simp]: "async_wf (d\<lparr> a_queue := q \<rparr>) \<longleftrightarrow> async_wf d"
  by (simp add: async_wf_def)

lemma async_wf_wake_next [simp]:
  "async_wf d \<Longrightarrow> async_wf (fst (wake_next_send d))" "async_wf d \<Longrightarrow> async_wf (fst (wake_next_recv d))"
  by (auto simp: async_wf_def waker_defs dest: wakers_ok_pop wakers_ok_pop_None split: list.split option.split)

lemma async_wf_confirm [simp]:
  "async_wf (confirm_send_fut_waked cid d) \<longleftrightarrow> async_wf d"
  "async_wf (confirm_recv_fut_waked cid d) \<longleftrightarrow> async_wf d"
  by (simp_all add: async_wf_def)

lemma async_wf_append [simp]:
  "async_wf d \<Longrightarrow> a_receivers d > 0 \<Longrightarrow> async_wf (append_send_fut_waker w cid d)"
  "async_wf d \<Longrightarrow> a_senders d > 0 \<Longrightarrow> async_wf (append_recv_fut_waker w cid d)"
  "async_wf d \<Longrightarrow> a_receivers d > 0 \<Longrightarrow> async_wf (append_send_sync_waker d)"
  "async_wf d \<Longrightarrow> a_senders d > 0 \<Longrightarrow> async_wf (append_recv_sync_waker d)"
  by (auto simp: async_wf_def waker_defs wakers_ok_append)

lemma async_wf_fut_drop [simp]:
  "async_wf d \<Longrightarrow> async_wf (fst (notify_send_fut_drop cid d))"
  "async_wf d \<Longrightarrow> async_wf (fst (notify_recv_fut_drop cid d))"
proof -
  assume d: "async_wf d"
  have 1: "async_wf (case remove_waker cid (send_fut_wakers d) of
      Some ws \<Rightarrow> d\<lparr> send_fut_wakers := ws, send_fut_waker_ids := send_fut_waker_ids d - {cid} \<rparr> | None \<Rightarrow> d)"
    using d wakers_ok_remove [of "send_fut_wakers d" "send_fut_waker_ids d" cid]
    by (auto simp: async_wf_def split: option.split)
  have 2: "async_wf (case remove_waker cid (recv_fut_wakers d) of
      Some ws \<Rightarrow> d\<lparr> recv_fut_wakers := ws, recv_fut_waker_ids := recv_fut_waker_ids d - {cid} \<rparr> | None \<Rightarrow> d)"
    using d wakers_ok_remove [of "recv_fut_wakers d" "recv_fut_waker_ids d" cid]
    by (auto simp: async_wf_def split: option.split)
  have p: "async_wf (x\<lparr> send_fut_pending := X \<rparr>) = async_wf x"
    "async_wf (x\<lparr> recv_fut_pending := X \<rparr>) = async_wf x" for x :: "'a async_inner" and X
    by (simp_all add: async_wf_def)
  from 1 show "async_wf (fst (notify_send_fut_drop cid d))"
    unfolding notify_send_fut_drop_def Let_def by (auto simp: p)
  from 2 show "async_wf (fst (notify_recv_fut_drop cid d))"
    unfolding notify_recv_fut_drop_def Let_def by (auto simp: p)
qed

section \<open>What a stretch does to the queue\<close>

text \<open>
  Every stretch does at most one thing to the stored values: push one that is then recorded as
  sent, try to push one in vain, take one out that is recorded as received, or find nothing.
\<close>

definition queue_step :: "('e, 'a, 's) channel_storage \<Rightarrow> 'e \<Rightarrow> 's \<Rightarrow> 'a list \<Rightarrow> 'a list \<Rightarrow> 's \<Rightarrow> bool" where
  "queue_step st e q s r q' \<longleftrightarrow>
     q' = q \<and> s = [] \<and> r = [] \<or>
     (\<exists>a. cs_try_push st e q a = Some (q', Pushed) \<and> s = [a] \<and> r = []) \<or>
     (\<exists>a res. cs_try_push st e q a = Some (q', res) \<and> res \<noteq> Pushed \<and> s = [] \<and> r = []) \<or>
     (\<exists>a. cs_get st e q = (q', Some a) \<and> s = [] \<and> r = [a]) \<or>
     cs_get st e q = (q', None) \<and> s = [] \<and> r = []"

lemma queue_step_intros:
  "queue_step st e q [] [] q"
  "cs_try_push st e q a = Some (q', Pushed) \<Longrightarrow> queue_step st e q [a] [] q'"
  "cs_try_push st e q a = Some (q', Skipped) \<Longrightarrow> queue_step st e q [] [] q'"
  "cs_try_push st e q a = Some (q', Full b) \<Longrightarrow> queue_step st e q [] [] q'"
  "cs_get st e q = (q', Some a) \<Longrightarrow> queue_step st e q [] [a] q'"
  "cs_get st e q = (q', None) \<Longrightarrow> queue_step st e q [] [] q'"
  by (auto simp: queue_step_def)

text \<open>A stretch on the inner data: its step of the queue; counters and waker queues are kept.\<close>

definition inner_ok :: "('e, 'a, 's) channel_storage \<Rightarrow> 'e \<Rightarrow> 's async_inner \<Rightarrow> 'a list \<Rightarrow> 'a list \<Rightarrow>
    's async_inner \<Rightarrow> bool" where
  "inner_ok st e d s r d' \<longleftrightarrow> queue_step st e (a_queue d) s r (a_queue d') \<and>
     a_senders d' = a_senders d \<and> a_receivers d' = a_receivers d \<and> (async_wf d \<longrightarrow> async_wf d')"

lemma inner_ok_wake:
  "queue_step st e (a_queue d) s r q \<Longrightarrow> inner_ok st e d s r (fst (wake_next_recv (d\<lparr> a_queue := q \<rparr>)))"
  "queue_step st e (a_queue d) s r q \<Longrightarrow> inner_ok st e d s r (fst (wake_next_send (d\<lparr> a_queue := q \<rparr>)))"
  "queue_step st e (a_queue d) s r q \<Longrightarrow> inner_ok st e d s r (d\<lparr> a_queue := q \<rparr>)"
  "inner_ok st e d [] [] d"
  by (simp_all add: inner_ok_def queue_step_intros(1))

lemma inner_ok_append:
  "queue_step st e (a_queue d) s r q \<Longrightarrow> a_receivers d > 0 \<Longrightarrow>
   inner_ok st e d s r (append_send_sync_waker (d\<lparr> a_queue := q \<rparr>))"
  "queue_step st e (a_queue d) s r q \<Longrightarrow> a_senders d > 0 \<Longrightarrow>
   inner_ok st e d s r (append_recv_sync_waker (d\<lparr> a_queue := q \<rparr>))"
  "queue_step st e (a_queue d) s r q \<Longrightarrow> a_receivers d > 0 \<Longrightarrow>
   inner_ok st e d s r (append_send_fut_waker w cid (d\<lparr> a_queue := q \<rparr>))"
  "queue_step st e (a_queue d) s r q \<Longrightarrow> a_senders d > 0 \<Longrightarrow>
   inner_ok st e d s r (append_recv_fut_waker w cid (d\<lparr> a_queue := q \<rparr>))"
  by (simp_all add: inner_ok_def)

lemma try_send_ok:
  assumes "async_try_send st e a d = (d', effs, out)"
  shows "inner_ok st e d (log_sent [a] out) (log_received out) d'"
proof (cases "a_receivers d = 0")
  case False
  with assms show ?thesis
    by (cases "cs_try_push st e (a_queue d) a")
      (auto simp: async_try_send_def split_beta intro!: inner_ok_wake intro: queue_step_intros
        split: storage_try_push_output.splits)
qed (use assms in \<open>auto simp: async_try_send_def inner_ok_wake\<close>)

lemma send_blocking_ok:
  assumes "send_blocking st e a d = (d', effs, out)"
  shows "inner_ok st e d (log_sent [a] out) (log_received out) d'"
proof (cases "a_receivers d = 0")
  case False
  with assms show ?thesis
    by (cases "cs_try_push st e (a_queue d) a")
      (auto simp: send_blocking_def split_beta intro!: inner_ok_wake inner_ok_append intro: queue_step_intros
        split: storage_try_push_output.splits)
qed (use assms in \<open>auto simp: send_blocking_def inner_ok_wake\<close>)

lemma send_blocking_timeout_ok:
  assumes "send_blocking_timeout st e a d = (d', effs, out)"
  shows "inner_ok st e d (log_sent [a] out) (log_received out) d'"
proof (cases "a_receivers d = 0")
  case False
  with assms show ?thesis
    by (cases "cs_try_push st e (a_queue d) a")
      (auto simp: send_blocking_timeout_def split_beta intro!: inner_ok_wake inner_ok_append
        intro: queue_step_intros split: storage_try_push_output.splits)
qed (use assms in \<open>auto simp: send_blocking_timeout_def inner_ok_wake\<close>)

lemma try_recv_ok:
  assumes "async_try_recv st e d = (d', effs, out)"
  shows "inner_ok st e d [] (log_received out) d'"
  using assms
  by (cases "cs_get st e (a_queue d)")
    (auto simp: async_try_recv_def split_beta intro!: inner_ok_wake intro: queue_step_intros
      split: option.splits)

lemma recv_blocking_ok:
  assumes "recv_blocking st e d = (d', effs, out)"
  shows "inner_ok st e d [] (log_received out) d'"
  using assms
  by (cases "cs_get st e (a_queue d)")
    (auto simp: recv_blocking_def split_beta intro!: inner_ok_wake inner_ok_append intro: queue_step_intros
      split: option.splits if_splits)

lemma recv_blocking_timeout_ok:
  assumes "recv_blocking_timeout st e d = (d', effs, out)"
  shows "inner_ok st e d [] (log_received out) d'"
  using assms
  by (cases "cs_get st e (a_queue d)")
    (auto simp: recv_blocking_timeout_def split_beta intro!: inner_ok_wake inner_ok_append
      intro: queue_step_intros split: option.splits if_splits)

lemma inner_ok_confirm:
  "inner_ok st e (confirm_send_fut_waked cid d) s r d' \<longleftrightarrow> inner_ok st e d s r d'"
  "inner_ok st e (confirm_recv_fut_waked cid d) s r d' \<longleftrightarrow> inner_ok st e d s r d'"
  by (simp_all add: inner_ok_def)

lemma poll_send_ok:
  assumes "poll_send st e waker cid f d0 = Some (d', effs, res)"
  shows "inner_ok st e d0 (if res = Inl (Inr ()) then (case sf_value f of Some a \<Rightarrow> [a] | None \<Rightarrow> []) else [])
      [] d'" (is ?ok)
    and "res = Inr f' \<Longrightarrow> sf_value f \<noteq> None \<Longrightarrow> sf_value f' \<noteq> None" (is "_ \<Longrightarrow> _ \<Longrightarrow> ?value")
proof -
  define d where "d = (if sf_queued f then confirm_send_fut_waked cid d0 else d0)"
  have d: "inner_ok st e d0 s r x \<longleftrightarrow> inner_ok st e d s r x" for s r x
    by (simp add: d_def inner_ok_confirm)
  note def = assms [unfolded poll_send_def, folded d_def, simplified Let_def]
  have "?ok \<and> (res = Inr f' \<longrightarrow> sf_value f \<noteq> None \<longrightarrow> ?value)"
  proof (cases "a_receivers d = 0")
    case True
    with def d show ?thesis by (auto simp: inner_ok_wake)
  next
    case open_ch: False
    show ?thesis
    proof (cases "send_fut_wakers d = [] \<or> sf_queued f")
      case False
      with def open_ch d inner_ok_append(3) [OF queue_step_intros(1), where d = d and w = waker and cid = cid and st = st and e = e]
      show ?thesis by auto
    next
      case True
      then obtain v p where v: "sf_value f = Some v" "cs_try_push st e (a_queue d) v = Some p"
        using def open_ch by (auto split: option.splits)
      with def open_ch True d show ?thesis
        by (cases p) (auto simp: split_beta intro!: inner_ok_wake inner_ok_append intro: queue_step_intros
            split: storage_try_push_output.splits)
    qed
  qed
  then show ?ok "res = Inr f' \<Longrightarrow> sf_value f \<noteq> None \<Longrightarrow> ?value" by blast+
qed

lemma poll_recv_ok:
  assumes "poll_recv st e waker cid f d0 = (d', effs, res)"
  shows "inner_ok st e d0 [] (case res of Inl (Inr a) \<Rightarrow> [a] | _ \<Rightarrow> []) d'"
proof -
  define d where "d = (if rf_queued f then confirm_recv_fut_waked cid d0 else d0)"
  have d: "inner_ok st e d0 s r x \<longleftrightarrow> inner_ok st e d s r x" for s r x
    by (simp add: d_def inner_ok_confirm)
  note def = assms [unfolded poll_recv_def, folded d_def, simplified Let_def]
  show ?thesis
  proof (cases "recv_fut_wakers d = [] \<or> rf_queued f")
    case False
    have "inner_ok st e d [] [] (append_recv_fut_waker waker cid d)" if "a_senders d > 0"
      using inner_ok_append(4) [OF queue_step_intros(1) that, where w = waker and cid = cid and st = st and e = e] by simp
    moreover have "inner_ok st e d [] [] (append_recv_fut_waker waker cid d)" if "a_senders d = 0"
      using that False by (simp add: inner_ok_def queue_step_intros(1) async_wf_def)
    ultimately have "inner_ok st e d [] [] (append_recv_fut_waker waker cid d)" by blast
    with False def d show ?thesis by auto
  next
    case True
    with def d show ?thesis
      by (cases "cs_get st e (a_queue d)")
        (auto simp: split_beta intro!: inner_ok_wake inner_ok_append intro: queue_step_intros
          split: option.splits if_splits)
  qed
qed

lemma log_other [simp]:
  "log_sent xs (Return AR_Done) = []" "log_received (Return AR_Done) = []"
  "log_sent xs (Return AR_Pending) = []" "log_received (Return AR_Pending) = []"
  by simp_all

lemma log_sent_Nil [simp]: "log_sent [] out = []"
proof (cases out)
  case (Return r)
  show ?thesis
  proof (cases r)
    case (AR_Unit u)
    with Return show ?thesis by (cases u) simp_all
  qed (use Return in simp_all)
qed simp_all

lemma on_inner_result:
  assumes "on_inner h r = (h', effs, out)"
  shows "\<exists>d. r = (d, effs, out) \<and> h' = h\<lparr> a_inner := d \<rparr>"
  using assms by (cases r) (auto simp: on_inner_def)

text \<open>The polls on the shared data: done, pending, or a panic.\<close>

lemma run_poll_send_cases:
  assumes "run_poll_send st e cid waker h = (h', effs, out)" and "map_of (send_futs h) cid = Some f"
  obtains (panic) "poll_send st e waker cid f (a_inner h) = None" and "h' = h" and "effs = []" and "out = Panic"
  | (finished) d r where "poll_send st e waker cid f (a_inner h) = Some (d, effs, Inl r)"
      and "h' = h\<lparr> a_inner := d, send_futs := AList.delete cid (send_futs h) \<rparr>"
      and "out = Return (AR_Unit r)"
  | (pending) d f' where "poll_send st e waker cid f (a_inner h) = Some (d, effs, Inr f')"
      and "h' = h\<lparr> a_inner := d, send_futs := AList.update cid f' (send_futs h) \<rparr>"
      and "out = Return AR_Pending"
proof (cases "poll_send st e waker cid f (a_inner h)")
  case None
  show thesis by (rule panic) (use None assms in \<open>simp_all add: run_poll_send_def\<close>)
next
  case (Some p)
  obtain d effs' res where p: "p = (d, effs', res)" by (cases p)
  show thesis
  proof (cases res)
    case (Inl r)
    show thesis by (rule finished [of d r]) (use assms Some p Inl in \<open>simp_all add: run_poll_send_def\<close>)
  next
    case (Inr f')
    show thesis by (rule pending [of d f']) (use assms Some p Inr in \<open>simp_all add: run_poll_send_def\<close>)
  qed
qed

lemma run_poll_recv_cases:
  assumes "run_poll_recv st e cid waker h = (h', effs, out)" and "map_of (recv_futs h) cid = Some f"
  obtains (finished) d r where "poll_recv st e waker cid f (a_inner h) = (d, effs, Inl r)"
      and "h' = h\<lparr> a_inner := d, recv_futs := AList.delete cid (recv_futs h) \<rparr>"
      and "out = Return (AR_Value r)"
  | (pending) d f' where "poll_recv st e waker cid f (a_inner h) = (d, effs, Inr f')"
      and "h' = h\<lparr> a_inner := d, recv_futs := AList.update cid f' (recv_futs h) \<rparr>"
      and "out = Return AR_Pending"
proof -
  obtain d effs' res where p: "poll_recv st e waker cid f (a_inner h) = (d, effs', res)"
    by (cases "poll_recv st e waker cid f (a_inner h)")
  show thesis
  proof (cases res)
    case (Inl r)
    show thesis by (rule finished [of d r]) (use assms p Inl in \<open>simp_all add: run_poll_recv_def\<close>)
  next
    case (Inr f')
    show thesis by (rule pending [of d f']) (use assms p Inr in \<open>simp_all add: run_poll_recv_def\<close>)
  qed
qed

lemma drop_ok:
  "async_sender_drop d = Some (d', effs) \<Longrightarrow>
   a_queue d' = a_queue d \<and> a_receivers d' = a_receivers d \<and> Suc (a_senders d') = a_senders d \<and>
   (async_wf d \<longrightarrow> async_wf d')"
  "async_receiver_drop d = Some (d', effs) \<Longrightarrow>
   a_queue d' = a_queue d \<and> a_senders d' = a_senders d \<and> Suc (a_receivers d') = a_receivers d \<and>
   (async_wf d \<longrightarrow> async_wf d')"
  by (auto simp: async_sender_drop_def async_receiver_drop_def Let_def async_wf_def wake_all_recvs_def
      wake_all_sends_def split: if_splits)

lemma poll_send_step:
  assumes "run_poll_send st e cid waker h = (h', effs, out)"
  shows "inner_ok st e (a_inner h) (log_sent (offered (Poll_Send cid waker) h) out) (log_received out) (a_inner h')"
proof (cases "map_of (send_futs h) cid")
  case None
  with assms show ?thesis by (auto simp: run_poll_send_def inner_ok_wake)
next
  case (Some f)
  from assms Some show ?thesis
  proof (cases rule: run_poll_send_cases)
    case (finished d r)
    with poll_send_ok(1) [OF finished(1)] Some show ?thesis by (cases r) auto
  next
    case (pending d f')
    with poll_send_ok(1) [OF pending(1)] show ?thesis by simp
  qed (simp add: inner_ok_wake)
qed

lemma poll_recv_step:
  assumes "run_poll_recv st e cid waker h = (h', effs, out)"
  shows "inner_ok st e (a_inner h) [] (log_received out) (a_inner h')"
proof (cases "map_of (recv_futs h) cid")
  case None
  with assms show ?thesis by (auto simp: run_poll_recv_def inner_ok_wake)
next
  case (Some f)
  from assms Some show ?thesis
  proof (cases rule: run_poll_recv_cases)
    case (finished d r)
    with poll_recv_ok [OF finished(1)] show ?thesis by (cases r) auto
  next
    case (pending d f')
    with poll_recv_ok [OF pending(1)] show ?thesis by simp
  qed
qed

text \<open>The operations that neither clone nor drop a handle.\<close>

fun moves_handle :: "'a async_op \<Rightarrow> bool" where
  "moves_handle A_Clone_Sender = True"
| "moves_handle A_Drop_Sender = True"
| "moves_handle A_Clone_Receiver = True"
| "moves_handle A_Drop_Receiver = True"
| "moves_handle _ = False"

lemma stretch_inner_ok:
  assumes "async_stretch st e op h = (h', effs, out)" and "\<not> moves_handle op"
  shows "inner_ok st e (a_inner h) (log_sent (offered op h) out) (log_received out) (a_inner h')"
  using assms
proof (cases op)
  case (Poll_Send cid waker)
  with assms(1) poll_send_step [of st e cid waker h h' effs out] show ?thesis by simp
next
  case (Poll_Recv cid waker)
  with assms(1) poll_recv_step [of st e cid waker h h' effs out] show ?thesis by simp
next
  case (A_Try_Send a)
  with assms(1) have "on_inner h (async_try_send st e a (a_inner h)) = (h', effs, out)" by simp
  from on_inner_result [OF this] obtain d where "async_try_send st e a (a_inner h) = (d, effs, out)"
    "h' = h\<lparr> a_inner := d \<rparr>" by blast
  with try_send_ok [OF this(1)] A_Try_Send show ?thesis by simp
next
  case (Send_Blocking a)
  with assms(1) have "on_inner h (send_blocking st e a (a_inner h)) = (h', effs, out)" by simp
  from on_inner_result [OF this] obtain d where "send_blocking st e a (a_inner h) = (d, effs, out)"
    "h' = h\<lparr> a_inner := d \<rparr>" by blast
  with send_blocking_ok [OF this(1)] Send_Blocking show ?thesis by simp
next
  case (Send_Blocking_Timeout a)
  with assms(1) have "on_inner h (send_blocking_timeout st e a (a_inner h)) = (h', effs, out)" by simp
  from on_inner_result [OF this] obtain d where "send_blocking_timeout st e a (a_inner h) = (d, effs, out)"
    "h' = h\<lparr> a_inner := d \<rparr>" by blast
  with send_blocking_timeout_ok [OF this(1)] Send_Blocking_Timeout show ?thesis by simp
next
  case A_Try_Recv
  with assms(1) have "on_inner h (async_try_recv st e (a_inner h)) = (h', effs, out)" by simp
  from on_inner_result [OF this] obtain d where "async_try_recv st e (a_inner h) = (d, effs, out)"
    "h' = h\<lparr> a_inner := d \<rparr>" by blast
  with try_recv_ok [OF this(1)] A_Try_Recv show ?thesis by simp
next
  case Recv_Blocking
  with assms(1) have "on_inner h (recv_blocking st e (a_inner h)) = (h', effs, out)" by simp
  from on_inner_result [OF this] obtain d where "recv_blocking st e (a_inner h) = (d, effs, out)"
    "h' = h\<lparr> a_inner := d \<rparr>" by blast
  with recv_blocking_ok [OF this(1)] Recv_Blocking show ?thesis by simp
next
  case Recv_Blocking_Timeout
  with assms(1) have "on_inner h (recv_blocking_timeout st e (a_inner h)) = (h', effs, out)" by simp
  from on_inner_result [OF this] obtain d where "recv_blocking_timeout st e (a_inner h) = (d, effs, out)"
    "h' = h\<lparr> a_inner := d \<rparr>" by blast
  with recv_blocking_timeout_ok [OF this(1)] Recv_Blocking_Timeout show ?thesis by simp
next
  case (Drop_Send cid)
  with assms(1) show ?thesis
    by (auto simp: send_future_drop_def split_beta Let_def inner_ok_def queue_step_intros split: option.splits)
next
  case (Drop_Recv cid)
  with assms(1) show ?thesis
    by (auto simp: recv_future_drop_def split_beta Let_def inner_ok_def queue_step_intros split: option.splits)
qed (auto simp: async_send_def async_recv_def inner_ok_wake)

section \<open>The invariant\<close>

text \<open>
  The storage's own invariant, consistent waker queues, exact counters, a value in every unfinished
  send future, and the record of the values: what came out or is stored was sent.
\<close>

definition futs_ok :: "('a, 's) async_shared \<Rightarrow> bool" where
  [inv_defs]: "futs_ok h \<longleftrightarrow> (\<forall>cid f. map_of (send_futs h) cid = Some f \<longrightarrow> sf_value f \<noteq> None)"

definition async_inv :: "('s \<Rightarrow> bool) \<Rightarrow> ('a, 's) async_shared \<Rightarrow> bool" where
  [inv_defs]: "async_inv sinv h \<longleftrightarrow> sinv (a_queue (a_inner h)) \<and> async_wf (a_inner h) \<and>
     a_senders (a_inner h) = a_tx_live h \<and> a_receivers (a_inner h) = a_rx_live h \<and> futs_ok h"

lemma poll_send_frame:
  assumes "run_poll_send st e cid waker h = (h', effs, out)"
  shows "a_sent h' = a_sent h \<and> a_received h' = a_received h \<and> a_tx_live h' = a_tx_live h \<and>
    a_rx_live h' = a_rx_live h \<and> (futs_ok h \<longrightarrow> futs_ok h')"
proof (cases "map_of (send_futs h) cid")
  case None
  with assms show ?thesis by (auto simp: run_poll_send_def)
next
  case (Some f)
  from assms Some show ?thesis
  proof (cases rule: run_poll_send_cases)
    case (finished d r)
    then show ?thesis by (auto simp: futs_ok_def delete_conv')
  next
    case (pending d f')
    with poll_send_ok(2) [OF pending(1), of f'] Some show ?thesis
      by (auto simp: futs_ok_def update_conv' split: if_splits)
  qed simp
qed

lemma poll_recv_frame:
  assumes "run_poll_recv st e cid waker h = (h', effs, out)"
  shows "a_sent h' = a_sent h \<and> a_received h' = a_received h \<and> a_tx_live h' = a_tx_live h \<and>
    a_rx_live h' = a_rx_live h \<and> send_futs h' = send_futs h"
proof (cases "map_of (recv_futs h) cid")
  case None
  with assms show ?thesis by (auto simp: run_poll_recv_def)
next
  case (Some f)
  from assms Some show ?thesis by (cases rule: run_poll_recv_cases) auto
qed

lemma on_inner_frame:
  assumes "on_inner h r = (h', effs, out)"
  shows "a_sent h' = a_sent h \<and> a_received h' = a_received h \<and> a_tx_live h' = a_tx_live h \<and>
    a_rx_live h' = a_rx_live h \<and> send_futs h' = send_futs h"
  using on_inner_result [OF assms] by auto

lemma stretch_frame:
  assumes "async_stretch st e op h = (h', effs, out)"
  shows "a_sent h' = a_sent h \<and> a_received h' = a_received h \<and> (futs_ok h \<longrightarrow> futs_ok h') \<and>
    (\<not> moves_handle op \<longrightarrow> a_tx_live h' = a_tx_live h \<and> a_rx_live h' = a_rx_live h)"
proof (cases op)
  case (Poll_Send cid waker)
  with assms poll_send_frame [of st e cid waker h h' effs out] show ?thesis by simp
next
  case (Poll_Recv cid waker)
  with assms poll_recv_frame [of st e cid waker h h' effs out] show ?thesis by (simp add: futs_ok_def)
next
  case (Drop_Send cid)
  with assms show ?thesis
    by (auto simp: send_future_drop_def split_beta Let_def futs_ok_def delete_conv'
        split: option.splits if_splits)
next
  case (Drop_Recv cid)
  with assms show ?thesis
    by (auto simp: recv_future_drop_def split_beta Let_def futs_ok_def split: option.splits)
next
  case (A_Send a)
  with assms show ?thesis by (auto simp: async_send_def futs_ok_def update_conv' split: if_splits)
next
  case A_Drop_Sender
  with assms show ?thesis by (auto simp: futs_ok_def split: option.splits)
next
  case A_Drop_Receiver
  with assms show ?thesis by (auto simp: futs_ok_def split: option.splits)
qed (use assms on_inner_frame [of h _ h' effs out] in \<open>auto simp: async_recv_def futs_ok_def\<close>)

lemma moves_handle_inner:
  assumes "async_stretch st e op h = (h', effs, out)" and "moves_handle op"
    and "a_senders (a_inner h) = a_tx_live h" and "a_receivers (a_inner h) = a_rx_live h"
    and "op = A_Drop_Sender \<Longrightarrow> a_tx_live h > 0" and "op = A_Drop_Receiver \<Longrightarrow> a_rx_live h > 0"
    and "async_wf (a_inner h)"
  shows "a_queue (a_inner h') = a_queue (a_inner h) \<and> async_wf (a_inner h') \<and>
    a_senders (a_inner h') = a_tx_live h' \<and> a_receivers (a_inner h') = a_rx_live h' \<and>
    out = Return AR_Done"
  using assms
proof (cases op)
  case A_Drop_Sender
  with assms(3-6) have "async_sender_drop (a_inner h) \<noteq> None" by (simp add: async_sender_drop_def Let_def)
  with assms(1) A_Drop_Sender obtain d where d: "async_sender_drop (a_inner h) = Some (d, effs)"
    "h' = h\<lparr> a_inner := d, a_tx_live := a_tx_live h - 1 \<rparr>" "out = Return AR_Done"
    by auto
  with drop_ok(1) [OF d(1)] assms(3,4,7) show ?thesis by auto
next
  case A_Drop_Receiver
  with assms(3-6) have "async_receiver_drop (a_inner h) \<noteq> None" by (simp add: async_receiver_drop_def Let_def)
  with assms(1) A_Drop_Receiver obtain d where d: "async_receiver_drop (a_inner h) = Some (d, effs)"
    "h' = h\<lparr> a_inner := d, a_rx_live := a_rx_live h - 1 \<rparr>" "out = Return AR_Done"
    by auto
  with drop_ok(2) [OF d(1)] assms(3,4,7) show ?thesis by auto
qed (auto simp: async_wf_def)

lemma moves_handle_offered: "moves_handle op \<Longrightarrow> offered op h = []"
  by (cases op) simp_all

context storage_contract
begin

lemma queue_step_storage:
  assumes "inv q" and "queue_step st e q s r q'"
  shows "inv q' \<and> cap q' = cap q \<and> mset r + mset (elems q') \<subseteq># mset (elems q) + mset s"
proof -
  consider "q' = q" "s = []" "r = []"
    | a where "cs_try_push st e q a = Some (q', Pushed)" "s = [a]" "r = []"
    | a res where "cs_try_push st e q a = Some (q', res)" "res \<noteq> Pushed" "s = []" "r = []"
    | a where "cs_get st e q = (q', Some a)" "s = []" "r = [a]"
    | "cs_get st e q = (q', None)" "s = []" "r = []"
    using assms(2) unfolding queue_step_def by blast
  then show ?thesis
  proof cases
    case (2 a)
    with push_inv [OF assms(1) 2(1)] push_pushed [OF assms(1) 2(1)] show ?thesis by simp
  next
    case (3 a res)
    with push_inv [OF assms(1) 3(1)] push_skipped [OF assms(1), of e a q'] push_full [OF assms(1), of e a q']
    show ?thesis by (cases res) auto
  next
    case (4 a)
    with get_inv [OF assms(1) 4(1)] get_some_mset [OF assms(1) 4(1)] show ?thesis by simp
  next
    case 5
    with get_inv [OF assms(1) 5(1)] get_none [OF assms(1) 5(1)] show ?thesis by simp
  qed (use assms(1) in simp)
qed

lemma poll_send_total:
  assumes "inv (a_queue d)" and "sf_value f \<noteq> None"
  shows "poll_send st e waker cid f d \<noteq> None"
proof -
  from assms(2) obtain v where v: "sf_value f = Some v" by blast
  from push_total [OF assms(1), of e v] obtain q res where "cs_try_push st e (a_queue d) v = Some (q, res)"
    by blast
  with v show ?thesis by (cases res) (auto simp: poll_send_def Let_def split_beta)
qed

lemma stretch_no_panic:
  assumes "async_stretch st e op h = (h', effs, out)" and "async_inv inv h"
    and "\<And>cid waker. op = Poll_Send cid waker \<or> op = Drop_Send cid \<Longrightarrow> map_of (send_futs h) cid \<noteq> None"
    and "\<And>cid waker. op = Poll_Recv cid waker \<or> op = Drop_Recv cid \<Longrightarrow> map_of (recv_futs h) cid \<noteq> None"
    and "\<not> moves_handle op"
  shows "out \<noteq> Panic"
proof -
  from assms(2) have q: "inv (a_queue (a_inner h))" by (simp add: async_inv_def)
  have push: "\<exists>s r. cs_try_push st e (a_queue (a_inner h)) a = Some (s, r)" for a
    using push_total [OF q] by blast
  show ?thesis
  proof (cases op)
    case (Poll_Send cid waker)
    with assms(3) obtain f where f: "map_of (send_futs h) cid = Some f" by blast
    with assms(2) have "sf_value f \<noteq> None" by (auto simp: async_inv_def futs_ok_def)
    from poll_send_total [OF q this, where waker = waker and cid = cid and e = e] assms(1) f Poll_Send
    show ?thesis
      by (auto simp: run_poll_send_def split: option.splits prod.splits sum.splits)
  next
    case (Poll_Recv cid waker)
    with assms(4) obtain f where f: "map_of (recv_futs h) cid = Some f" by blast
    with assms(1) Poll_Recv show ?thesis
      by (auto simp: run_poll_recv_def split: prod.splits sum.splits)
  next
    case (Drop_Send cid)
    with assms(1,3) show ?thesis by (auto simp: send_future_drop_def split_beta Let_def split: option.splits)
  next
    case (Drop_Recv cid)
    with assms(1,4) show ?thesis by (auto simp: recv_future_drop_def split_beta Let_def split: option.splits)
  next
    case (A_Try_Send a)
    with assms(1) push [of a] show ?thesis
      by (auto simp: on_inner_def async_try_send_def split_beta split: if_splits storage_try_push_output.splits)
  next
    case (Send_Blocking a)
    with assms(1) push [of a] show ?thesis
      by (auto simp: on_inner_def send_blocking_def split_beta split: if_splits storage_try_push_output.splits)
  next
    case (Send_Blocking_Timeout a)
    with assms(1) push [of a] show ?thesis
      by (auto simp: on_inner_def send_blocking_timeout_def split_beta split: if_splits storage_try_push_output.splits)
  next
    case A_Try_Recv
    with assms(1) show ?thesis
      by (auto simp: on_inner_def async_try_recv_def split_beta split: prod.splits option.splits)
  next
    case Recv_Blocking
    with assms(1) show ?thesis
      by (auto simp: on_inner_def recv_blocking_def split_beta split: prod.splits option.splits if_splits)
  next
    case Recv_Blocking_Timeout
    with assms(1) show ?thesis
      by (auto simp: on_inner_def recv_blocking_timeout_def split_beta split: prod.splits option.splits if_splits)
  qed (use assms(1,5) in \<open>auto simp: async_send_def async_recv_def\<close>)
qed

end

section \<open>The contracts the channel keeps\<close>

lemma async_code_stretch:
  assumes "async_code st e op h = (h', sigs, out)"
  obtains h1 effs where "async_stretch st e op h = (h1, effs, out)"
    and "a_inner h' = a_inner h1" and "send_futs h' = send_futs h1"
    and "a_tx_live h' = a_tx_live h1" and "a_rx_live h' = a_rx_live h1"
    and "sigs = concat (map effect_signals effs)"
    and "a_sent h' = a_sent h @ log_sent (offered op h) out"
    and "a_received h' = a_received h @ log_received out"
proof -
  obtain h1 effs out1 where s: "async_stretch st e op h = (h1, effs, out1)"
    by (cases "async_stretch st e op h")
  show thesis by (rule that [of h1 effs]) (use assms s in \<open>auto simp: async_code_def\<close>)
qed

lemma stretch_wait:
  assumes "async_stretch st e op h = (h', effs, Wait cv op' tr)"
  shows "async_waits_on op' = Some cv \<and>
    (cv = Space_Available \<longrightarrow> a_receivers (a_inner h') > 0) \<and> (cv = Data_Available \<longrightarrow> a_senders (a_inner h') > 0)"
  using assms
proof (cases op)
  case (Poll_Send cid waker)
  with assms show ?thesis by (auto simp: run_poll_send_def split: option.splits prod.splits sum.splits)
next
  case (Poll_Recv cid waker)
  with assms show ?thesis by (auto simp: run_poll_recv_def split: option.splits prod.splits sum.splits)
next
  case (Drop_Send cid)
  with assms show ?thesis by (auto simp: send_future_drop_def split_beta Let_def split: option.splits)
next
  case (Drop_Recv cid)
  with assms show ?thesis by (auto simp: recv_future_drop_def split_beta Let_def split: option.splits)
next
  case (A_Try_Send a)
  with assms show ?thesis
    by (auto simp: on_inner_def async_try_send_def split_beta
        split: if_splits option.splits storage_try_push_output.splits)
next
  case (Send_Blocking a)
  with assms show ?thesis
    by (auto simp: on_inner_def send_blocking_def split_beta
        split: if_splits option.splits storage_try_push_output.splits)
next
  case (Send_Blocking_Timeout a)
  with assms show ?thesis
    by (auto simp: on_inner_def send_blocking_timeout_def split_beta
        split: if_splits option.splits storage_try_push_output.splits)
next
  case A_Try_Recv
  with assms show ?thesis
    by (auto simp: on_inner_def async_try_recv_def split_beta split: prod.splits option.splits)
next
  case Recv_Blocking
  with assms show ?thesis
    by (auto simp: on_inner_def recv_blocking_def split_beta split: prod.splits option.splits if_splits)
next
  case Recv_Blocking_Timeout
  with assms show ?thesis
    by (auto simp: on_inner_def recv_blocking_timeout_def split_beta split: prod.splits option.splits if_splits)
qed (auto simp: async_send_def async_recv_def split: option.splits)

lemma stretch_closes:
  assumes "async_stretch st e op h = (h', effs, out)"
  shows "a_senders (a_inner h) > 0 \<Longrightarrow> a_senders (a_inner h') = 0 \<Longrightarrow>
      Notify (Notify_All Data_Available) \<in> set effs"
    and "a_receivers (a_inner h) > 0 \<Longrightarrow> a_receivers (a_inner h') = 0 \<Longrightarrow>
      Notify (Notify_All Space_Available) \<in> set effs"
proof -
  have "(a_senders (a_inner h) > 0 \<longrightarrow> a_senders (a_inner h') = 0 \<longrightarrow>
        Notify (Notify_All Data_Available) \<in> set effs) \<and>
    (a_receivers (a_inner h) > 0 \<longrightarrow> a_receivers (a_inner h') = 0 \<longrightarrow>
        Notify (Notify_All Space_Available) \<in> set effs)"
  proof (cases "moves_handle op")
    case False
    from stretch_inner_ok [OF assms False] show ?thesis by (simp add: inner_ok_def)
  next
    case True
    with assms show ?thesis
      by (cases op) (auto simp: async_sender_drop_def async_receiver_drop_def Let_def wake_all_recvs_def
          wake_all_sends_def split: if_splits)
  qed
  then show "a_senders (a_inner h) > 0 \<Longrightarrow> a_senders (a_inner h') = 0 \<Longrightarrow>
      Notify (Notify_All Data_Available) \<in> set effs"
    and "a_receivers (a_inner h) > 0 \<Longrightarrow> a_receivers (a_inner h') = 0 \<Longrightarrow>
      Notify (Notify_All Space_Available) \<in> set effs" by blast+
qed

lemma signals_of_effects: "Notify s \<in> set effs \<Longrightarrow> s \<in> set (concat (map effect_signals effs))"
  by (induction effs) auto

context storage_contract
begin

lemma async_step_inv:
  assumes "async_inv inv h" and "async_code st e op h = (h', sigs, out)"
    and "op = A_Drop_Sender \<Longrightarrow> a_tx_live h > 0" and "op = A_Drop_Receiver \<Longrightarrow> a_rx_live h > 0"
    and "\<And>cid waker. op = Poll_Send cid waker \<or> op = Drop_Send cid \<Longrightarrow> map_of (send_futs h) cid \<noteq> None"
    and "\<And>cid waker. op = Poll_Recv cid waker \<or> op = Drop_Recv cid \<Longrightarrow> map_of (recv_futs h) cid \<noteq> None"
  shows "async_inv inv h' \<and> out \<noteq> Panic \<and>
    cap (a_queue (a_inner h')) = cap (a_queue (a_inner h)) \<and>
    queue_step st e (a_queue (a_inner h)) (log_sent (offered op h) out) (log_received out) (a_queue (a_inner h'))"
proof -
  from assms(2) obtain h1 effs where s: "async_stretch st e op h = (h1, effs, out)"
    and eqs: "a_inner h' = a_inner h1" "send_futs h' = send_futs h1" "a_tx_live h' = a_tx_live h1"
      "a_rx_live h' = a_rx_live h1"
    by (rule async_code_stretch)
  from assms(1) have i: "inv (a_queue (a_inner h))" "async_wf (a_inner h)" "futs_ok h"
    "a_senders (a_inner h) = a_tx_live h" "a_receivers (a_inner h) = a_rx_live h"
    by (simp_all add: async_inv_def)
  from stretch_frame [OF s] i(3) have futs: "futs_ok h1" by blast
  show ?thesis
  proof (cases "moves_handle op")
    case True
    note m = moves_handle_inner [OF s True i(4,5) assms(3,4) i(2)]
    with True futs eqs i(1) show ?thesis
      by (simp add: async_inv_def futs_ok_def moves_handle_offered queue_step_intros)
  next
    case False
    note ok = stretch_inner_ok [OF s False, unfolded inner_ok_def]
    with queue_step_storage [OF i(1) conjunct1 [OF ok]] stretch_no_panic [OF s assms(1,5,6) False]
      stretch_frame [OF s] False futs eqs i show ?thesis
      by (auto simp: async_inv_def futs_ok_def)
  qed
qed

end

sublocale storage_contract \<subseteq> async_recvs: wakes_on_close "async_code st" async_admits async_waits_on
  "async_inv inv" Data_Available "\<lambda>h. a_senders (a_inner h) = 0"
proof (unfold_locales, goal_cases)
  case (1 h e op h' sigs cv op' tr)
  from 1(2) obtain h1 effs where "async_stretch st e op h = (h1, effs, Wait cv op' tr)"
    by (rule async_code_stretch)
  with stretch_wait [OF this] show ?case by simp
next
  case (2 m op e h' sigs out)
  have "op = A_Drop_Sender \<Longrightarrow> a_tx_live (shared m) > 0" "op = A_Drop_Receiver \<Longrightarrow> a_rx_live (shared m) > 0"
    "op = Poll_Send cid waker \<or> op = Drop_Send cid \<Longrightarrow> map_of (send_futs (shared m)) cid \<noteq> None"
    "op = Poll_Recv cid waker \<or> op = Drop_Recv cid \<Longrightarrow> map_of (recv_futs (shared m)) cid \<noteq> None"
    for cid waker using 2(2) by auto
  from async_step_inv [OF 2(1,3) this] show ?case by simp
next
  case (3 h op e h' sigs out)
  have "op = A_Drop_Sender \<Longrightarrow> a_tx_live h > 0" "op = A_Drop_Receiver \<Longrightarrow> a_rx_live h > 0"
    "op = Poll_Send cid waker \<or> op = Drop_Send cid \<Longrightarrow> map_of (send_futs h) cid \<noteq> None"
    "op = Poll_Recv cid waker \<or> op = Drop_Recv cid \<Longrightarrow> map_of (recv_futs h) cid \<noteq> None"
    for cid waker using 3(2) by auto
  from async_step_inv [OF 3(1,3) this] show ?case by simp
next
  case (4 h e op h' sigs op' tr)
  from 4(2) obtain h1 effs where "async_stretch st e op h = (h1, effs, Wait Data_Available op' tr)"
    "a_inner h' = a_inner h1" by (rule async_code_stretch)
  with stretch_wait [OF this(1)] show ?case by simp
next
  case (5 h e op h' sigs out)
  from 5(2) obtain h1 effs where "async_stretch st e op h = (h1, effs, out)"
    "a_inner h' = a_inner h1" "sigs = concat (map effect_signals effs)" by (rule async_code_stretch)
  with stretch_closes(1) [OF this(1)] signals_of_effects 5(3,4) show ?case by simp
qed

sublocale storage_contract \<subseteq> async_sends: wakes_on_close "async_code st" async_admits async_waits_on
  "async_inv inv" Space_Available "\<lambda>h. a_receivers (a_inner h) = 0"
proof (unfold_locales, goal_cases)
  case (1 h e op h' sigs op' tr)
  from 1(2) obtain h1 effs where "async_stretch st e op h = (h1, effs, Wait Space_Available op' tr)"
    "a_inner h' = a_inner h1" by (rule async_code_stretch)
  with stretch_wait [OF this(1)] show ?case by simp
next
  case (2 h e op h' sigs out)
  from 2(2) obtain h1 effs where "async_stretch st e op h = (h1, effs, out)"
    "a_inner h' = a_inner h1" "sigs = concat (map effect_signals effs)" by (rule async_code_stretch)
  with stretch_closes(2) [OF this(1)] signals_of_effects 2(3,4) show ?case by simp
qed

section \<open>Runs\<close>

lemma make_channel_async_Some: "make_channel_async st n b = Some h \<longleftrightarrow>
   (\<exists>q. n > 0 \<and> cs_with_capacity_and_ordering st n b = Some q \<and>
     h = \<lparr> a_inner = \<lparr> a_queue = q, a_senders = 1, a_receivers = 1,
             send_fut_wakers = [], send_fut_waker_ids = {}, send_fut_pending = {},
             recv_fut_wakers = [], recv_fut_waker_ids = {}, recv_fut_pending = {} \<rparr>,
           next_op_id = 0, send_futs = [], recv_futs = [], a_tx_live = 1, a_rx_live = 1,
           woken_tasks = [], a_sent = [], a_received = [] \<rparr>)"
  by (auto simp: make_channel_async_def async_inner_new_def)

context storage_contract
begin

lemma async_start: "make_channel_async st n b = Some h \<Longrightarrow> async_inv inv h \<and>
    a_sent h = [] \<and> a_received h = [] \<and> elems (a_queue (a_inner h)) = [] \<and>
    n \<le> cap (a_queue (a_inner h)) \<and> n > 0"
  by (auto simp: make_channel_async_Some async_inv_def async_wf_def futs_ok_def dest: new_storage)

lemma async_run_inv: "async_run st n b spurious evs m \<Longrightarrow> async_inv inv (shared m)"
  by (auto simp: async_run_def dest: async_start async_recvs.run_inv)

lemma async_run_no_panic: "async_run st n b spurious evs m \<Longrightarrow> \<not> list_ex is_Panicked evs"
  by (auto simp: async_run_def dest!: async_start async_recvs.run_no_panic)

lemma async_run_closed:
  assumes "async_run st n b spurious evs m"
  shows "a_senders (a_inner (shared m)) = 0 \<Longrightarrow> sleeping Data_Available m = 0"
    and "a_receivers (a_inner (shared m)) = 0 \<Longrightarrow> sleeping Space_Available m = 0"
proof -
  from assms obtain h where h: "make_channel_async st n b = Some h"
    and run: "mon_run (async_code st) async_admits spurious (fresh_monitor h) evs m"
    by (auto simp: async_run_def)
  from async_start [OF h] have inv: "async_inv inv h" by simp
  show "a_senders (a_inner (shared m)) = 0 \<Longrightarrow> sleeping Data_Available m = 0"
    using async_recvs.run_closed [OF run] inv by simp
  show "a_receivers (a_inner (shared m)) = 0 \<Longrightarrow> sleeping Space_Available m = 0"
    using async_sends.run_closed [OF run] inv by simp
qed

text \<open>Every stretch of a run is a step of the queue.\<close>

lemma moved_queue:
  assumes "async_inv inv h" and "async_code st e op h = (h', sigs, out)"
  shows "queue_step st e (a_queue (a_inner h)) (log_sent (offered op h) out) (log_received out)
    (a_queue (a_inner h'))"
proof -
  from assms(2) obtain h1 effs where s: "async_stretch st e op h = (h1, effs, out)" "a_inner h' = a_inner h1"
    by (rule async_code_stretch)
  show ?thesis
  proof (cases "moves_handle op")
    case False
    with stretch_inner_ok [OF s(1)] s(2) show ?thesis by (simp add: inner_ok_def)
  next
    case True
    with s show ?thesis
      by (cases op) (auto simp: queue_step_intros dest!: drop_ok split: option.splits)
  qed
qed

lemma async_trace_step:
  assumes "mon_step (async_code st) async_admits spurious m ev m'" and "async_inv inv (shared m)"
  obtains (idle) "a_sent (shared m') = a_sent (shared m)" and "a_received (shared m') = a_received (shared m)"
      and "a_inner (shared m') = a_inner (shared m)"
  | (stretch) s r e where "a_sent (shared m') = a_sent (shared m) @ s"
      and "a_received (shared m') = a_received (shared m) @ r"
      and "queue_step st e (a_queue (a_inner (shared m))) s r (a_queue (a_inner (shared m')))"
  using assms(1)
proof (cases rule: mon_step_shared)
  case (stretch e op t sigs out)
  from stretch(1) have "a_sent (shared m') = a_sent (shared m) @ log_sent (offered op (shared m)) out"
    "a_received (shared m') = a_received (shared m) @ log_received out"
    by (rule async_code_stretch, simp)+
  from that(2) [OF this moved_queue [OF assms(2) stretch(1)]] show thesis .
next
  case (idle t op)
  with that(1) show thesis by simp
qed

lemma async_trace:
  assumes "mon_run (async_code st) async_admits spurious (fresh_monitor h) evs m" and "async_inv inv h"
    and "a_sent h = []" and "a_received h = []" and "elems (a_queue (a_inner h)) = []"
  shows "mset (a_received (shared m)) + mset (elems (a_queue (a_inner (shared m)))) \<subseteq>#
      mset (a_sent (shared m)) \<and>
    cap (a_queue (a_inner (shared m))) = cap (a_queue (a_inner h))"
  using assms
proof (induction rule: mon_run.induct)
  case run_start
  then show ?case by simp
next
  case (run_step evs m ev m')
  from async_recvs.run_inv [OF run_step.hyps(1) run_step.prems(1)]
  have inv: "async_inv inv (shared m)" .
  note IH = run_step.IH [OF run_step.prems]
  from run_step.hyps(2) inv show ?case
  proof (cases rule: async_trace_step)
    case idle
    with IH show ?thesis by simp
  next
    case (stretch s r e)
    from inv have "inv (a_queue (a_inner (shared m)))" by (simp add: async_inv_def)
    from queue_step_storage [OF this stretch(3)] IH trace_step [of "mset r"
        "mset (elems (a_queue (a_inner (shared m'))))" "mset (elems (a_queue (a_inner (shared m))))"
        "mset s" "mset (a_received (shared m))" "{#}" "mset (a_sent (shared m))"] stretch(1,2)
    show ?thesis by (simp add: ac_simps)
  qed
qed

lemma async_run_trace:
  assumes "async_run st n b spurious evs m"
  shows "mset (a_received (shared m)) + mset (elems (a_queue (a_inner (shared m)))) \<subseteq>#
      mset (a_sent (shared m))"
    and "\<exists>q. cs_with_capacity_and_ordering st n b = Some q \<and> cap (a_queue (a_inner (shared m))) = cap q"
    and "length (elems (a_queue (a_inner (shared m)))) \<le> cap (a_queue (a_inner (shared m)))"
proof -
  from assms obtain h where h: "make_channel_async st n b = Some h"
    and run: "mon_run (async_code st) async_admits spurious (fresh_monitor h) evs m"
    by (auto simp: async_run_def)
  from async_start [OF h] have "async_inv inv h" "a_sent h = []" "a_received h = []"
    "elems (a_queue (a_inner h)) = []" by simp_all
  note tr = async_trace [OF run this]
  from tr show "mset (a_received (shared m)) + mset (elems (a_queue (a_inner (shared m)))) \<subseteq>#
      mset (a_sent (shared m))" ..
  from tr h show "\<exists>q. cs_with_capacity_and_ordering st n b = Some q \<and>
      cap (a_queue (a_inner (shared m))) = cap q"
    by (auto simp: make_channel_async_Some)
  from async_run_inv [OF assms] show "length (elems (a_queue (a_inner (shared m)))) \<le>
      cap (a_queue (a_inner (shared m)))"
    by (simp add: async_inv_def bounded_elems)
qed

end

context fifo_storage_contract
begin

lemma queue_step_fifo:
  assumes "inv q" and "queue_step st e q s r q'"
  shows "elems q @ s = r @ elems q'"
  using assms(2) unfolding queue_step_def
proof (elim disjE exE conjE)
  fix a assume "cs_try_push st e q a = Some (q', Pushed)" "s = [a]" "r = []"
  with push_appends [OF assms(1)] show ?thesis by simp
next
  fix a res assume "cs_try_push st e q a = Some (q', res)" "res \<noteq> Pushed" "s = []" "r = []"
  with push_skipped [OF assms(1), of e a q'] push_full [OF assms(1), of e a q'] show ?thesis
    by (cases res) auto
next
  fix a assume "cs_get st e q = (q', Some a)" "s = []" "r = [a]"
  with get_head [OF assms(1)] show ?thesis by simp
next
  assume "cs_get st e q = (q', None)" "s = []" "r = []"
  with get_none_empty [OF assms(1)] get_none [OF assms(1)] show ?thesis by simp
qed simp

lemma async_fifo_trace:
  assumes "mon_run (async_code st) async_admits spurious (fresh_monitor h) evs m" and "async_inv inv h"
    and "a_sent h = []" and "a_received h = []" and "elems (a_queue (a_inner h)) = []"
  shows "a_sent (shared m) = a_received (shared m) @ elems (a_queue (a_inner (shared m)))"
  using assms
proof (induction rule: mon_run.induct)
  case run_start
  then show ?case by simp
next
  case (run_step evs m ev m')
  from async_recvs.run_inv [OF run_step.hyps(1) run_step.prems(1)]
  have inv: "async_inv inv (shared m)" .
  note IH = run_step.IH [OF run_step.prems]
  from run_step.hyps(2) inv show ?case
  proof (cases rule: async_trace_step)
    case idle
    with IH show ?thesis by simp
  next
    case (stretch s r e)
    from inv have "inv (a_queue (a_inner (shared m)))" by (simp add: async_inv_def)
    from queue_step_fifo [OF this stretch(3)] IH stretch(1,2) show ?thesis by simp
  qed
qed

lemma async_run_fifo:
  assumes "async_run st n b spurious evs m"
  shows "a_sent (shared m) = a_received (shared m) @ elems (a_queue (a_inner (shared m)))"
proof -
  from assms obtain h where h: "make_channel_async st n b = Some h"
    and run: "mon_run (async_code st) async_admits spurious (fresh_monitor h) evs m"
    by (auto simp: async_run_def)
  from async_start [OF h] have "async_inv inv h" "a_sent h = []" "a_received h = []"
    "elems (a_queue (a_inner h)) = []" by simp_all
  then show ?thesis by (rule async_fifo_trace [OF run])
qed

end

end
