(* ===== verification/Handoff.thy ===== *)
theory Handoff
  imports Monitor
begin

text \<open>
  A second contract for components on a monitor: those that keep a queue of who waits, threads and
  others, and hand each unit that becomes available to the head of the queue. A thread is
  notified when its entry leaves the queue, so the queue and the condition variable have to agree
  on how many threads sleep. That they do holds in the runs without timeouts and spurious
  wake-ups only; the facts here are about those.
\<close>

section \<open>Exact counts\<close>

lemma notify_One_exact:
  assumes "notify (Notify_One cv) m m'" and "coherent f m" and "sleeping cv m > 0"
  shows "Suc (sleeping cv m') = sleeping cv m \<and> woken f cv m' = Suc (woken f cv m)"
  using assms
  by (auto simp: notify_One_simps sleeping_def woken_def coherent_def wake_def list_ex_iff
      filter_empty_conv)

lemma notify_other_exact:
  assumes "notify sg m m'" and "coherent f m" and "sg \<noteq> Notify_One cv" and "sg \<noteq> Notify_All cv"
  shows "sleeping cv m' = sleeping cv m \<and> woken f cv m \<le> woken f cv m'"
proof (cases sg)
  case (Notify_One c)
  with assms show ?thesis
    by (auto simp: notify_One_simps sleeping_def woken_def coherent_def wake_def)
next
  case (Notify_All c)
  have "filter (\<lambda>w. w_cv w \<noteq> c \<and> w_cv w = cv) (asleep m) = filter (\<lambda>w. w_cv w = cv) (asleep m)"
    using assms(4) Notify_All by (intro filter_cong) auto
  with assms(1) Notify_All show ?thesis by (simp add: sleeping_def woken_def)
qed

lemma notifies_exact:
  assumes "notifies ss m m'" and "coherent f m" and "Notify_All cv \<notin> set ss"
    and "count_list ss (Notify_One cv) \<le> sleeping cv m"
  shows "sleeping cv m' + count_list ss (Notify_One cv) = sleeping cv m \<and>
    woken f cv m + count_list ss (Notify_One cv) \<le> woken f cv m'"
  using assms
proof (induction ss arbitrary: m)
  case (Cons sg ss)
  then obtain m1 where m1: "notify sg m m1" "notifies ss m1 m'" by auto
  note coh = notify_coherent [OF m1(1) Cons.prems(2)]
  show ?case
  proof (cases "sg = Notify_One cv")
    case True
    with Cons.prems(4) have "sleeping cv m > 0" by simp
    from notify_One_exact [OF m1(1) [unfolded True] Cons.prems(2) this]
      Cons.IH [OF m1(2) coh] Cons.prems(3,4) True show ?thesis by simp
  next
    case False
    from notify_other_exact [OF m1(1) Cons.prems(2) False] Cons.IH [OF m1(2) coh] Cons.prems(3,4) False
    show ?thesis by auto
  qed
qed simp

section \<open>The contract\<close>

text \<open>
  \<open>waiting h\<close> counts the threads in the queue, \<open>queueing h\<close> says that the queue is not empty,
  \<open>avail h\<close> counts the units to wait for, and \<open>credit h\<close> those of them that were handed to somebody
  who is no thread and has yet to take them.
\<close>

fun is_Timed_Out :: "('t, 'op, 'r) event \<Rightarrow> bool" where
  "is_Timed_Out (Timed_Out t op r) \<longleftrightarrow> True"
| "is_Timed_Out _ \<longleftrightarrow> False"

fun waits_at :: "'cv \<Rightarrow> ('op, 'cv, 'r) outcome \<Rightarrow> nat" where
  "waits_at cv (Wait c op tr) = of_bool (c = cv)"
| "waits_at cv _ = 0"

lemma outcome_not_Timed_Out [simp]: "\<not> is_Timed_Out (outcome_event t op out)"
  by (cases out) simp_all

locale handoff = monitored code admits waits_on inv
  for code :: "('e, 'h, 'op, 'cv, 'r) code"
    and admits :: "('t, 'h, 'op, 'cv, 'r) monitor \<Rightarrow> 'op \<Rightarrow> bool"
    and waits_on :: "'op \<Rightarrow> 'cv option" and inv :: "'h \<Rightarrow> bool" +
  fixes cv :: 'cv and waiting :: "'h \<Rightarrow> nat" and queueing :: "'h \<Rightarrow> bool"
    and avail :: "'h \<Rightarrow> nat" and credit :: "'h \<Rightarrow> nat"
  assumes hands_on: "inv (shared m) \<Longrightarrow> admits m op \<or> waits_on op \<noteq> None \<Longrightarrow>
      code e op (shared m) = (h', sigs, out) \<Longrightarrow> Notify_All cv \<notin> set sigs \<Longrightarrow>
      waiting h' + count_list sigs (Notify_One cv) = waiting (shared m) + waits_at cv out \<and>
      count_list sigs (Notify_One cv) \<le> waiting (shared m) \<and>
      (queueing h' \<longrightarrow> avail h' = 0 \<or> queueing (shared m) \<and>
         avail h' + credit (shared m) + of_bool (waits_on op = Some cv) \<le>
         avail (shared m) + credit h' + count_list sigs (Notify_One cv))"
    and hands_all: "inv (shared m) \<Longrightarrow> admits m op \<or> waits_on op \<noteq> None \<Longrightarrow>
      code e op (shared m) = (h', sigs, out) \<Longrightarrow> Notify_All cv \<in> set sigs \<Longrightarrow>
      waiting h' = 0 \<and> \<not> queueing h' \<and> waits_at cv out = 0"
begin

definition handed :: "('t, 'h, 'op, 'cv, 'r) monitor \<Rightarrow> bool" where
  "handed m \<longleftrightarrow> sleeping cv m = waiting (shared m) \<and>
     (queueing (shared m) \<longrightarrow> avail (shared m) \<le> credit (shared m) + woken waits_on cv m)"

lemma settle_counts:
  "sleeping cv (settle t out m) = sleeping cv m + waits_at cv out"
  "woken f cv (settle t out m) = woken f cv m"
  by (cases out; auto simp: sleeping_def woken_def)+

lemma stretch_handed:
  assumes "sleeping cv m0 = waiting (shared m)"
    and "queueing (shared m) \<longrightarrow> avail (shared m) \<le>
      credit (shared m) + woken waits_on cv m0 + of_bool (waits_on op = Some cv)"
    and "coherent waits_on m0" and "inv (shared m)" and "code e op (shared m) = (h', sigs, out)"
    and "notifies sigs m0 m1" and "admits m op \<or> waits_on op \<noteq> None" and "shared m1 = h'"
  shows "handed (settle t out m1)"
proof (cases "Notify_All cv \<in> set sigs")
  case True
  from notifies_All_sleeping [OF assms(6,3) True] hands_all [OF assms(4,7,5) True] assms(8)
  show ?thesis by (simp add: handed_def settle_counts)
next
  case False
  note now = hands_on [OF assms(4,7,5) False]
  with assms(1) have "count_list sigs (Notify_One cv) \<le> sleeping cv m0" by simp
  note n = notifies_exact [OF assms(6,3) False this]
  have "avail h' \<le> credit h' + woken waits_on cv m1" if "queueing h'"
  proof (cases "avail h' = 0")
    case False
    with now that have "queueing (shared m)"
      "avail h' + credit (shared m) + of_bool (waits_on op = Some cv) \<le>
         avail (shared m) + credit h' + count_list sigs (Notify_One cv)" by auto
    with assms(2) n show ?thesis by linarith
  qed simp
  moreover have "sleeping cv m1 + waits_at cv out = waiting h'" using now n assms(1) by linarith
  ultimately show ?thesis using assms(8) by (simp add: handed_def settle_counts)
qed

lemma step_handed:
  assumes "mon_step code admits False m ev m'" and "good m" and "handed m" and "\<not> is_Timed_Out ev"
  shows "handed m'"
  using assms(1)
proof (cases rule: mon_step.cases)
  case (call op t e h' sigs out m1)
  let ?m0 = "m\<lparr> shared := h' \<rparr>"
  have "sleeping cv ?m0 = waiting (shared m)"
    "queueing (shared m) \<longrightarrow> avail (shared m) \<le>
      credit (shared m) + woken waits_on cv ?m0 + of_bool (waits_on op = Some cv)"
    using assms(3) by (auto simp: handed_def sleeping_def woken_def)
  moreover have "coherent waits_on ?m0" "inv (shared m)" using assms(2) by (simp_all add: good_def coherent_def)
  ultimately show ?thesis
    unfolding call(2) by (rule stretch_handed [OF _ _ _ _ call(6,7)]) (use call(3) notifies_shared [OF call(7)] in auto)
next
  case (resume xs t op ys e h' sigs out m1)
  let ?m0 = "m\<lparr> shared := h', ready := xs @ ys \<rparr>"
  from assms(2) resume(3) have op: "waits_on op \<noteq> None" by (auto simp: good_def coherent_def)
  have "sleeping cv ?m0 = waiting (shared m)"
    "queueing (shared m) \<longrightarrow> avail (shared m) \<le>
      credit (shared m) + woken waits_on cv ?m0 + of_bool (waits_on op = Some cv)"
    using assms(3) resume(3) by (auto simp: handed_def sleeping_def woken_def)
  moreover have "coherent waits_on ?m0" "inv (shared m)"
    using assms(2) resume(3) by (auto simp: good_def coherent_def)
  ultimately show ?thesis
    unfolding resume(2) by (rule stretch_handed [OF _ _ _ _ resume(4,5)])
      (use op notifies_shared [OF resume(5)] in auto)
qed (use assms(4) in simp_all)

lemma run_handed:
  assumes "mon_run code admits False m0 evs m" and "good m0" and "handed m0"
    and "\<not> list_ex is_Timed_Out evs"
  shows "handed m"
  using assms
proof (induction rule: mon_run.induct)
  case (run_step evs m ev m')
  from run_good [OF run_step.hyps(1) run_step.prems(1)] run_step.IH run_step.prems
    step_handed [OF run_step.hyps(2)] show ?case by simp
qed simp

text \<open>What clients get: with everybody who was woken through, nobody waits for what is there.\<close>

lemma quiescent_handed:
  assumes "mon_run code admits False (fresh_monitor h0) evs m" and "inv h0"
    and "waiting h0 = 0" and "\<not> queueing h0" and "\<not> list_ex is_Timed_Out evs"
    and "ready m = []"
  shows "sleeping cv m = waiting (shared m) \<and>
    (queueing (shared m) \<longrightarrow> avail (shared m) \<le> credit (shared m))"
proof -
  have "handed m"
    by (rule run_handed [OF assms(1) _ _ assms(5)]) (use assms(2-4) in \<open>simp_all add: handed_def\<close>)
  with assms(6) show ?thesis by (simp add: handed_def woken_def)
qed

end

section \<open>Stricter clients\<close>

text \<open>A run under a rule that admits less is a run.\<close>

lemma mon_step_mono:
  assumes "mon_step code admits spurious m ev m'" and "\<And>m op. admits m op \<Longrightarrow> admits' m op"
  shows "mon_step code admits' spurious m ev m'"
  using assms(1)
proof (cases rule: mon_step.cases)
  case (call op t e h' sigs out m1)
  note adm = assms(2) [of m op, OF call(3)]
  show ?thesis unfolding call(1,2) by (rule mon_step.call [where admits = admits']) (fact adm call)+
next
  case (resume xs t op ys e h' sigs out m1)
  show ?thesis unfolding resume(1,2) by (rule mon_step.resume) (fact resume)+
next
  case (timeout xs t cv op r ys)
  show ?thesis unfolding timeout(1,2) by (rule mon_step.timeout) (fact timeout)
next
  case (spurious_wake xs w ys)
  show ?thesis unfolding spurious_wake(1,2) by (rule mon_step.spurious_wake) (fact spurious_wake)+
qed

lemma mon_run_mono:
  assumes "mon_run code admits spurious m0 evs m" and "\<And>m op. admits m op \<Longrightarrow> admits' m op"
  shows "mon_run code admits' spurious m0 evs m"
  using assms(1)
proof (induction rule: mon_run.induct)
  case run_start
  show ?case by (rule mon_run.run_start)
next
  case (run_step evs m ev m')
  from mon_run.run_step [OF run_step.IH mon_step_mono [OF run_step.hyps(2) assms(2)]] show ?case .
qed

end
