(* ===== verification/Async_Wakeups.thy ===== *)
theory Async_Wakeups
  imports Base_Channel_Async Handoff
begin

text \<open>
  No wake-up is lost on the asynchronous channel, provided tasks are polled only when they were
  woken, no timed wait runs out and condition variables do not wake on their own (what
  happens otherwise is shown with the channels). The code treats the two sides of the channel
  alike; here a \<open>side\<close> is the abstract state of one of them, and every operation of the channel is
  shown to be one move on each.
\<close>

section \<open>One side of the channel\<close>

text \<open>
  The waker queue; the futures that were popped from it and have yet to be polled; the futures that
  have been polled without result; and those of them whose task was woken since.
\<close>

record side =
  s_wakers :: "(waker \<times> client_id) option list"
  s_pending :: "client_id set"
  s_queued :: "client_id set"
  s_awake :: "client_id set"

definition side_ids :: "side \<Rightarrow> client_id set" where
  "side_ids s = set (waker_ids (s_wakers s))"

definition side_sync :: "side \<Rightarrow> side" where
  "side_sync s = s\<lparr> s_wakers := s_wakers s @ [None] \<rparr>"

text \<open>The head of the queue is woken; for a thread that is a notification, counted here.\<close>

definition side_next :: "side \<Rightarrow> side \<times> nat" where
  "side_next s =
     (case s_wakers s of
        [] \<Rightarrow> (s, 0)
      | Some (w, i) # ws \<Rightarrow>
          (s\<lparr> s_wakers := ws, s_pending := insert i (s_pending s), s_awake := insert i (s_awake s) \<rparr>, 0)
      | None # ws \<Rightarrow> (s\<lparr> s_wakers := ws \<rparr>, 1))"

definition side_done :: "client_id \<Rightarrow> side \<Rightarrow> side" where
  "side_done cid s = s\<lparr> s_pending := s_pending s - {cid}, s_queued := s_queued s - {cid},
     s_awake := s_awake s - {cid} \<rparr>"

definition side_queue :: "client_id \<Rightarrow> side \<Rightarrow> side" where
  "side_queue cid s = s\<lparr> s_wakers := s_wakers s @ [Some (cid, cid)],
     s_pending := s_pending s - {cid}, s_queued := insert cid (s_queued s),
     s_awake := s_awake s - {cid} \<rparr>"

definition side_drop :: "client_id \<Rightarrow> side \<Rightarrow> side \<times> nat" where
  "side_drop cid s =
     (let s1 = (side_done cid s)\<lparr> s_wakers :=
            (case remove_waker cid (s_wakers s) of Some ws \<Rightarrow> ws | None \<Rightarrow> s_wakers s) \<rparr>
      in if cid \<in> s_pending s then side_next s1 else (s1, 0))"

definition side_close :: "side \<Rightarrow> side" where
  "side_close s = s\<lparr> s_wakers := [], s_awake := s_awake s \<union> side_ids s \<rparr>"

lemmas side_defs = side_sync_def side_next_def side_done_def side_queue_def side_drop_def
  side_close_def side_ids_def

definition own_waker :: "(waker \<times> client_id) option \<Rightarrow> bool" where
  "own_waker x \<longleftrightarrow> (case x of Some (w, i) \<Rightarrow> w = i | None \<Rightarrow> True)"

definition side_ok :: "side \<Rightarrow> bool" where
  "side_ok s \<longleftrightarrow> list_all own_waker (s_wakers s) \<and> distinct (waker_ids (s_wakers s)) \<and>
     finite (s_awake s) \<and> s_pending s \<subseteq> s_awake s \<and> side_ids s \<inter> s_awake s = {} \<and>
     s_queued s = side_ids s \<union> s_awake s"

section \<open>The moves\<close>

text \<open>
  A move with \<open>u\<close> units available before and \<open>u'\<close> after; \<open>b\<close> when it takes the place of a woken
  thread; it notifies \<open>n\<close> threads, or all of them (\<open>a\<close>), or puts one to sleep (\<open>w\<close>).
\<close>

inductive side_move :: "nat \<Rightarrow> nat \<Rightarrow> bool \<Rightarrow> side \<Rightarrow> side \<Rightarrow> nat \<Rightarrow> bool \<Rightarrow> bool \<Rightarrow> bool" where
  move_keep: "u' = 0 \<or> u' + of_bool b \<le> u \<or> s_wakers s = [] \<Longrightarrow> side_move u u' b s s 0 False False"
| move_next: "u' \<le> u + 1 \<Longrightarrow> side_next s = (s', n) \<Longrightarrow> side_move u u' False s s' n False False"
| move_sleep: "side_move u 0 b s (side_sync s) 0 False True"
| move_done: "cid \<notin> side_ids s \<Longrightarrow> u' = 0 \<or> u' < u \<or> s_wakers s = [] \<Longrightarrow>
    side_move u u' False s (side_done cid s) 0 False False"
| move_queue: "cid \<notin> side_ids s \<Longrightarrow> u' = 0 \<or> cid \<notin> s_queued s \<and> s_wakers s \<noteq> [] \<and> u' \<le> u \<Longrightarrow>
    side_move u u' False s (side_queue cid s) 0 False False"
| move_drop: "u' \<le> u \<Longrightarrow> side_drop cid s = (s', n) \<Longrightarrow> side_move u u' False s s' n False False"
| move_close: "side_move u u' False s (side_close s) n True False"

lemma side_next_ok: "side_ok s \<Longrightarrow> side_next s = (s', n) \<Longrightarrow> side_ok s'"
  by (auto simp: side_ok_def side_defs own_waker_def split: list.splits option.splits)

lemma side_done_ok: "side_ok s \<Longrightarrow> cid \<notin> side_ids s \<Longrightarrow> side_ok (side_done cid s)"
  by (auto simp: side_ok_def side_defs)

lemma side_queue_ok: "side_ok s \<Longrightarrow> cid \<notin> side_ids s \<Longrightarrow> side_ok (side_queue cid s)"
  by (auto simp: side_ok_def side_defs own_waker_def)

definition side_removed :: "client_id \<Rightarrow> side \<Rightarrow> side" where
  "side_removed cid s = (side_done cid s)\<lparr> s_wakers :=
     (case remove_waker cid (s_wakers s) of Some ws \<Rightarrow> ws | None \<Rightarrow> s_wakers s) \<rparr>"

lemma side_drop_alt: "side_drop cid s =
    (if cid \<in> s_pending s then side_next (side_removed cid s) else (side_removed cid s, 0))"
  by (simp add: side_drop_def side_removed_def Let_def)

lemma remove_waker_None: "remove_waker cid ws = None \<Longrightarrow> cid \<notin> set (waker_ids ws)"
  by (induction ws) (auto split: option.splits if_splits)

lemma side_removed_ok: "side_ok s \<Longrightarrow> side_ok (side_removed cid s)"
proof (cases "remove_waker cid (s_wakers s)")
  case None
  then show "side_ok s \<Longrightarrow> ?thesis"
    using side_done_ok [of s cid] remove_waker_None [OF None] by (simp add: side_removed_def side_ids_def side_done_def)
next
  case (Some ws)
  assume s: "side_ok s"
  obtain us w vs where ws: "s_wakers s = us @ Some (w, cid) # vs" "ws = us @ vs"
    using remove_waker_Some [OF Some] by blast
  have removed: "s_wakers (side_removed cid s) = us @ vs" "s_pending (side_removed cid s) = s_pending s - {cid}"
    "s_queued (side_removed cid s) = s_queued s - {cid}" "s_awake (side_removed cid s) = s_awake s - {cid}"
    by (simp_all add: side_removed_def side_done_def Some ws(2))
  from s ws(1) show ?thesis unfolding side_ok_def side_ids_def removed by auto
qed

theorem side_move_ok:
  assumes "side_move u u' b s s' n a w" and "side_ok s"
  shows "side_ok s'"
  using assms
proof (cases rule: side_move.cases)
  case move_sleep
  with assms(2) show ?thesis by (auto simp: side_ok_def side_defs own_waker_def)
next
  case (move_drop cid)
  from side_removed_ok [OF assms(2)] have ok: "side_ok (side_removed cid s)" .
  show ?thesis
  proof (cases "cid \<in> s_pending s")
    case True
    with move_drop(5) have "side_next (side_removed cid s) = (s', n)" by (simp add: side_drop_alt)
    with ok show ?thesis by (rule side_next_ok)
  next
    case False
    with move_drop(5) ok show ?thesis by (simp add: side_drop_alt)
  qed
next
  case move_close
  with assms(2) show ?thesis by (auto simp: side_ok_def side_defs)
qed (use assms(2) in \<open>auto intro: side_next_ok side_done_ok side_queue_ok\<close>)

section \<open>What the moves account for\<close>

definition threads :: "side \<Rightarrow> nat" where
  "threads s = count_list (s_wakers s) None"

definition accounts :: "nat \<Rightarrow> nat \<Rightarrow> bool \<Rightarrow> side \<Rightarrow> side \<Rightarrow> nat \<Rightarrow> bool \<Rightarrow> bool" where
  "accounts u u' b s s' n w \<longleftrightarrow>
     threads s' + n = threads s + of_bool w \<and> n \<le> threads s \<and>
     (s_wakers s' \<noteq> [] \<longrightarrow> u' = 0 \<or> s_wakers s \<noteq> [] \<and>
        u' + card (s_pending s) + of_bool b \<le> u + card (s_pending s') + n)"

lemma side_ok_finite: "side_ok s \<Longrightarrow> finite (s_pending s)"
  by (auto simp: side_ok_def dest: finite_subset)

lemma side_next_accounts:
  assumes "side_ok s" and "side_next s = (s', n)" and "u' \<le> u + 1"
  shows "accounts u u' False s s' n False"
proof (cases "s_wakers s")
  case (Cons x ws)
  show ?thesis
  proof (cases x)
    case (Some y)
    obtain w i where y: "y = (w, i)" by (cases y)
    from assms(1) Cons Some y have "i \<notin> s_pending s" "finite (s_pending s)"
      by (auto simp: side_ok_def side_ids_def dest: finite_subset)
    with assms Cons Some y show ?thesis by (auto simp: accounts_def threads_def side_next_def)
  qed (use assms Cons in \<open>auto simp: accounts_def threads_def side_next_def\<close>)
qed (use assms in \<open>auto simp: accounts_def threads_def side_next_def\<close>)

lemma count_list_remove_waker:
  "remove_waker cid ws = Some ws' \<Longrightarrow> count_list ws' None = count_list ws None"
  by (drule remove_waker_Some) auto

lemma card_remove_le: "finite A \<Longrightarrow> card A \<le> Suc (card (A - {x}))"
  by (cases "x \<in> A") (simp_all add: card_Suc_Diff1)

lemma side_removed_accounts:
  "threads (side_removed cid s) = threads s"
  "s_pending (side_removed cid s) = s_pending s - {cid}"
  "s_wakers (side_removed cid s) \<noteq> [] \<Longrightarrow> s_wakers s \<noteq> []"
  by (auto simp: threads_def side_removed_def side_done_def count_list_remove_waker split: option.splits)

lemma side_drop_accounts:
  assumes "side_ok s" and "side_drop cid s = (s', n)" and "u' \<le> u"
  shows "accounts u u' False s s' n False"
proof (cases "cid \<in> s_pending s")
  case True
  with assms(2) have "side_next (side_removed cid s) = (s', n)" by (simp add: side_drop_alt)
  from side_next_accounts [OF side_removed_ok [OF assms(1)] this, where u = "u' - 1" and u' = u'] 
  have a: "accounts (u' - 1) u' False (side_removed cid s) s' n False" if "u' > 0"
    using that by simp
  show ?thesis
  proof (cases "u' = 0")
    case True
    from side_next_accounts [OF side_removed_ok [OF assms(1)] \<open>side_next (side_removed cid s) = (s', n)\<close>, of 0 0]
    have "accounts 0 0 False (side_removed cid s) s' n False" by simp
    with True show ?thesis by (simp add: accounts_def side_removed_accounts)
  next
    case False
    have "card (s_pending s) = Suc (card (s_pending s - {cid}))"
      using \<open>cid \<in> s_pending s\<close> side_ok_finite [OF assms(1)] by (metis card_Suc_Diff1)
    with a False assms(3) side_removed_accounts(3) [of cid s] show ?thesis
      by (auto simp: accounts_def side_removed_accounts)
  qed
next
  case False
  with assms(2) have s': "s' = side_removed cid s" "n = 0" by (simp_all add: side_drop_alt)
  from False have "s_pending s - {cid} = s_pending s" by blast
  with assms(3) side_removed_accounts(3) [of cid s] show ?thesis
    unfolding s' accounts_def by (simp add: side_removed_accounts(1,2))
qed

theorem side_move_accounts:
  assumes "side_move u u' b s s' n a w" and "side_ok s" and "\<not> a"
  shows "accounts u u' b s s' n w"
  using assms(1)
proof (cases rule: side_move.cases)
  case (move_done cid)
  with card_remove_le [OF side_ok_finite [OF assms(2)], of cid] show ?thesis
    by (auto simp: accounts_def threads_def side_done_def)
next
  case (move_queue cid)
  have "card (s_pending s - {cid}) = card (s_pending s)" if "cid \<notin> s_queued s"
    using that assms(2) by (auto simp: side_ok_def intro!: arg_cong [of _ _ card])
  with move_queue show ?thesis by (auto simp: accounts_def threads_def side_queue_def)
next
  case move_next
  with side_next_accounts [OF assms(2)] show ?thesis by simp
next
  case (move_drop cid)
  with side_drop_accounts [OF assms(2)] show ?thesis by simp
qed (use assms(3) in \<open>auto simp: accounts_def threads_def side_sync_def\<close>)

lemma side_move_close: "side_move u u' b s s' n True w \<Longrightarrow> s_wakers s' = [] \<and> \<not> w"
  by (erule side_move.cases) (simp_all add: side_close_def)

end
