(* ===== verification/Async_Moves.thy ===== *)
theory Async_Moves
  imports Async_Wakeups
begin

text \<open>
  Every operation of the asynchronous channel is one move on each of its two sides. From that and
  the contract of theory \<open>Handoff\<close> follows that no wake-up is lost.
\<close>

section \<open>The sides of a channel\<close>

definition make_side :: "(waker \<times> client_id) option list \<Rightarrow> client_id set \<Rightarrow> client_id set \<Rightarrow> waker set \<Rightarrow> side" where
  "make_side ws p q w = \<lparr> s_wakers = ws, s_pending = p, s_queued = q, s_awake = q \<inter> w \<rparr>"

definition queued_sends :: "('a, 's) async_shared \<Rightarrow> client_id set" where
  "queued_sends h = {cid. \<exists>f. map_of (send_futs h) cid = Some f \<and> sf_queued f}"

definition queued_recvs :: "('a, 's) async_shared \<Rightarrow> client_id set" where
  "queued_recvs h = {cid. \<exists>f. map_of (recv_futs h) cid = Some f \<and> rf_queued f}"

lemma queued_sends_code [code]:
  "queued_sends h = set (filter (\<lambda>cid. map_option sf_queued (map_of (send_futs h) cid) = Some True)
     (map fst (send_futs h)))"
  by (force simp: queued_sends_def image_iff dest: map_of_SomeD)

lemma queued_recvs_code [code]:
  "queued_recvs h = set (filter (\<lambda>cid. map_option rf_queued (map_of (recv_futs h) cid) = Some True)
     (map fst (recv_futs h)))"
  by (force simp: queued_recvs_def image_iff dest: map_of_SomeD)

definition send_side :: "('a, 's) async_shared \<Rightarrow> side" where
  "send_side h = make_side (send_fut_wakers (a_inner h)) (send_fut_pending (a_inner h))
     (queued_sends h) (set (woken_tasks h))"

definition recv_side :: "('a, 's) async_shared \<Rightarrow> side" where
  "recv_side h = make_side (recv_fut_wakers (a_inner h)) (recv_fut_pending (a_inner h))
     (queued_recvs h) (set (woken_tasks h))"

text \<open>Ids are fresh, so that a future is on one side only.\<close>

definition tasks_ok :: "('a, 's) async_shared \<Rightarrow> bool" where
  [inv_defs]: "tasks_ok h \<longleftrightarrow> side_ok (send_side h) \<and> side_ok (recv_side h) \<and>
     (\<forall>cid \<in> dom (map_of (send_futs h)) \<union> dom (map_of (recv_futs h)). cid < next_op_id h) \<and>
     dom (map_of (send_futs h)) \<inter> dom (map_of (recv_futs h)) = {}"

text \<open>
  The clients: each future is a task of its own, whose waker is its number, and is polled again
  only after its waker was called.
\<close>

fun orderly :: "('a, 's) async_shared \<Rightarrow> 'a async_op \<Rightarrow> bool" where
  "orderly h (Poll_Send cid waker) \<longleftrightarrow> waker = cid \<and> (cid \<in> queued_sends h \<longrightarrow> cid \<in> set (woken_tasks h))"
| "orderly h (Poll_Recv cid waker) \<longleftrightarrow> waker = cid \<and> (cid \<in> queued_recvs h \<longrightarrow> cid \<in> set (woken_tasks h))"
| "orderly h _ \<longleftrightarrow> True"

definition task_admits :: "('a, 's) async_monitor \<Rightarrow> 'a async_op \<Rightarrow> bool" where
  "task_admits m op \<longleftrightarrow> async_admits m op \<and> orderly (shared m) op"

lemma make_side_sel [simp]:
  "s_wakers (make_side ws p q w) = ws" "s_pending (make_side ws p q w) = p"
  "s_queued (make_side ws p q w) = q" "s_awake (make_side ws p q w) = q \<inter> w"
  "side_ids (make_side ws p q w) = set (waker_ids ws)"
  by (simp_all add: make_side_def side_ids_def)

lemma make_side_cong: "ws = ws' \<Longrightarrow> p = p' \<Longrightarrow> q = q' \<Longrightarrow> q \<inter> w = q' \<inter> w' \<Longrightarrow>
    make_side ws p q w = make_side ws' p' q' w'"
  by (simp add: make_side_def)

section \<open>What is woken and notified\<close>

definition wakes :: "effect list \<Rightarrow> waker set" where
  "wakes effs = set (concat (map effect_wakes effs))"

definition signals :: "effect list \<Rightarrow> async_cv signal list" where
  "signals effs = concat (map effect_signals effs)"

lemma effects_simps [simp]:
  "wakes [] = {}" "wakes (Wake i # effs) = insert i (wakes effs)" "wakes (Notify s # effs) = wakes effs"
  "wakes (effs @ effs') = wakes effs \<union> wakes effs'"
  "signals [] = []" "signals (Wake i # effs) = signals effs" "signals (Notify s # effs) = s # signals effs"
  "signals (effs @ effs') = signals effs @ signals effs'"
  by (simp_all add: wakes_def signals_def)

text \<open>The sides after a stretch, in terms of its effects.\<close>

lemma sides_after:
  assumes "async_code st e op h = (h', sigs, out)" and "async_stretch st e op h = (h1, effs, out1)"
  shows "out = out1" and "sigs = signals effs" and "a_inner h' = a_inner h1"
    and "next_op_id h' = next_op_id h1" and "send_futs h' = send_futs h1" and "recv_futs h' = recv_futs h1"
    and "set (woken_tasks h') = {w \<in> set (woken_tasks h). polled_task op \<noteq> Some w} \<union> wakes effs"
  using assms by (auto simp: async_code_def signals_def wakes_def)

text \<open>The head of a waker queue is woken.\<close>

lemma own_waker_simps [simp]: "own_waker None" "own_waker (Some (w, i)) \<longleftrightarrow> w = i"
  by (simp_all add: own_waker_def)

lemma next_recv_side:
  assumes "wake_next_recv d = (d', effs)"
    and "side_ok (make_side (recv_fut_wakers d) (recv_fut_pending d) q w)"
  shows "side_next (make_side (recv_fut_wakers d) (recv_fut_pending d) q w) =
      (make_side (recv_fut_wakers d') (recv_fut_pending d') q (w \<union> wakes effs),
       count_list (signals effs) (Notify_One Data_Available))"
    and "wakes effs \<subseteq> q" and "Notify_All cv \<notin> set (signals effs)"
    and "Notify_One Space_Available \<notin> set (signals effs)"
  using assms
  by (auto simp: wake_next_recv_def side_next_def side_ok_def make_side_def side_ids_def
      split: list.splits option.splits)

lemma next_send_side:
  assumes "wake_next_send d = (d', effs)"
    and "side_ok (make_side (send_fut_wakers d) (send_fut_pending d) q w)"
  shows "side_next (make_side (send_fut_wakers d) (send_fut_pending d) q w) =
      (make_side (send_fut_wakers d') (send_fut_pending d') q (w \<union> wakes effs),
       count_list (signals effs) (Notify_One Space_Available))"
    and "wakes effs \<subseteq> q" and "Notify_All cv \<notin> set (signals effs)"
    and "Notify_One Data_Available \<notin> set (signals effs)"
  using assms
  by (auto simp: wake_next_send_def side_next_def side_ok_def make_side_def side_ids_def
      split: list.splits option.splits)


section \<open>The operations on the inner data\<close>

definition recv_kept :: "'s async_inner \<Rightarrow> 's async_inner \<Rightarrow> bool" where
  "recv_kept d d' \<longleftrightarrow> recv_fut_wakers d' = recv_fut_wakers d \<and> recv_fut_pending d' = recv_fut_pending d"

definition send_kept :: "'s async_inner \<Rightarrow> 's async_inner \<Rightarrow> bool" where
  "send_kept d d' \<longleftrightarrow> send_fut_wakers d' = send_fut_wakers d \<and> send_fut_pending d' = send_fut_pending d"

lemma kept_queue [simp]:
  "recv_kept d (d'\<lparr> a_queue := q \<rparr>) \<longleftrightarrow> recv_kept d d'" "send_kept d (d'\<lparr> a_queue := q \<rparr>) \<longleftrightarrow> send_kept d d'"
  "recv_kept d d" "send_kept d d"
  by (simp_all add: recv_kept_def send_kept_def)

lemma kept_other_side [simp]:
  "recv_kept d (fst (wake_next_send d')) \<longleftrightarrow> recv_kept d d'"
  "recv_kept d (append_send_fut_waker w cid d') \<longleftrightarrow> recv_kept d d'"
  "recv_kept d (append_send_sync_waker d') \<longleftrightarrow> recv_kept d d'"
  "recv_kept d (confirm_send_fut_waked cid d') \<longleftrightarrow> recv_kept d d'"
  "recv_kept d (fst (notify_send_fut_drop cid d')) \<longleftrightarrow> recv_kept d d'"
  "recv_kept d (fst (wake_all_sends d')) \<longleftrightarrow> recv_kept d d'"
  "send_kept d (fst (wake_next_recv d')) \<longleftrightarrow> send_kept d d'"
  "send_kept d (append_recv_fut_waker w cid d') \<longleftrightarrow> send_kept d d'"
  "send_kept d (append_recv_sync_waker d') \<longleftrightarrow> send_kept d d'"
  "send_kept d (confirm_recv_fut_waked cid d') \<longleftrightarrow> send_kept d d'"
  "send_kept d (fst (notify_recv_fut_drop cid d')) \<longleftrightarrow> send_kept d d'"
  "send_kept d (fst (wake_all_recvs d')) \<longleftrightarrow> send_kept d d'"
  by (auto simp: recv_kept_def send_kept_def waker_defs Let_def split: list.split option.split)

text \<open>A push as the receivers see it, and a value taken out as the senders see it.\<close>

definition recv_pushed :: "('s async_inner \<Rightarrow> nat) \<Rightarrow> 's async_inner \<Rightarrow> 's async_inner \<Rightarrow> effect list \<Rightarrow> bool" where
  "recv_pushed u d d' effs \<longleftrightarrow> (\<exists>d1. recv_kept d d1 \<and>
     (d' = d1 \<and> effs = [] \<and> u d' \<le> u d \<or> wake_next_recv d1 = (d', effs) \<and> u d' \<le> u d + 1))"

definition send_popped :: "('s async_inner \<Rightarrow> nat) \<Rightarrow> 's async_inner \<Rightarrow> 's async_inner \<Rightarrow> effect list \<Rightarrow> bool" where
  "send_popped u d d' effs \<longleftrightarrow> (\<exists>d1. send_kept d d1 \<and>
     (d' = d1 \<and> effs = [] \<and> u d' \<le> u d \<or> wake_next_send d1 = (d', effs) \<and> u d' \<le> u d + 1))"

lemma recv_pushed_keep: "recv_kept d d' \<Longrightarrow> u d' \<le> u d \<Longrightarrow> recv_pushed u d d' []"
  by (auto simp: recv_pushed_def)

lemma recv_pushed_next:
  "wake_next_recv d1 = (d', effs) \<Longrightarrow> recv_kept d d1 \<Longrightarrow> u d' \<le> u d + 1 \<Longrightarrow> recv_pushed u d d' effs"
  by (auto simp: recv_pushed_def)

lemma send_popped_keep: "send_kept d d' \<Longrightarrow> u d' \<le> u d \<Longrightarrow> send_popped u d d' []"
  by (auto simp: send_popped_def)

lemma send_popped_next:
  "wake_next_send d1 = (d', effs) \<Longrightarrow> send_kept d d1 \<Longrightarrow> u d' \<le> u d + 1 \<Longrightarrow> send_popped u d d' effs"
  by (auto simp: send_popped_def)

lemma wake_next_queue:
  "wake_next_recv d = (d', effs) \<Longrightarrow> a_queue d' = a_queue d"
  "wake_next_send d = (d', effs) \<Longrightarrow> a_queue d' = a_queue d"
  using wake_next_recv_frame(1) [of d] wake_next_send_frame(1) [of d] by simp_all

text \<open>A poll confirms first that the future was woken.\<close>

definition confirmed_recv :: "client_id \<Rightarrow> recv_future \<Rightarrow> 's async_inner \<Rightarrow> 's async_inner" where
  "confirmed_recv cid f d = (if rf_queued f then confirm_recv_fut_waked cid d else d)"

definition confirmed_send :: "client_id \<Rightarrow> 'b send_future \<Rightarrow> 's async_inner \<Rightarrow> 's async_inner" where
  "confirmed_send cid f d = (if sf_queued f then confirm_send_fut_waked cid d else d)"

lemma confirmed_frames [simp]:
  "a_queue (confirmed_recv cid f d) = a_queue d" "a_queue (confirmed_send cid f' d) = a_queue d"
  "recv_fut_wakers (confirmed_recv cid f d) = recv_fut_wakers d"
  "recv_fut_waker_ids (confirmed_recv cid f d) = recv_fut_waker_ids d"
  "send_fut_wakers (confirmed_send cid f' d) = send_fut_wakers d"
  "send_fut_waker_ids (confirmed_send cid f' d) = send_fut_waker_ids d"
  "a_receivers (confirmed_send cid f' d) = a_receivers d" "a_senders (confirmed_recv cid f d) = a_senders d"
  by (simp_all add: confirmed_recv_def confirmed_send_def)

context storage_contract
begin

definition units :: "'s async_inner \<Rightarrow> nat" where
  "units d = length (elems (a_queue d))"

lemma units_frames [simp]:
  "units (append_send_fut_waker w cid d) = units d" "units (append_recv_fut_waker w cid d) = units d"
  "units (append_send_sync_waker d) = units d" "units (append_recv_sync_waker d) = units d"
  "units (confirm_send_fut_waked cid d) = units d" "units (confirm_recv_fut_waked cid d) = units d"
  "units (d\<lparr> a_queue := q \<rparr>) = length (elems q)"
  by (simp_all add: units_def)

lemma units_next:
  "wake_next_recv d = (d', effs) \<Longrightarrow> units d' = units d"
  "wake_next_send d = (d', effs) \<Longrightarrow> units d' = units d"
  by (simp_all add: units_def wake_next_queue)

lemma push_units:
  assumes "inv (a_queue d)" and "cs_try_push st e (a_queue d) a = Some (q, r)"
  shows "length (elems q) \<le> Suc (units d)" and "r \<noteq> Pushed \<Longrightarrow> length (elems q) = units d"
  using assms push_pushed_length [of "a_queue d" e a q] push_skipped [of "a_queue d" e a q]
    push_full [of "a_queue d" e a q] by (cases r; auto simp: units_def)+

lemma get_units:
  assumes "inv (a_queue d)" and "cs_get st e (a_queue d) = (q, r)"
  shows "r = None \<Longrightarrow> length (elems q) = 0" and "r = Some x \<Longrightarrow> length (elems q) < units d"
  using assms get_none get_some_less by (auto simp: units_def)

lemma try_send_recv:
  assumes "inv (a_queue d)" and "async_try_send st e a d = (d', effs, out)"
  shows "recv_pushed units d d' effs \<and> waits_at Data_Available out = 0"
proof (cases "a_receivers d = 0")
  case False
  from push_total [OF assms(1), of e a] obtain q r where q: "cs_try_push st e (a_queue d) a = Some (q, r)"
    by blast
  obtain d2 effs2 where w: "wake_next_recv (d\<lparr> a_queue := q \<rparr>) = (d2, effs2)" by fastforce
  from assms(2) False q w push_units [OF assms(1) q] units_next(1) [OF w] show ?thesis
    by (cases r) (auto simp: async_try_send_def intro!: recv_pushed_keep recv_pushed_next)
qed (use assms in \<open>auto simp: async_try_send_def recv_pushed_keep\<close>)

lemma send_blocking_recv:
  assumes "inv (a_queue d)" and "send_blocking st e a d = (d', effs, out)"
  shows "recv_pushed units d d' effs \<and> waits_at Data_Available out = 0"
proof (cases "a_receivers d = 0")
  case False
  from push_total [OF assms(1), of e a] obtain q r where q: "cs_try_push st e (a_queue d) a = Some (q, r)"
    by blast
  obtain d2 effs2 where w: "wake_next_recv (d\<lparr> a_queue := q \<rparr>) = (d2, effs2)" by fastforce
  from assms(2) False q w push_units [OF assms(1) q] units_next(1) [OF w] show ?thesis
    by (cases r) (auto simp: send_blocking_def intro!: recv_pushed_keep recv_pushed_next)
qed (use assms in \<open>auto simp: send_blocking_def recv_pushed_keep\<close>)

lemma send_blocking_timeout_recv:
  assumes "inv (a_queue d)" and "send_blocking_timeout st e a d = (d', effs, out)"
  shows "recv_pushed units d d' effs \<and> waits_at Data_Available out = 0"
proof (cases "a_receivers d = 0")
  case False
  from push_total [OF assms(1), of e a] obtain q r where q: "cs_try_push st e (a_queue d) a = Some (q, r)"
    by blast
  obtain d2 effs2 where w: "wake_next_recv (d\<lparr> a_queue := q \<rparr>) = (d2, effs2)" by fastforce
  from assms(2) False q w push_units [OF assms(1) q] units_next(1) [OF w] show ?thesis
    by (cases r) (auto simp: send_blocking_timeout_def intro!: recv_pushed_keep recv_pushed_next)
qed (use assms in \<open>auto simp: send_blocking_timeout_def recv_pushed_keep\<close>)

lemma poll_send_recv:
  assumes "inv (a_queue d0)" and "poll_send st e waker cid f d0 = Some (d', effs, r)"
  shows "recv_pushed units d0 d' effs"
proof -
  define d where "d = (if sf_queued f then confirm_send_fut_waked cid d0 else d0)"
  have d: "recv_kept d0 d" "a_queue d = a_queue d0" "units d = units d0" by (simp_all add: d_def)
  have inv: "inv (a_queue d)" using assms(1) d by simp
  note def = assms(2) [unfolded poll_send_def, folded d_def, simplified Let_def]
  show ?thesis
  proof (cases "a_receivers d = 0 \<or> \<not> (send_fut_wakers d = [] \<or> sf_queued f)")
    case True
    with def d show ?thesis by (auto intro!: recv_pushed_keep split: if_splits)
  next
    case False
    with def obtain v where v: "sf_value f = Some v" by (cases "sf_value f") auto
    from push_total [OF inv, of e v] obtain q res where q: "cs_try_push st e (a_queue d) v = Some (q, res)"
      by blast
    obtain d2 effs2 where w: "wake_next_recv (d\<lparr> a_queue := q \<rparr>) = (d2, effs2)" by fastforce
    from def False v q w push_units [OF inv q] units_next(1) [OF w] d show ?thesis
      by (cases res) (auto intro!: recv_pushed_keep recv_pushed_next)
  qed
qed

text \<open>The receiving operations on their own side: a value, nothing left and closed, or a wait.\<close>

lemma try_recv_recv:
  assumes "inv (a_queue d)" and "async_try_recv st e d = (d', effs, out)"
  shows "recv_kept d d' \<and> units d' \<le> units d \<and> waits_at Data_Available out = 0"
proof -
  obtain q r where q: "cs_get st e (a_queue d) = (q, r)" by fastforce
  obtain d2 effs2 where w: "wake_next_send (d\<lparr> a_queue := q \<rparr>) = (d2, effs2)" by fastforce
  then have "recv_kept d d2" using kept_other_side(1) [of d "d\<lparr> a_queue := q \<rparr>"] by simp
  with assms(2) q w get_units [OF assms(1) q] units_next(2) [OF w] show ?thesis
    by (cases r) (auto simp: async_try_recv_def)
qed

definition recv_blocked :: "'s async_inner \<Rightarrow> 's async_inner \<Rightarrow> effect list \<Rightarrow>
    ('b async_op, async_cv, 'b async_result) outcome \<Rightarrow> bool" where
  "recv_blocked d d' effs out \<longleftrightarrow>
     recv_kept d d' \<and> units d' < units d \<and> waits_at Data_Available out = 0 \<or>
     recv_kept d d' \<and> units d' = 0 \<and> effs = [] \<and> waits_at Data_Available out = 0 \<or>
     (\<exists>d1. recv_kept d d1 \<and> d' = append_recv_sync_waker d1 \<and> units d' = 0 \<and> effs = [] \<and>
        waits_at Data_Available out = 1)"

lemma recv_blocking_recv:
  assumes "inv (a_queue d)" and "recv_blocking st e d = (d', effs, out)"
  shows "recv_blocked d d' effs out"
proof -
  obtain q r where q: "cs_get st e (a_queue d) = (q, r)" by fastforce
  obtain d2 effs2 where w: "wake_next_send (d\<lparr> a_queue := q \<rparr>) = (d2, effs2)" by fastforce
  then have "recv_kept d d2" using kept_other_side(1) [of d "d\<lparr> a_queue := q \<rparr>"] by simp
  with assms(2) q w get_units [OF assms(1) q] units_next(2) [OF w] show ?thesis
    by (cases r) (auto simp: recv_blocking_def recv_blocked_def split: if_splits
        intro: exI [of _ "d\<lparr> a_queue := q \<rparr>"])
qed

lemma recv_blocking_timeout_recv:
  assumes "inv (a_queue d)" and "recv_blocking_timeout st e d = (d', effs, out)"
  shows "recv_blocked d d' effs out"
proof -
  obtain q r where q: "cs_get st e (a_queue d) = (q, r)" by fastforce
  obtain d2 effs2 where w: "wake_next_send (d\<lparr> a_queue := q \<rparr>) = (d2, effs2)" by fastforce
  then have "recv_kept d d2" using kept_other_side(1) [of d "d\<lparr> a_queue := q \<rparr>"] by simp
  with assms(2) q w get_units [OF assms(1) q] units_next(2) [OF w] show ?thesis
    by (cases r) (auto simp: recv_blocking_timeout_def recv_blocked_def split: if_splits
        intro: exI [of _ "d\<lparr> a_queue := q \<rparr>"])
qed

lemma confirmed_units [simp]:
  "units (confirmed_recv cid f d) = units d" "units (confirmed_send cid f' d) = units d"
  by (simp_all add: units_def)

lemma poll_recv_recv:
  assumes "inv (a_queue d)" and "poll_recv st e waker cid f d = (d', effs, r)"
  obtains (finished) x where "r = Inl x" and "recv_kept (confirmed_recv cid f d) d'"
      and "units d' = 0 \<or> units d' < units d"
  | (pending) d1 where "r = Inr \<lparr> rf_queued = True \<rparr>" and "effs = []"
      and "recv_kept (confirmed_recv cid f d) d1" and "d' = append_recv_fut_waker waker cid d1"
      and "recv_fut_waker_ids d1 = recv_fut_waker_ids d"
      and "units d' = 0 \<or> \<not> rf_queued f \<and> recv_fut_wakers d \<noteq> [] \<and> units d' \<le> units d"
proof -
  let ?d = "confirmed_recv cid f d"
  obtain q x where q: "cs_get st e (a_queue d) = (q, x)" by fastforce
  obtain d2 effs2 where w: "wake_next_send (?d\<lparr> a_queue := q \<rparr>) = (d2, effs2)" by fastforce
  then have k: "recv_kept ?d d2" using kept_other_side(1) [of ?d "?d\<lparr> a_queue := q \<rparr>"] by simp
  note def = assms(2) [unfolded poll_recv_def, folded confirmed_recv_def, simplified Let_def, simplified]
  show thesis
  proof (cases "recv_fut_wakers d = [] \<or> rf_queued f")
    case False
    with def show thesis by (intro pending [of ?d]) auto
  next
    case True
    show thesis
    proof (cases x)
      case (Some a)
      with def True q w k get_units(2) [OF assms(1) q] units_next(2) [OF w]
      show thesis by (intro finished [of "Inr a"]) auto
    next
      case None
      with get_units(1) [OF assms(1) q] have z: "length (elems q) = 0" by simp
      show thesis
      proof (cases "a_senders d = 0")
        case t: True
        with def True q None z show thesis by (intro finished [of "Inl ChannelClosed"]) auto
      next
        case False
        with def True q None z show thesis by (intro pending [of "?d\<lparr> a_queue := q \<rparr>"]) auto
      qed
    qed
  qed
qed

end

text \<open>
  The senders' view of a receive, for a measure \<open>v\<close> of the queue that grows by at most one when a
  value is taken.
\<close>

definition get_bound :: "('e, 'a, 's) channel_storage \<Rightarrow> 'e \<Rightarrow> ('s \<Rightarrow> nat) \<Rightarrow> 's \<Rightarrow> bool" where
  "get_bound st e v q \<longleftrightarrow> (case cs_get st e q of (q', r) \<Rightarrow> v q' \<le> v q + (if r = None then 0 else 1))"

lemma get_bound_zero: "get_bound st e (\<lambda>_. 0) q"
  by (simp add: get_bound_def split_beta)

lemma try_recv_send:
  assumes "get_bound st e v (a_queue d)" and "async_try_recv st e d = (d', effs, out)"
  shows "send_popped (\<lambda>d. v (a_queue d)) d d' effs \<and> waits_at Space_Available out = 0"
proof -
  obtain q r where q: "cs_get st e (a_queue d) = (q, r)" by fastforce
  obtain d2 effs2 where w: "wake_next_send (d\<lparr> a_queue := q \<rparr>) = (d2, effs2)" by fastforce
  from assms q w wake_next_queue(2) [OF w] show ?thesis
    by (cases r) (auto simp: async_try_recv_def get_bound_def intro!: send_popped_keep send_popped_next)
qed

lemma recv_blocking_send:
  assumes "get_bound st e v (a_queue d)" and "recv_blocking st e d = (d', effs, out)"
  shows "send_popped (\<lambda>d. v (a_queue d)) d d' effs \<and> waits_at Space_Available out = 0"
proof -
  obtain q r where q: "cs_get st e (a_queue d) = (q, r)" by fastforce
  obtain d2 effs2 where w: "wake_next_send (d\<lparr> a_queue := q \<rparr>) = (d2, effs2)" by fastforce
  from assms q w wake_next_queue(2) [OF w] show ?thesis
    by (cases r) (auto simp: recv_blocking_def get_bound_def intro!: send_popped_keep send_popped_next
        split: if_splits)
qed

lemma recv_blocking_timeout_send:
  assumes "get_bound st e v (a_queue d)" and "recv_blocking_timeout st e d = (d', effs, out)"
  shows "send_popped (\<lambda>d. v (a_queue d)) d d' effs \<and> waits_at Space_Available out = 0"
proof -
  obtain q r where q: "cs_get st e (a_queue d) = (q, r)" by fastforce
  obtain d2 effs2 where w: "wake_next_send (d\<lparr> a_queue := q \<rparr>) = (d2, effs2)" by fastforce
  from assms q w wake_next_queue(2) [OF w] show ?thesis
    by (cases r) (auto simp: recv_blocking_timeout_def get_bound_def intro!: send_popped_keep send_popped_next
        split: if_splits)
qed

lemma poll_recv_send:
  assumes "get_bound st e v (a_queue d)" and "poll_recv st e waker cid f d = (d', effs, r)"
  shows "send_popped (\<lambda>d. v (a_queue d)) d d' effs"
proof -
  let ?d = "confirmed_recv cid f d"
  have d: "send_kept d ?d" "a_queue ?d = a_queue d" by (simp_all add: confirmed_recv_def)
  obtain q x where q: "cs_get st e (a_queue d) = (q, x)" by fastforce
  obtain d2 effs2 where w: "wake_next_send (?d\<lparr> a_queue := q \<rparr>) = (d2, effs2)" by fastforce
  from assms [unfolded poll_recv_def, folded confirmed_recv_def, simplified Let_def] d q w
    wake_next_queue(2) [OF w]
  show ?thesis
    by (cases x) (auto simp: get_bound_def intro!: send_popped_keep send_popped_next split: if_splits)
qed

section \<open>What the effects reach\<close>

definition send_effects :: "('a, 's) async_shared \<Rightarrow> effect list \<Rightarrow> bool" where
  "send_effects h effs \<longleftrightarrow> wakes effs \<subseteq> queued_sends h \<and>
     Notify_One Data_Available \<notin> set (signals effs) \<and> Notify_All Data_Available \<notin> set (signals effs)"

definition recv_effects :: "('a, 's) async_shared \<Rightarrow> effect list \<Rightarrow> bool" where
  "recv_effects h effs \<longleftrightarrow> wakes effs \<subseteq> queued_recvs h \<and>
     Notify_One Space_Available \<notin> set (signals effs) \<and> Notify_All Space_Available \<notin> set (signals effs)"

lemma effects_Nil [simp]: "send_effects h []" "recv_effects h []"
  by (simp_all add: send_effects_def recv_effects_def)

lemma send_side_kept: "send_kept (a_inner h) d \<Longrightarrow>
    make_side (send_fut_wakers d) (send_fut_pending d) (queued_sends h) (set (woken_tasks h)) = send_side h"
  by (simp add: send_kept_def send_side_def)

lemma recv_side_kept: "recv_kept (a_inner h) d \<Longrightarrow>
    make_side (recv_fut_wakers d) (recv_fut_pending d) (queued_recvs h) (set (woken_tasks h)) = recv_side h"
  by (simp add: recv_kept_def recv_side_def)

lemma next_send_effects:
  assumes "tasks_ok h" and "send_kept (a_inner h) d" and "wake_next_send d = (d', effs)"
  shows "send_effects h effs"
  using next_send_side(2-4) [OF assms(3), of "queued_sends h" "set (woken_tasks h)"]
    send_side_kept [OF assms(2)] assms(1) by (simp add: send_effects_def tasks_ok_def)

lemma next_recv_effects:
  assumes "tasks_ok h" and "recv_kept (a_inner h) d" and "wake_next_recv d = (d', effs)"
  shows "recv_effects h effs"
  using next_recv_side(2-4) [OF assms(3), of "queued_recvs h" "set (woken_tasks h)"]
    recv_side_kept [OF assms(2)] assms(1) by (simp add: recv_effects_def tasks_ok_def)

lemma send_popped_effects:
  assumes "tasks_ok h" and "send_popped u (a_inner h) d' effs"
  shows "send_effects h effs"
  using assms(2) next_send_effects [OF assms(1)] unfolding send_popped_def by auto

lemma recv_pushed_effects:
  assumes "tasks_ok h" and "recv_pushed u (a_inner h) d' effs"
  shows "recv_effects h effs"
  using assms(2) next_recv_effects [OF assms(1)] unfolding recv_pushed_def by auto

text \<open>Dropping a future that waits, and closing a side.\<close>

lemma side_removed_make:
  "side_removed cid (make_side ws p q w) =
     make_side (case remove_waker cid ws of Some ws' \<Rightarrow> ws' | None \<Rightarrow> ws) (p - {cid}) (q - {cid}) w"
  by (auto simp: side_removed_def side_done_def make_side_def split: option.split)

lemma drop_recv_side:
  assumes "notify_recv_fut_drop cid d = (d', effs)"
    and "side_ok (make_side (recv_fut_wakers d) (recv_fut_pending d) q w)"
  shows "side_drop cid (make_side (recv_fut_wakers d) (recv_fut_pending d) q w) =
      (make_side (recv_fut_wakers d') (recv_fut_pending d') (q - {cid}) (w \<union> wakes effs),
       count_list (signals effs) (Notify_One Data_Available)) \<and>
    wakes effs \<subseteq> q - {cid} \<and> Notify_All cv \<notin> set (signals effs) \<and>
    Notify_One Space_Available \<notin> set (signals effs)"
proof -
  define d1 where "d1 = (case remove_waker cid (recv_fut_wakers d) of
      Some ws \<Rightarrow> d\<lparr> recv_fut_wakers := ws, recv_fut_waker_ids := recv_fut_waker_ids d - {cid} \<rparr> | None \<Rightarrow> d)"
  let ?s = "make_side (recv_fut_wakers d) (recv_fut_pending d) q w"
  have d1: "recv_fut_pending d1 = recv_fut_pending d"
    "side_removed cid ?s = make_side (recv_fut_wakers d1) (recv_fut_pending d - {cid}) (q - {cid}) w"
    by (simp_all add: d1_def side_removed_make split: option.split)
  note def = assms(1) [unfolded notify_recv_fut_drop_def, folded d1_def, unfolded Let_def]
  show ?thesis
  proof (cases "cid \<in> recv_fut_pending d")
    case True
    let ?d = "d1\<lparr> recv_fut_pending := recv_fut_pending d - {cid} \<rparr>"
    from def d1(1) True have w: "wake_next_recv ?d = (d', effs)" by simp
    from side_removed_ok [OF assms(2), of cid] d1(2)
    have ok: "side_ok (make_side (recv_fut_wakers ?d) (recv_fut_pending ?d) (q - {cid}) w)" by simp
    from next_recv_side [OF w ok] d1(2) True show ?thesis by (simp add: side_drop_alt)
  next
    case False
    with def d1 have "d' = d1" "effs = []" by simp_all
    moreover from False have "recv_fut_pending d - {cid} = recv_fut_pending d" by blast
    ultimately show ?thesis using d1 False by (simp add: side_drop_alt)
  qed
qed

lemma drop_send_side:
  assumes "notify_send_fut_drop cid d = (d', effs)"
    and "side_ok (make_side (send_fut_wakers d) (send_fut_pending d) q w)"
  shows "side_drop cid (make_side (send_fut_wakers d) (send_fut_pending d) q w) =
      (make_side (send_fut_wakers d') (send_fut_pending d') (q - {cid}) (w \<union> wakes effs),
       count_list (signals effs) (Notify_One Space_Available)) \<and>
    wakes effs \<subseteq> q - {cid} \<and> Notify_All cv \<notin> set (signals effs) \<and>
    Notify_One Data_Available \<notin> set (signals effs)"
proof -
  define d1 where "d1 = (case remove_waker cid (send_fut_wakers d) of
      Some ws \<Rightarrow> d\<lparr> send_fut_wakers := ws, send_fut_waker_ids := send_fut_waker_ids d - {cid} \<rparr> | None \<Rightarrow> d)"
  let ?s = "make_side (send_fut_wakers d) (send_fut_pending d) q w"
  have d1: "send_fut_pending d1 = send_fut_pending d"
    "side_removed cid ?s = make_side (send_fut_wakers d1) (send_fut_pending d - {cid}) (q - {cid}) w"
    by (simp_all add: d1_def side_removed_make split: option.split)
  note def = assms(1) [unfolded notify_send_fut_drop_def, folded d1_def, unfolded Let_def]
  show ?thesis
  proof (cases "cid \<in> send_fut_pending d")
    case True
    let ?d = "d1\<lparr> send_fut_pending := send_fut_pending d - {cid} \<rparr>"
    from def d1(1) True have w: "wake_next_send ?d = (d', effs)" by simp
    from side_removed_ok [OF assms(2), of cid] d1(2)
    have ok: "side_ok (make_side (send_fut_wakers ?d) (send_fut_pending ?d) (q - {cid}) w)" by simp
    from next_send_side [OF w ok] d1(2) True show ?thesis by (simp add: side_drop_alt)
  next
    case False
    with def d1 have "d' = d1" "effs = []" by simp_all
    moreover from False have "send_fut_pending d - {cid} = send_fut_pending d" by blast
    ultimately show ?thesis using d1 False by (simp add: side_drop_alt)
  qed
qed

lemma wakes_all:
  "list_all own_waker ws \<Longrightarrow>
   wakes (map (\<lambda>(waker, cid). Wake waker) (List.map_filter (\<lambda>w. w) ws)) = set (waker_ids ws) \<and>
   signals (map (\<lambda>(waker, cid). Wake waker) (List.map_filter (\<lambda>w. w) ws)) = []"
  by (induction ws) (auto simp: own_waker_def map_filter_simps split: option.splits)

lemma close_recv_side:
  assumes "wake_all_recvs d = (d', effs)" and "side_ok (make_side (recv_fut_wakers d) (recv_fut_pending d) q w)"
  shows "side_close (make_side (recv_fut_wakers d) (recv_fut_pending d) q w) =
      make_side (recv_fut_wakers d') (recv_fut_pending d') q (w \<union> wakes effs) \<and>
    wakes effs \<subseteq> q \<and> signals effs = [Notify_All Data_Available]"
  using assms wakes_all [of "recv_fut_wakers d"]
  by (auto simp: wake_all_recvs_def side_close_def side_ok_def make_side_def side_ids_def)

lemma close_send_side:
  assumes "wake_all_sends d = (d', effs)" and "side_ok (make_side (send_fut_wakers d) (send_fut_pending d) q w)"
  shows "side_close (make_side (send_fut_wakers d) (send_fut_pending d) q w) =
      make_side (send_fut_wakers d') (send_fut_pending d') q (w \<union> wakes effs) \<and>
    wakes effs \<subseteq> q \<and> signals effs = [Notify_All Space_Available]"
  using assms wakes_all [of "send_fut_wakers d"]
  by (auto simp: wake_all_sends_def side_close_def side_ok_def make_side_def side_ids_def)

section \<open>The moves of the receiving side\<close>

lemma tasks_ok_disjoint: "tasks_ok h \<Longrightarrow> queued_sends h \<inter> queued_recvs h = {}"
  by (auto simp: tasks_ok_def queued_sends_def queued_recvs_def)

lemma map_of_delete: "map_of (AList.delete k xs) k' = (if k' = k then None else map_of xs k')"
  by (simp add: delete_conv)

lemma map_of_update: "map_of (AList.update k v xs) k' = (if k' = k then Some v else map_of xs k')"
  by (simp add: update_conv)

lemma recv_side_eq:
  assumes "async_code st e op h = (h', sigs, out)" and "async_stretch st e op h = (h1, effs, out1)"
    and "tasks_ok h" and "recv_kept (a_inner h) (a_inner h1)" and "queued_recvs h1 = queued_recvs h"
    and "send_effects h effs" and "\<And>w. polled_task op = Some w \<Longrightarrow> w \<notin> queued_recvs h"
  shows "recv_side h' = recv_side h"
  using assms(4,5,6,7) tasks_ok_disjoint [OF assms(3)] sides_after(3,6,7) [OF assms(1,2)]
  by (auto simp: recv_side_def recv_kept_def send_effects_def queued_recvs_def intro!: make_side_cong)

lemma send_side_eq:
  assumes "async_code st e op h = (h', sigs, out)" and "async_stretch st e op h = (h1, effs, out1)"
    and "tasks_ok h" and "send_kept (a_inner h) (a_inner h1)" and "queued_sends h1 = queued_sends h"
    and "recv_effects h effs" and "\<And>w. polled_task op = Some w \<Longrightarrow> w \<notin> queued_sends h"
  shows "send_side h' = send_side h"
  using assms(4,5,6,7) tasks_ok_disjoint [OF assms(3)] sides_after(3,5,7) [OF assms(1,2)]
  by (auto simp: send_side_def send_kept_def recv_effects_def queued_sends_def intro!: make_side_cong)

text \<open>One move of the receiving side, as the stretch of an operation makes it.\<close>

definition recv_move :: "nat \<Rightarrow> nat \<Rightarrow> 'a async_op \<Rightarrow> ('a, 's) async_shared \<Rightarrow> ('a, 's) async_shared \<Rightarrow>
    async_cv signal list \<Rightarrow> ('a async_op, async_cv, 'a async_result) outcome \<Rightarrow> bool" where
  "recv_move u u' op h h' sigs out \<longleftrightarrow>
     side_move u u' (async_waits_on op = Some Data_Available) (recv_side h) (recv_side h')
       (count_list sigs (Notify_One Data_Available)) (Notify_All Data_Available \<in> set sigs)
       (waits_at Data_Available out = 1)"

definition send_move :: "nat \<Rightarrow> nat \<Rightarrow> 'a async_op \<Rightarrow> ('a, 's) async_shared \<Rightarrow> ('a, 's) async_shared \<Rightarrow>
    async_cv signal list \<Rightarrow> ('a async_op, async_cv, 'a async_result) outcome \<Rightarrow> bool" where
  "send_move u u' op h h' sigs out \<longleftrightarrow>
     side_move u u' (async_waits_on op = Some Space_Available) (send_side h) (send_side h')
       (count_list sigs (Notify_One Space_Available)) (Notify_All Space_Available \<in> set sigs)
       (waits_at Space_Available out = 1)"

lemma recv_move_keep:
  assumes "async_code st e op h = (h', sigs, out)" and "async_stretch st e op h = (h1, effs, out1)"
    and "tasks_ok h" and "recv_kept (a_inner h) (a_inner h1)" and "queued_recvs h1 = queued_recvs h"
    and "send_effects h effs" and "\<And>w. polled_task op = Some w \<Longrightarrow> w \<notin> queued_recvs h"
    and "waits_at Data_Available out \<noteq> 1"
    and "u' = 0 \<or> u' + of_bool (async_waits_on op = Some Data_Available) \<le> u"
  shows "recv_move u u' op h h' sigs out"
proof -
  have "recv_side h' = recv_side h" by (rule recv_side_eq [OF assms(1-7)])
  moreover have "count_list sigs (Notify_One Data_Available) = 0" "Notify_All Data_Available \<notin> set sigs"
    using assms(6) sides_after(2) [OF assms(1,2)] by (simp_all add: send_effects_def count_list_0_iff)
  moreover have "side_move u u' (async_waits_on op = Some Data_Available) (recv_side h) (recv_side h) 0 False False"
    by (rule move_keep) (use assms(9) in blast)
  ultimately show ?thesis using assms(8) by (simp add: recv_move_def)
qed

lemma recv_move_pushed:
  assumes "async_code st e op h = (h', sigs, out)" and "async_stretch st e op h = (h1, effs, out1)"
    and "tasks_ok h" and "recv_pushed v (a_inner h) (a_inner h1) effs" and "queued_recvs h1 = queued_recvs h"
    and "\<And>w. polled_task op = Some w \<Longrightarrow> w \<notin> queued_recvs h"
    and "waits_at Data_Available out \<noteq> 1" and "async_waits_on op \<noteq> Some Data_Available"
  shows "recv_move (v (a_inner h)) (v (a_inner h1)) op h h' sigs out"
proof -
  from assms(4) obtain d1 where d1: "recv_kept (a_inner h) d1"
    and "a_inner h1 = d1 \<and> effs = [] \<and> v (a_inner h1) \<le> v (a_inner h) \<or>
      wake_next_recv d1 = (a_inner h1, effs) \<and> v (a_inner h1) \<le> v (a_inner h) + 1"
    unfolding recv_pushed_def by blast
  then consider "a_inner h1 = d1" "effs = []" "v (a_inner h1) \<le> v (a_inner h)"
    | "wake_next_recv d1 = (a_inner h1, effs)" "v (a_inner h1) \<le> v (a_inner h) + 1" by blast
  then show ?thesis
  proof cases
    case 1
    show ?thesis
      by (rule recv_move_keep [OF assms(1-3) _ assms(5) _ assms(6,7)]) (use 1 d1 assms(8) in simp_all)
  next
    case 2
    from assms(3) have "side_ok (make_side (recv_fut_wakers d1) (recv_fut_pending d1) (queued_recvs h)
        (set (woken_tasks h)))" by (simp add: recv_side_kept [OF d1] tasks_ok_def)
    note nxt = next_recv_side [OF 2(1) this]
    note after = sides_after [OF assms(1,2)]
    have "recv_side h' = make_side (recv_fut_wakers (a_inner h1)) (recv_fut_pending (a_inner h1))
        (queued_recvs h) (set (woken_tasks h) \<union> wakes effs)"
      using after(3,6,7) assms(5,6) by (auto simp: recv_side_def queued_recvs_def intro!: make_side_cong)
    with nxt(1) recv_side_kept [OF d1] after(2)
    have "side_next (recv_side h) = (recv_side h', count_list sigs (Notify_One Data_Available))" by simp
    from move_next [OF 2(2) this] show ?thesis
      using nxt(3) [of Data_Available] after(2) assms(7,8) by (simp add: recv_move_def)
  qed
qed


lemma recv_move_sleep:
  assumes "async_code st e op h = (h', sigs, out)" and "async_stretch st e op h = (h1, effs, out1)"
    and "recv_kept (a_inner h) d1" and "a_inner h1 = append_recv_sync_waker d1"
    and "queued_recvs h1 = queued_recvs h" and "effs = []" and "polled_task op = None"
    and "waits_at Data_Available out = 1"
  shows "recv_move u 0 op h h' sigs out"
proof -
  note after = sides_after [OF assms(1,2)]
  have "recv_side h' = side_sync (recv_side h)"
    using after(3,6,7) assms(3-7)
    by (auto simp: recv_side_def side_sync_def make_side_def recv_kept_def append_recv_sync_waker_def queued_recvs_def)
  with move_sleep [of u "async_waits_on op = Some Data_Available" "recv_side h"] after(2) assms(6,8)
  show ?thesis by (simp add: recv_move_def)
qed

lemma recv_move_close:
  assumes "async_code st e op h = (h', sigs, out)" and "async_stretch st e op h = (h1, effs, out1)"
    and "tasks_ok h" and "recv_kept (a_inner h) d1" and "wake_all_recvs d1 = (a_inner h1, effs)"
    and "queued_recvs h1 = queued_recvs h" and "polled_task op = None"
    and "waits_at Data_Available out = 0" and "async_waits_on op = None"
  shows "recv_move u u' op h h' sigs out"
proof -
  note after = sides_after [OF assms(1,2)]
  from assms(3) have "side_ok (make_side (recv_fut_wakers d1) (recv_fut_pending d1) (queued_recvs h)
      (set (woken_tasks h)))" by (simp add: recv_side_kept [OF assms(4)] tasks_ok_def)
  note close = close_recv_side [OF assms(5) this]
  have "recv_side h' = side_close (recv_side h)"
    using after(3,6,7) assms(6,7) close recv_side_kept [OF assms(4)]
    by (auto simp: recv_side_def queued_recvs_def intro!: make_side_cong)
  with move_close [where u = u and u' = u' and s = "recv_side h"]
    after(2) close assms(8,9) show ?thesis by (simp add: recv_move_def)
qed

lemma queued_recv_ids:
  assumes "tasks_ok h" and "cid \<in> queued_recvs h \<longrightarrow> cid \<in> set (woken_tasks h)"
  shows "cid \<notin> side_ids (recv_side h)"
  using assms by (auto simp: tasks_ok_def side_ok_def recv_side_def)

lemma queued_send_ids:
  assumes "tasks_ok h" and "cid \<in> queued_sends h \<longrightarrow> cid \<in> set (woken_tasks h)"
  shows "cid \<notin> side_ids (send_side h)"
  using assms by (auto simp: tasks_ok_def side_ok_def send_side_def)

lemma confirmed_recv_pending:
  assumes "tasks_ok h" and "map_of (recv_futs h) cid = Some f"
  shows "recv_fut_pending (confirmed_recv cid f (a_inner h)) = recv_fut_pending (a_inner h) - {cid}"
  using assms by (auto simp: confirmed_recv_def confirm_recv_fut_waked_def tasks_ok_def side_ok_def
      recv_side_def queued_recvs_def)

lemma confirmed_send_pending:
  assumes "tasks_ok h" and "map_of (send_futs h) cid = Some f"
  shows "send_fut_pending (confirmed_send cid f (a_inner h)) = send_fut_pending (a_inner h) - {cid}"
  using assms by (auto simp: confirmed_send_def confirm_send_fut_waked_def tasks_ok_def side_ok_def
      send_side_def queued_sends_def)

lemma recv_move_finished:
  assumes "async_code st e op h = (h', sigs, out)" and "async_stretch st e op h = (h1, effs, out1)"
    and "tasks_ok h" and "map_of (recv_futs h) cid = Some f" and "orderly h (Poll_Recv cid cid)"
    and "recv_kept (confirmed_recv cid f (a_inner h)) (a_inner h1)"
    and "recv_futs h1 = AList.delete cid (recv_futs h)" and "send_effects h effs"
    and "op = Poll_Recv cid cid" and "waits_at Data_Available out = 0" and "u' = 0 \<or> u' < u"
  shows "recv_move u u' op h h' sigs out"
proof -
  note after = sides_after [OF assms(1,2)]
  have q: "queued_recvs h1 = queued_recvs h - {cid}"
    using assms(7) by (auto simp: queued_recvs_def map_of_delete)
  have "recv_side h' = side_done cid (recv_side h)"
    using after(3,6,7) assms(6,8,9) q confirmed_recv_pending [OF assms(3,4)] tasks_ok_disjoint [OF assms(3)]
    by (auto simp: recv_side_def side_done_def make_side_def recv_kept_def send_effects_def queued_recvs_def)
  with move_done [OF queued_recv_ids [OF assms(3), of cid], of u' u] after(2) assms(5,8-11) show ?thesis
    by (auto simp: recv_move_def send_effects_def count_list_0_iff)
qed

lemma recv_move_pending:
  assumes "async_code st e op h = (h', sigs, out)" and "async_stretch st e op h = (h1, [], out1)"
    and "tasks_ok h" and "map_of (recv_futs h) cid = Some f" and "orderly h (Poll_Recv cid cid)"
    and "recv_kept (confirmed_recv cid f (a_inner h)) d1"
    and "a_inner h1 = append_recv_fut_waker cid cid d1" and "cid \<notin> recv_fut_waker_ids d1"
    and "recv_futs h1 = AList.update cid \<lparr> rf_queued = True \<rparr> (recv_futs h)"
    and "op = Poll_Recv cid cid" and "waits_at Data_Available out = 0"
    and "u' = 0 \<or> \<not> rf_queued f \<and> recv_fut_wakers (a_inner h) \<noteq> [] \<and> u' \<le> u"
  shows "recv_move u u' op h h' sigs out"
proof -
  note after = sides_after [OF assms(1,2)]
  have q: "queued_recvs h1 = insert cid (queued_recvs h)"
    using assms(9) by (auto simp: queued_recvs_def map_of_update)
  have "recv_side h' = side_queue cid (recv_side h)"
    using after(3,6,7) assms(6,7,8,10) q confirmed_recv_pending [OF assms(3,4)]
    by (auto simp: recv_side_def side_queue_def make_side_def recv_kept_def queued_recvs_def
        append_recv_fut_waker_def)
  moreover have "u' = 0 \<or> cid \<notin> s_queued (recv_side h) \<and> s_wakers (recv_side h) \<noteq> [] \<and> u' \<le> u"
    using assms(4,12) by (auto simp: recv_side_def queued_recvs_def)
  ultimately show ?thesis
    using move_queue [OF queued_recv_ids [OF assms(3), of cid], of u' u] after(2) assms(5,10,11)
    by (auto simp: recv_move_def)
qed

lemma recv_move_drop:
  assumes "async_code st e op h = (h', sigs, out)" and "async_stretch st e op h = (h1, effs, out1)"
    and "tasks_ok h" and "cid \<in> queued_recvs h" and "notify_recv_fut_drop cid (a_inner h) = (a_inner h1, effs)"
    and "recv_futs h1 = AList.delete cid (recv_futs h)"
    and "op = Drop_Recv cid" and "waits_at Data_Available out = 0" and "u' \<le> u"
  shows "recv_move u u' op h h' sigs out"
proof -
  note after = sides_after [OF assms(1,2)]
  have q: "queued_recvs h1 = queued_recvs h - {cid}"
    using assms(6) by (auto simp: queued_recvs_def map_of_delete)
  from assms(3) have "side_ok (make_side (recv_fut_wakers (a_inner h)) (recv_fut_pending (a_inner h))
      (queued_recvs h) (set (woken_tasks h)))" by (simp add: tasks_ok_def recv_side_def)
  note drop = drop_recv_side [OF assms(5) this]
  have "recv_side h' = make_side (recv_fut_wakers (a_inner h1)) (recv_fut_pending (a_inner h1))
      (queued_recvs h - {cid}) (set (woken_tasks h) \<union> wakes effs)"
    using after(3,6,7) assms(7) q by (auto simp: recv_side_def queued_recvs_def)
  with drop after(2) have "side_drop cid (recv_side h) = (recv_side h', count_list sigs (Notify_One Data_Available))"
    by (simp add: recv_side_def)
  from move_drop [OF assms(9) this] drop after(2) assms(7,8) show ?thesis by (simp add: recv_move_def)
qed

text \<open>Every operation makes one such move.\<close>

lemma stretch_of_code:
  assumes "async_code st e op h = (h', sigs, out)"
  obtains h1 effs where "async_stretch st e op h = (h1, effs, out)" and "a_inner h' = a_inner h1"
  using assms by (rule async_code_stretch)

definition futures_there :: "('a, 's) async_shared \<Rightarrow> 'a async_op \<Rightarrow> bool" where
  "futures_there h op \<longleftrightarrow>
     (\<forall>cid waker. op = Poll_Send cid waker \<or> op = Drop_Send cid \<longrightarrow> map_of (send_futs h) cid \<noteq> None) \<and>
     (\<forall>cid waker. op = Poll_Recv cid waker \<or> op = Drop_Recv cid \<longrightarrow> map_of (recv_futs h) cid \<noteq> None)"

lemma send_drop_effects:
  assumes "tasks_ok h" and "async_stretch st e (Drop_Send cid) h = (h1, effs, out)"
  shows "recv_kept (a_inner h) (a_inner h1) \<and> recv_futs h1 = recv_futs h \<and> send_effects h effs \<and>
    a_queue (a_inner h1) = a_queue (a_inner h) \<and> waits_at cv out = 0"
proof (cases "map_of (send_futs h) cid")
  case (Some f)
  show ?thesis
  proof (cases "sf_queued f")
    case True
    obtain d effs' where d: "notify_send_fut_drop cid (a_inner h) = (d, effs')" by fastforce
    from assms(1) have "side_ok (make_side (send_fut_wakers (a_inner h)) (send_fut_pending (a_inner h))
        (queued_sends h) (set (woken_tasks h)))" by (simp add: tasks_ok_def send_side_def)
    from drop_send_side [OF d this] have "send_effects h effs'" by (auto simp: send_effects_def)
    moreover have "recv_kept (a_inner h) d" "a_queue d = a_queue (a_inner h)"
      using kept_other_side(5) [of "a_inner h" cid "a_inner h"] fut_drop_frame(1) [of cid "a_inner h"] d by simp_all
    ultimately show ?thesis using assms(2) Some True d by (auto simp: send_future_drop_def)
  qed (use assms(2) Some in \<open>auto simp: send_future_drop_def\<close>)
qed (use assms(2) in \<open>auto simp: send_future_drop_def\<close>)

lemma recv_drop_effects:
  assumes "tasks_ok h" and "async_stretch st e (Drop_Recv cid) h = (h1, effs, out)"
  shows "send_kept (a_inner h) (a_inner h1) \<and> send_futs h1 = send_futs h \<and> recv_effects h effs \<and>
    a_queue (a_inner h1) = a_queue (a_inner h) \<and> waits_at cv out = 0"
proof (cases "map_of (recv_futs h) cid")
  case (Some f)
  show ?thesis
  proof (cases "rf_queued f")
    case True
    obtain d effs' where d: "notify_recv_fut_drop cid (a_inner h) = (d, effs')" by fastforce
    from assms(1) have "side_ok (make_side (recv_fut_wakers (a_inner h)) (recv_fut_pending (a_inner h))
        (queued_recvs h) (set (woken_tasks h)))" by (simp add: tasks_ok_def recv_side_def)
    from drop_recv_side [OF d this] have "recv_effects h effs'" by (auto simp: recv_effects_def)
    moreover have "send_kept (a_inner h) d" "a_queue d = a_queue (a_inner h)"
      using kept_other_side(11) [of "a_inner h" cid "a_inner h"] fut_drop_frame(6) [of cid "a_inner h"] d by simp_all
    ultimately show ?thesis using assms(2) Some True d by (auto simp: recv_future_drop_def)
  qed (use assms(2) Some in \<open>auto simp: recv_future_drop_def\<close>)
qed (use assms(2) in \<open>auto simp: recv_future_drop_def\<close>)

lemma queued_recvs_fresh:
  "tasks_ok h \<Longrightarrow> recv_futs h1 = AList.update (next_op_id h) \<lparr> rf_queued = False \<rparr> (recv_futs h) \<Longrightarrow>
   queued_recvs h1 = queued_recvs h"
  by (auto simp: queued_recvs_def map_of_update tasks_ok_def)

lemma queued_sends_fresh:
  "tasks_ok h \<Longrightarrow> send_futs h1 = AList.update (next_op_id h) \<lparr> sf_queued = False, sf_value = v \<rparr> (send_futs h) \<Longrightarrow>
   queued_sends h1 = queued_sends h"
  by (auto simp: queued_sends_def map_of_update tasks_ok_def)

lemma queued_eq: "recv_futs h1 = recv_futs h \<Longrightarrow> queued_recvs h1 = queued_recvs h"
  "send_futs h1 = send_futs h' \<Longrightarrow> queued_sends h1 = queued_sends h'"
  by (simp_all add: queued_recvs_def queued_sends_def)

lemma closing_effects:
  assumes "tasks_ok h"
  shows "send_kept (a_inner h) d \<Longrightarrow> wake_all_sends d = (d', effs) \<Longrightarrow> send_effects h effs"
    and "recv_kept (a_inner h) d \<Longrightarrow> wake_all_recvs d = (d', effs) \<Longrightarrow> recv_effects h effs"
  using assms close_send_side [of d d' effs "queued_sends h" "set (woken_tasks h)"]
    close_recv_side [of d d' effs "queued_recvs h" "set (woken_tasks h)"]
    send_side_kept [of h d] recv_side_kept [of h d]
  by (simp_all add: tasks_ok_def send_effects_def recv_effects_def)

text \<open>The operations that do not concern the receiving side.\<close>

lemma drop_receiver_recv:
  assumes "tasks_ok h" and "async_stretch st e A_Drop_Receiver h = (h1, effs, out)"
  shows "recv_kept (a_inner h) (a_inner h1) \<and> recv_futs h1 = recv_futs h \<and> send_effects h effs \<and>
    a_queue (a_inner h1) = a_queue (a_inner h) \<and> waits_at cv out = 0"
proof (cases "a_receivers (a_inner h) = 1")
  case True
  let ?d = "(a_inner h)\<lparr> a_receivers := 0 \<rparr>"
  obtain d' effs' where w: "wake_all_sends ?d = (d', effs')" by fastforce
  have "send_kept (a_inner h) ?d" "recv_kept (a_inner h) d'" "a_queue d' = a_queue (a_inner h)"
    using w kept_other_side(6) [of "a_inner h" ?d] wake_all_frame(1) [of ?d]
    by (simp_all add: send_kept_def recv_kept_def)
  with closing_effects(1) [OF assms(1) _ w] assms(2) True w show ?thesis
    by (auto simp: async_receiver_drop_def)
next
  case False
  with assms(2) show ?thesis
    by (auto simp: async_receiver_drop_def Let_def recv_kept_def split: if_splits)
qed

lemma drop_sender_send:
  assumes "tasks_ok h" and "async_stretch st e A_Drop_Sender h = (h1, effs, out)"
  shows "send_kept (a_inner h) (a_inner h1) \<and> send_futs h1 = send_futs h \<and> recv_effects h effs \<and>
    a_queue (a_inner h1) = a_queue (a_inner h) \<and> waits_at cv out = 0"
proof (cases "a_senders (a_inner h) = 1")
  case True
  let ?d = "(a_inner h)\<lparr> a_senders := 0 \<rparr>"
  obtain d' effs' where w: "wake_all_recvs ?d = (d', effs')" by fastforce
  have "recv_kept (a_inner h) ?d" "send_kept (a_inner h) d'" "a_queue d' = a_queue (a_inner h)"
    using w kept_other_side(12) [of "a_inner h" ?d] wake_all_frame(6) [of ?d]
    by (simp_all add: send_kept_def recv_kept_def)
  with closing_effects(2) [OF assms(1) _ w] assms(2) True w show ?thesis
    by (auto simp: async_sender_drop_def)
next
  case False
  with assms(2) show ?thesis
    by (auto simp: async_sender_drop_def Let_def send_kept_def split: if_splits)
qed

context storage_contract
begin

lemma units_kept: "a_queue d' = a_queue d \<Longrightarrow> units d' = units d"
  by (simp add: units_def)

lemma send_op_recv_move:
  assumes "async_code st e op h = (h', sigs, out)" and "inv (a_queue (a_inner h))" and "tasks_ok h"
    and "futures_there h op" and "orderly h op"
    and "(\<exists>a. op \<in> {A_Send a, A_Try_Send a, Send_Blocking a, Send_Blocking_Timeout a}) \<or>
      (\<exists>cid w. op = Poll_Send cid w \<or> op = Drop_Send cid)"
  shows "recv_move (units (a_inner h)) (units (a_inner h')) op h h' sigs out"
proof -
  obtain h1 effs where s: "async_stretch st e op h = (h1, effs, out)" and h': "a_inner h' = a_inner h1"
    using assms(1) by (rule stretch_of_code)
  note pushed = recv_move_pushed [OF assms(1) s assms(3), where v = units, folded h']
  note keep = recv_move_keep [OF assms(1) s assms(3)]
  from assms(6) show ?thesis
  proof (elim disjE exE)
    fix a assume "op \<in> {A_Send a, A_Try_Send a, Send_Blocking a, Send_Blocking_Timeout a}"
    then consider "op = A_Send a" | "op = A_Try_Send a" | "op = Send_Blocking a" | "op = Send_Blocking_Timeout a"
      by blast
    then show ?thesis
    proof cases
      case 1
      with s h' show ?thesis by (intro keep) (auto simp: async_send_def queued_recvs_def)
    next
      case 2
      with s try_send_recv [OF assms(2), of e a] h' show ?thesis
        by (intro pushed) (auto simp: on_inner_def queued_recvs_def split: prod.splits)
    next
      case 3
      with s send_blocking_recv [OF assms(2), of e a] h' show ?thesis
        by (intro pushed) (auto simp: on_inner_def queued_recvs_def split: prod.splits)
    next
      case 4
      with s send_blocking_timeout_recv [OF assms(2), of e a] h' show ?thesis
        by (intro pushed) (auto simp: on_inner_def queued_recvs_def split: prod.splits)
    qed
  next
    fix cid w assume op: "op = Poll_Send cid w"
    with assms(4,5) obtain f where f: "map_of (send_futs h) cid = Some f" and w: "w = cid"
      by (auto simp: futures_there_def)
    have other: "cid \<notin> queued_recvs h" using f assms(3) by (auto simp: tasks_ok_def queued_recvs_def)
    from s op have run: "run_poll_send st e cid w h = (h1, effs, out)" by simp
    show ?thesis using run f
    proof (cases rule: run_poll_send_cases)
      case panic
      with op other w h' show ?thesis by (intro keep) (auto simp: queued_recvs_def)
    next
      case (finished d r)
      with poll_send_recv [OF assms(2) finished(1)] op other w show ?thesis
        by (intro pushed) (auto simp: queued_recvs_def h')
    next
      case (pending d f')
      with poll_send_recv [OF assms(2) pending(1)] op other w show ?thesis
        by (intro pushed) (auto simp: queued_recvs_def h')
    qed
  next
    fix cid assume op: "op = Drop_Send cid"
    from send_drop_effects [OF assms(3) s [unfolded op]] units_kept [of "a_inner h1" "a_inner h"]
      queued_eq(1) [of h1 h] op h'
    show ?thesis by (intro keep) simp_all
  qed
qed

lemma recv_op_recv_move:
  assumes "async_code st e op h = (h', sigs, out)" and "async_inv inv h" and "tasks_ok h"
    and "futures_there h op" and "orderly h op"
    and "op \<in> {A_Recv, A_Try_Recv, Recv_Blocking, Recv_Blocking_Timeout} \<or>
      (\<exists>cid w. op = Poll_Recv cid w \<or> op = Drop_Recv cid)"
  shows "recv_move (units (a_inner h)) (units (a_inner h')) op h h' sigs out"
proof -
  obtain h1 effs where s: "async_stretch st e op h = (h1, effs, out)" and h': "a_inner h' = a_inner h1"
    using assms(1) by (rule stretch_of_code)
  from assms(2) have inv: "inv (a_queue (a_inner h))" by (simp add: async_inv_def)
  note keep = recv_move_keep [OF assms(1) s assms(3)]
  note effects = send_popped_effects [OF assms(3)]
  have blocked: ?thesis if "recv_blocked (a_inner h) (a_inner h1) effs out" and "recv_futs h1 = recv_futs h"
    and "send_effects h effs" and "async_waits_on op = Some Data_Available" and "polled_task op = None"
    using that(1) unfolding recv_blocked_def
  proof (elim disjE conjE exE)
    fix d1 assume "recv_kept (a_inner h) d1" "a_inner h1 = append_recv_sync_waker d1" "units (a_inner h1) = 0"
      "effs = []" "waits_at Data_Available out = 1"
    with recv_move_sleep [OF assms(1) s] that queued_eq(1) [OF that(2)] h' show ?thesis by simp
  qed (intro keep; use that queued_eq(1) [OF that(2)] h' in simp)+
  from assms(6) show ?thesis
  proof (elim disjE exE)
    assume "op \<in> {A_Recv, A_Try_Recv, Recv_Blocking, Recv_Blocking_Timeout}"
    then consider "op = A_Recv" | "op = A_Try_Recv" | "op = Recv_Blocking" | "op = Recv_Blocking_Timeout"
      by blast
    then show ?thesis
    proof cases
      case 1
      with s have "recv_futs h1 = AList.update (next_op_id h) \<lparr> rf_queued = False \<rparr> (recv_futs h)"
        and i: "a_inner h1 = a_inner h" "effs = []" "waits_at Data_Available out = 0"
        by (auto simp: async_recv_def)
      from queued_recvs_fresh [OF assms(3) this(1)] i 1 h' show ?thesis
        by (intro keep) simp_all
    next
      case 2
      obtain d where d: "async_try_recv st e (a_inner h) = (d, effs, out)" "h1 = h\<lparr> a_inner := d \<rparr>"
        using s on_inner_result [of h] 2 by (auto simp: on_inner_def split: prod.splits)
      from try_recv_recv [OF inv d(1)] effects [OF conjunct1 [OF try_recv_send [OF get_bound_zero d(1)]]]
        2 d(2) h' show ?thesis
        by (intro keep) (simp_all add: queued_recvs_def)
    next
      case 3
      obtain d where d: "recv_blocking st e (a_inner h) = (d, effs, out)" "h1 = h\<lparr> a_inner := d \<rparr>"
        using s on_inner_result [of h] 3 by (auto simp: on_inner_def split: prod.splits)
      from recv_blocking_recv [OF inv d(1)] effects [OF conjunct1 [OF recv_blocking_send [OF get_bound_zero d(1)]]]
        3 d(2) show ?thesis by (intro blocked) simp_all
    next
      case 4
      obtain d where d: "recv_blocking_timeout st e (a_inner h) = (d, effs, out)" "h1 = h\<lparr> a_inner := d \<rparr>"
        using s on_inner_result [of h] 4 by (auto simp: on_inner_def split: prod.splits)
      from recv_blocking_timeout_recv [OF inv d(1)]
        effects [OF conjunct1 [OF recv_blocking_timeout_send [OF get_bound_zero d(1)]]]
        4 d(2) show ?thesis by (intro blocked) simp_all
    qed
  next
    fix cid w assume op: "op = Poll_Recv cid w"
    with assms(4,5) obtain f where f: "map_of (recv_futs h) cid = Some f" and w: "w = cid"
      by (auto simp: futures_there_def)
    from s op have run: "run_poll_recv st e cid w h = (h1, effs, out)" by simp
    have ord: "orderly h (Poll_Recv cid cid)" using assms(5) op w by simp
    show ?thesis using run f
    proof (cases rule: run_poll_recv_cases)
      case (finished d r)
      note eff = effects [OF poll_recv_send [OF get_bound_zero finished(1)]]
      show ?thesis using inv finished(1)
      proof (cases rule: poll_recv_recv)
        case fin: (finished x)
        show ?thesis
          by (rule recv_move_finished [OF assms(1) s assms(3) f ord])
            (use fin finished eff op w h' in simp_all)
      qed (use finished in simp)
    next
      case (pending d f')
      show ?thesis using inv pending(1)
      proof (cases rule: poll_recv_recv)
        case pend: (pending d1)
        have "wakers_ok (recv_fut_wakers (a_inner h)) (recv_fut_waker_ids (a_inner h))"
          using assms(2) by (simp add: async_inv_def async_wf_def)
        then have "recv_fut_waker_ids (a_inner h) = side_ids (recv_side h)"
          by (simp add: wakers_ok_def recv_side_def)
        with queued_recv_ids [OF assms(3), of cid] ord pend(5)
        have new: "cid \<notin> recv_fut_waker_ids d1" by simp
        from s pend(2) have s0: "async_stretch st e op h = (h1, [], out)" by simp
        show ?thesis
          by (rule recv_move_pending [where ?d1.0 = d1, OF assms(1) s0 assms(3) f ord])
            (use pend pending new op w h' s in simp_all)
      qed (use pending in simp)
    qed
  next
    fix cid assume op: "op = Drop_Recv cid"
    with assms(4) obtain f where f: "map_of (recv_futs h) cid = Some f" by (auto simp: futures_there_def)
    have units: "units (a_inner h1) = units (a_inner h)"
      using recv_drop_effects [OF assms(3) s [unfolded op]] by (simp add: units_def)
    show ?thesis
    proof (cases "rf_queued f")
      case True
      with f s op have "notify_recv_fut_drop cid (a_inner h) = (a_inner h1, effs)"
        "recv_futs h1 = AList.delete cid (recv_futs h)" "out = Return AR_Done" "cid \<in> queued_recvs h"
        by (auto simp: recv_future_drop_def queued_recvs_def split: prod.splits)
      with recv_move_drop [OF assms(1) s assms(3), of cid] op units h' show ?thesis by simp
    next
      case False
      with f have "queued_recvs h - {cid} = queued_recvs h" by (auto simp: queued_recvs_def)
      moreover from f s op False have "h1 = h\<lparr> recv_futs := AList.delete cid (recv_futs h) \<rparr>" "effs = []"
        "out = Return AR_Done" by (auto simp: recv_future_drop_def)
      moreover from this(1) have "queued_recvs h1 = queued_recvs h - {cid}"
        by (auto simp: queued_recvs_def map_of_delete split: if_splits)
      ultimately show ?thesis using op h' by (intro keep) simp_all
    qed
  qed
qed

lemma handle_op_recv_move:
  assumes "async_code st e op h = (h', sigs, out)" and "tasks_ok h"
    and "op \<in> {A_Clone_Sender, A_Drop_Sender, A_Clone_Receiver, A_Drop_Receiver, A_Len, A_Is_Full,
      A_Is_Empty, A_Sender_Is_Alive, A_Receiver_Is_Alive}"
  shows "recv_move (units (a_inner h)) (units (a_inner h')) op h h' sigs out"
proof -
  obtain h1 effs where s: "async_stretch st e op h = (h1, effs, out)" and h': "a_inner h' = a_inner h1"
    using assms(1) by (rule stretch_of_code)
  note keep = recv_move_keep [OF assms(1) s assms(2)]
  consider "op = A_Drop_Receiver" | "op = A_Drop_Sender"
    | "op \<in> {A_Clone_Sender, A_Clone_Receiver, A_Len, A_Is_Full, A_Is_Empty, A_Sender_Is_Alive, A_Receiver_Is_Alive}"
    using assms(3) by blast
  then show ?thesis
  proof cases
    case 1
    from drop_receiver_recv [OF assms(2) s [unfolded 1]] units_kept [of "a_inner h1" "a_inner h"]
      queued_eq(1) [of h1 h] 1 h' show ?thesis by (intro keep) simp_all
  next
    case 3
    then have "recv_kept (a_inner h) (a_inner h1)" "units (a_inner h1) = units (a_inner h)" "effs = []"
      "recv_futs h1 = recv_futs h" "waits_at Data_Available out = 0" "polled_task op = None"
      "async_waits_on op = None"
      using s by (auto simp: recv_kept_def units_def)
    with queued_eq(1) [of h1 h] h' show ?thesis by (intro keep) simp_all
  next
    case 2
    have futs: "recv_futs h1 = recv_futs h" "waits_at Data_Available out = 0"
      using s 2 by (auto split: option.splits)
    show ?thesis
    proof (cases "a_senders (a_inner h) = 1")
      case True
      let ?d = "(a_inner h)\<lparr> a_senders := 0 \<rparr>"
      from s 2 True have "wake_all_recvs ?d = (a_inner h1, effs)"
        by (auto simp: async_sender_drop_def split: prod.splits)
      moreover have "recv_kept (a_inner h) ?d" by (simp add: recv_kept_def)
      ultimately show ?thesis
        using recv_move_close [OF assms(1) s assms(2)] futs queued_eq(1) [OF futs(1)] 2 by simp
    next
      case False
      with s 2 have "recv_kept (a_inner h) (a_inner h1)" "units (a_inner h1) = units (a_inner h)" "effs = []"
        by (auto simp: async_sender_drop_def Let_def recv_kept_def units_def split: if_splits)
      with futs queued_eq(1) [OF futs(1)] 2 h' show ?thesis by (intro keep) simp_all
    qed
  qed
qed

theorem op_recv_move:
  assumes "async_code st e op h = (h', sigs, out)" and "async_inv inv h" and "tasks_ok h"
    and "futures_there h op" and "orderly h op"
  shows "recv_move (units (a_inner h)) (units (a_inner h')) op h h' sigs out"
proof -
  from assms(2) have "inv (a_queue (a_inner h))" by (simp add: async_inv_def)
  note ops = send_op_recv_move [OF assms(1) this assms(3-5)] recv_op_recv_move [OF assms(1-5)]
    handle_op_recv_move [OF assms(1,3)]
  show ?thesis by (cases op) (rule ops; simp)+
qed

end

section \<open>The moves of the sending side\<close>

lemma send_move_keep:
  assumes "async_code st e op h = (h', sigs, out)" and "async_stretch st e op h = (h1, effs, out1)"
    and "tasks_ok h" and "send_kept (a_inner h) (a_inner h1)" and "queued_sends h1 = queued_sends h"
    and "recv_effects h effs" and "\<And>w. polled_task op = Some w \<Longrightarrow> w \<notin> queued_sends h"
    and "waits_at Space_Available out \<noteq> 1"
    and "u' = 0 \<or> u' + of_bool (async_waits_on op = Some Space_Available) \<le> u \<or> send_fut_wakers (a_inner h) = []"
  shows "send_move u u' op h h' sigs out"
proof -
  have "send_side h' = send_side h" by (rule send_side_eq [OF assms(1-7)])
  moreover have "count_list sigs (Notify_One Space_Available) = 0" "Notify_All Space_Available \<notin> set sigs"
    using assms(6) sides_after(2) [OF assms(1,2)] by (simp_all add: recv_effects_def count_list_0_iff)
  moreover have "side_move u u' (async_waits_on op = Some Space_Available) (send_side h) (send_side h) 0 False False"
    by (rule move_keep) (use assms(9) in \<open>simp add: send_side_def\<close>)
  ultimately show ?thesis using assms(8) by (simp add: send_move_def)
qed

lemma send_move_popped:
  assumes "async_code st e op h = (h', sigs, out)" and "async_stretch st e op h = (h1, effs, out1)"
    and "tasks_ok h" and "send_popped v (a_inner h) (a_inner h1) effs" and "queued_sends h1 = queued_sends h"
    and "\<And>w. polled_task op = Some w \<Longrightarrow> w \<notin> queued_sends h"
    and "waits_at Space_Available out \<noteq> 1" and "async_waits_on op \<noteq> Some Space_Available"
  shows "send_move (v (a_inner h)) (v (a_inner h1)) op h h' sigs out"
proof -
  from assms(4) obtain d1 where d1: "send_kept (a_inner h) d1"
    and "a_inner h1 = d1 \<and> effs = [] \<and> v (a_inner h1) \<le> v (a_inner h) \<or>
      wake_next_send d1 = (a_inner h1, effs) \<and> v (a_inner h1) \<le> v (a_inner h) + 1"
    unfolding send_popped_def by blast
  then consider "a_inner h1 = d1" "effs = []" "v (a_inner h1) \<le> v (a_inner h)"
    | "wake_next_send d1 = (a_inner h1, effs)" "v (a_inner h1) \<le> v (a_inner h) + 1" by blast
  then show ?thesis
  proof cases
    case 1
    show ?thesis
      by (rule send_move_keep [OF assms(1-3) _ assms(5) _ assms(6,7)]) (use 1 d1 assms(8) in simp_all)
  next
    case 2
    from assms(3) have "side_ok (make_side (send_fut_wakers d1) (send_fut_pending d1) (queued_sends h)
        (set (woken_tasks h)))" by (simp add: send_side_kept [OF d1] tasks_ok_def)
    note nxt = next_send_side [OF 2(1) this]
    note after = sides_after [OF assms(1,2)]
    have "send_side h' = make_side (send_fut_wakers (a_inner h1)) (send_fut_pending (a_inner h1))
        (queued_sends h) (set (woken_tasks h) \<union> wakes effs)"
      using after(3,5,7) assms(5,6) by (auto simp: send_side_def queued_sends_def intro!: make_side_cong)
    with nxt(1) send_side_kept [OF d1] after(2)
    have "side_next (send_side h) = (send_side h', count_list sigs (Notify_One Space_Available))" by simp
    from move_next [OF 2(2) this] show ?thesis
      using nxt(3) [of Space_Available] after(2) assms(7,8) by (simp add: send_move_def)
  qed
qed

lemma send_move_sleep:
  assumes "async_code st e op h = (h', sigs, out)" and "async_stretch st e op h = (h1, effs, out1)"
    and "send_kept (a_inner h) d1" and "a_inner h1 = append_send_sync_waker d1"
    and "queued_sends h1 = queued_sends h" and "effs = []" and "polled_task op = None"
    and "waits_at Space_Available out = 1"
  shows "send_move u 0 op h h' sigs out"
proof -
  note after = sides_after [OF assms(1,2)]
  have "send_side h' = side_sync (send_side h)"
    using after(3,5,7) assms(3-7)
    by (auto simp: send_side_def side_sync_def make_side_def send_kept_def append_send_sync_waker_def queued_sends_def)
  with move_sleep [of u "async_waits_on op = Some Space_Available" "send_side h"] after(2) assms(6,8)
  show ?thesis by (simp add: send_move_def)
qed

lemma send_move_close:
  assumes "async_code st e op h = (h', sigs, out)" and "async_stretch st e op h = (h1, effs, out1)"
    and "tasks_ok h" and "send_kept (a_inner h) d1" and "wake_all_sends d1 = (a_inner h1, effs)"
    and "queued_sends h1 = queued_sends h" and "polled_task op = None"
    and "waits_at Space_Available out = 0" and "async_waits_on op = None"
  shows "send_move u u' op h h' sigs out"
proof -
  note after = sides_after [OF assms(1,2)]
  from assms(3) have "side_ok (make_side (send_fut_wakers d1) (send_fut_pending d1) (queued_sends h)
      (set (woken_tasks h)))" by (simp add: send_side_kept [OF assms(4)] tasks_ok_def)
  note close = close_send_side [OF assms(5) this]
  have "send_side h' = side_close (send_side h)"
    using after(3,5,7) assms(6,7) close send_side_kept [OF assms(4)]
    by (auto simp: send_side_def queued_sends_def intro!: make_side_cong)
  with move_close [where u = u and u' = u' and s = "send_side h"]
    after(2) close assms(8,9) show ?thesis by (simp add: send_move_def)
qed

lemma send_move_finished:
  assumes "async_code st e op h = (h', sigs, out)" and "async_stretch st e op h = (h1, effs, out1)"
    and "tasks_ok h" and "map_of (send_futs h) cid = Some f" and "orderly h (Poll_Send cid cid)"
    and "send_kept (confirmed_send cid f (a_inner h)) (a_inner h1)"
    and "send_futs h1 = AList.delete cid (send_futs h)" and "recv_effects h effs"
    and "op = Poll_Send cid cid" and "waits_at Space_Available out = 0"
    and "u' = 0 \<or> u' < u \<or> send_fut_wakers (a_inner h) = []"
  shows "send_move u u' op h h' sigs out"
proof -
  note after = sides_after [OF assms(1,2)]
  have q: "queued_sends h1 = queued_sends h - {cid}"
    using assms(7) by (auto simp: queued_sends_def map_of_delete)
  have "send_side h' = side_done cid (send_side h)"
    using after(3,5,7) assms(6,8,9) q confirmed_send_pending [OF assms(3,4)] tasks_ok_disjoint [OF assms(3)]
    by (auto simp: send_side_def side_done_def make_side_def send_kept_def recv_effects_def queued_sends_def)
  moreover have "u' = 0 \<or> u' < u \<or> s_wakers (send_side h) = []" using assms(11) by (simp add: send_side_def)
  ultimately show ?thesis
    using move_done [OF queued_send_ids [OF assms(3), of cid], of u' u] after(2) assms(5,8-10)
    by (auto simp: send_move_def recv_effects_def count_list_0_iff)
qed

lemma send_move_pending:
  assumes "async_code st e op h = (h', sigs, out)" and "async_stretch st e op h = (h1, [], out1)"
    and "tasks_ok h" and "map_of (send_futs h) cid = Some f" and "orderly h (Poll_Send cid cid)"
    and "send_kept (confirmed_send cid f (a_inner h)) d1"
    and "a_inner h1 = append_send_fut_waker cid cid d1" and "cid \<notin> send_fut_waker_ids d1"
    and "send_futs h1 = AList.update cid f' (send_futs h)" and "sf_queued f'"
    and "op = Poll_Send cid cid" and "waits_at Space_Available out = 0"
    and "u' = 0 \<or> \<not> sf_queued f \<and> send_fut_wakers (a_inner h) \<noteq> [] \<and> u' \<le> u"
  shows "send_move u u' op h h' sigs out"
proof -
  note after = sides_after [OF assms(1,2)]
  have q: "queued_sends h1 = insert cid (queued_sends h)"
    using assms(9,10) by (auto simp: queued_sends_def map_of_update)
  have "send_side h' = side_queue cid (send_side h)"
    using after(3,5,7) assms(6,7,8,11) q confirmed_send_pending [OF assms(3,4)]
    by (auto simp: send_side_def side_queue_def make_side_def send_kept_def queued_sends_def
        append_send_fut_waker_def)
  moreover have "u' = 0 \<or> cid \<notin> s_queued (send_side h) \<and> s_wakers (send_side h) \<noteq> [] \<and> u' \<le> u"
    using assms(4,13) by (auto simp: send_side_def queued_sends_def)
  ultimately show ?thesis
    using move_queue [OF queued_send_ids [OF assms(3), of cid], of u' u] after(2) assms(5,11,12)
    by (auto simp: send_move_def)
qed

lemma send_move_drop:
  assumes "async_code st e op h = (h', sigs, out)" and "async_stretch st e op h = (h1, effs, out1)"
    and "tasks_ok h" and "cid \<in> queued_sends h" and "notify_send_fut_drop cid (a_inner h) = (a_inner h1, effs)"
    and "send_futs h1 = AList.delete cid (send_futs h)"
    and "op = Drop_Send cid" and "waits_at Space_Available out = 0" and "u' \<le> u"
  shows "send_move u u' op h h' sigs out"
proof -
  note after = sides_after [OF assms(1,2)]
  have q: "queued_sends h1 = queued_sends h - {cid}"
    using assms(6) by (auto simp: queued_sends_def map_of_delete)
  from assms(3) have "side_ok (make_side (send_fut_wakers (a_inner h)) (send_fut_pending (a_inner h))
      (queued_sends h) (set (woken_tasks h)))" by (simp add: tasks_ok_def send_side_def)
  note drop = drop_send_side [OF assms(5) this]
  have "send_side h' = make_side (send_fut_wakers (a_inner h1)) (send_fut_pending (a_inner h1))
      (queued_sends h - {cid}) (set (woken_tasks h) \<union> wakes effs)"
    using after(3,5,7) assms(7) q by (auto simp: send_side_def queued_sends_def)
  with drop after(2) have "side_drop cid (send_side h) = (send_side h', count_list sigs (Notify_One Space_Available))"
    by (simp add: send_side_def)
  from move_drop [OF assms(9) this] drop after(2) assms(7,8) show ?thesis by (simp add: send_move_def)
qed

text \<open>
  The sending operations on their own side. What a sender waits for is a measure of the queue, \<open>room\<close>,
  that a value taken out raises by at most one, a value stored lowers, and that is zero when a value
  is refused. The free slots of a storage that drops nothing are such a measure; for other storages
  the moves are still those of the model, but only the measure that is always zero fits.
\<close>

locale room_contract = storage_contract st inv elems cap
  for st :: "('e, 'a, 's) channel_storage" and inv :: "'s \<Rightarrow> bool"
    and elems :: "'s \<Rightarrow> 'a list" and cap :: "'s \<Rightarrow> usize" +
  fixes room :: "'s \<Rightarrow> nat"
  assumes get_room: "inv q \<Longrightarrow> get_bound st e room q"
    and push_room: "inv q \<Longrightarrow> cs_try_push st e q a = Some (q', r) \<Longrightarrow>
      room q' = 0 \<or> room q' < room q \<and> (r = Pushed \<or> r = Skipped)"

definition send_blocked :: "('s async_inner \<Rightarrow> nat) \<Rightarrow> 's async_inner \<Rightarrow> 's async_inner \<Rightarrow> effect list \<Rightarrow>
    ('b async_op, async_cv, 'b async_result) outcome \<Rightarrow> bool" where
  "send_blocked v d d' effs out \<longleftrightarrow>
     send_kept d d' \<and> (v d' = 0 \<or> v d' < v d) \<and> waits_at Space_Available out = 0 \<or>
     d' = d \<and> a_receivers d = 0 \<and> effs = [] \<and> waits_at Space_Available out = 0 \<or>
     (\<exists>d1. send_kept d d1 \<and> d' = append_send_sync_waker d1 \<and> v d' = 0 \<and> effs = [] \<and>
        waits_at Space_Available out = 1)"

context room_contract
begin

definition free :: "'s async_inner \<Rightarrow> nat" where
  "free d = room (a_queue d)"

lemma free_frames [simp]:
  "free (append_send_fut_waker w cid d) = free d" "free (append_send_sync_waker d) = free d"
  "free (confirmed_send cid f d) = free d" "free (d\<lparr> a_queue := q \<rparr>) = room q"
  by (simp_all add: free_def)

lemma push_free:
  assumes "inv (a_queue d)" and "cs_try_push st e (a_queue d) a = Some (q, r)"
  obtains (stored) d2 effs where "r = Pushed \<or> r = Skipped" and "wake_next_recv (d\<lparr> a_queue := q \<rparr>) = (d2, effs)"
      and "free d2 = 0 \<or> free d2 < free d" and "send_kept d d2" and "room q = 0 \<or> room q < free d"
  | (full) "r = Full a" and "room q = 0"
proof (cases "r = Pushed \<or> r = Skipped")
  case True
  obtain d2 effs where w: "wake_next_recv (d\<lparr> a_queue := q \<rparr>) = (d2, effs)" by fastforce
  have "send_kept d d2" using kept_other_side(7) [of d "d\<lparr> a_queue := q \<rparr>"] w by simp
  with stored [OF True w] push_room [OF assms] wake_next_queue(1) [OF w] show thesis
    by (auto simp: free_def)
next
  case False
  then obtain b where b: "r = Full b" by (cases r) auto
  with push_full [OF assms(1)] assms(2) have "b = a" by simp
  with b push_room [OF assms] full show thesis by simp
qed

lemma try_send_send:
  assumes "inv (a_queue d)" and "async_try_send st e a d = (d', effs, out)"
  shows "send_kept d d' \<and> (free d' = 0 \<or> free d' \<le> free d) \<and> waits_at Space_Available out = 0"
proof (cases "a_receivers d = 0")
  case False
  from push_total [OF assms(1), of e a] obtain q r where q: "cs_try_push st e (a_queue d) a = Some (q, r)"
    by blast
  from assms(1) q show ?thesis
    by (cases rule: push_free) (use assms(2) False q in \<open>auto simp: async_try_send_def\<close>)
qed (use assms in \<open>auto simp: async_try_send_def\<close>)

lemma send_blocking_send:
  assumes "inv (a_queue d)" and "send_blocking st e a d = (d', effs, out)"
  shows "send_blocked free d d' effs out"
proof (cases "a_receivers d = 0")
  case False
  from push_total [OF assms(1), of e a] obtain q r where q: "cs_try_push st e (a_queue d) a = Some (q, r)"
    by blast
  from assms(1) q show ?thesis
    by (cases rule: push_free) (use assms(2) False q in
      \<open>auto simp: send_blocking_def send_blocked_def intro: exI [of _ "d\<lparr> a_queue := q \<rparr>"]\<close>)
qed (use assms in \<open>auto simp: send_blocking_def send_blocked_def\<close>)

lemma send_blocking_timeout_send:
  assumes "inv (a_queue d)" and "send_blocking_timeout st e a d = (d', effs, out)"
  shows "send_blocked free d d' effs out"
proof (cases "a_receivers d = 0")
  case False
  from push_total [OF assms(1), of e a] obtain q r where q: "cs_try_push st e (a_queue d) a = Some (q, r)"
    by blast
  from assms(1) q show ?thesis
    by (cases rule: push_free) (use assms(2) False q in
      \<open>auto simp: send_blocking_timeout_def send_blocked_def intro: exI [of _ "d\<lparr> a_queue := q \<rparr>"]\<close>)
qed (use assms in \<open>auto simp: send_blocking_timeout_def send_blocked_def\<close>)

lemma poll_send_send:
  assumes "inv (a_queue d)" and "poll_send st e waker cid f d = Some (d', effs, r)"
  obtains (finished) x where "r = Inl x" and "send_kept (confirmed_send cid f d) d'"
      and "free d' = 0 \<or> free d' < free d \<or> a_receivers d = 0"
  | (pending) d1 f' where "r = Inr f'" and "sf_queued f'" and "effs = []"
      and "send_kept (confirmed_send cid f d) d1" and "d' = append_send_fut_waker waker cid d1"
      and "send_fut_waker_ids d1 = send_fut_waker_ids d"
      and "free d' = 0 \<or> \<not> sf_queued f \<and> send_fut_wakers d \<noteq> [] \<and> free d' \<le> free d"
proof -
  let ?d = "confirmed_send cid f d"
  note def = assms(2) [unfolded poll_send_def, folded confirmed_send_def, simplified Let_def, simplified]
  consider "a_receivers d = 0" | "a_receivers d > 0" "\<not> (send_fut_wakers d = [] \<or> sf_queued f)"
    | "a_receivers d > 0" "send_fut_wakers d = [] \<or> sf_queued f" by auto
  then show thesis
  proof cases
    case 1
    with def show thesis by (intro finished [of "Inl ChannelClosed"]) auto
  next
    case 2
    with def show thesis by (intro pending [of "f\<lparr> sf_queued := True \<rparr>" ?d]) auto
  next
    case 3
    with def obtain v where v: "sf_value f = Some v" by (cases "sf_value f") auto
    have inv: "inv (a_queue ?d)" using assms(1) by simp
    from push_total [OF assms(1), of e v] obtain q res where q: "cs_try_push st e (a_queue ?d) v = Some (q, res)"
      by auto
    from inv q show thesis
    proof (cases rule: push_free)
      case (stored d2 effs2)
      show thesis
      proof (cases "res = Pushed")
        case True
        with stored def 3 v q show thesis by (intro finished [of "Inr ()"]) auto
      next
        case False
        with stored def 3 v q show thesis by (intro finished [of "Inl ChannelSkipped"]) auto
      qed
    next
      case full
      with def 3 v q show thesis
        by (intro pending [of "\<lparr> sf_queued = True, sf_value = Some v \<rparr>" "?d\<lparr> a_queue := q \<rparr>"]) auto
    qed
  qed
qed

lemma free_kept: "a_queue d' = a_queue d \<Longrightarrow> free d' = free d"
  by (simp add: free_def)

lemma free_measure: "free = (\<lambda>d. room (a_queue d))"
  by (simp add: fun_eq_iff free_def)

lemma recv_op_send_move:
  assumes "async_code st e op h = (h', sigs, out)" and "async_inv inv h" and "tasks_ok h"
    and "futures_there h op" and "orderly h op"
    and "op \<in> {A_Recv, A_Try_Recv, Recv_Blocking, Recv_Blocking_Timeout} \<or>
      (\<exists>cid w. op = Poll_Recv cid w \<or> op = Drop_Recv cid)"
  shows "send_move (free (a_inner h)) (free (a_inner h')) op h h' sigs out"
proof -
  obtain h1 effs where s: "async_stretch st e op h = (h1, effs, out)" and h': "a_inner h' = a_inner h1"
    using assms(1) by (rule stretch_of_code)
  from assms(2) have inv: "inv (a_queue (a_inner h))" by (simp add: async_inv_def)
  note bound = get_room [OF inv]
  note popped = send_move_popped [OF assms(1) s assms(3), where v = free, folded h']
  note keep = send_move_keep [OF assms(1) s assms(3)]
  from assms(6) show ?thesis
  proof (elim disjE exE)
    assume "op \<in> {A_Recv, A_Try_Recv, Recv_Blocking, Recv_Blocking_Timeout}"
    then consider "op = A_Recv" | "op = A_Try_Recv" | "op = Recv_Blocking" | "op = Recv_Blocking_Timeout"
      by blast
    then show ?thesis
    proof cases
      case 1
      with s h' show ?thesis by (intro keep) (auto simp: async_recv_def queued_sends_def)
    next
      case 2
      obtain d where d: "async_try_recv st e (a_inner h) = (d, effs, out)" "h1 = h\<lparr> a_inner := d \<rparr>"
        using s 2 by (auto simp: on_inner_def split: prod.splits)
      from try_recv_send [OF bound d(1), folded free_measure] d(2) 2 h' show ?thesis
        by (intro popped) (simp_all add: queued_sends_def)
    next
      case 3
      obtain d where d: "recv_blocking st e (a_inner h) = (d, effs, out)" "h1 = h\<lparr> a_inner := d \<rparr>"
        using s 3 by (auto simp: on_inner_def split: prod.splits)
      from recv_blocking_send [OF bound d(1), folded free_measure] d(2) 3 h' show ?thesis
        by (intro popped) (simp_all add: queued_sends_def)
    next
      case 4
      obtain d where d: "recv_blocking_timeout st e (a_inner h) = (d, effs, out)" "h1 = h\<lparr> a_inner := d \<rparr>"
        using s 4 by (auto simp: on_inner_def split: prod.splits)
      from recv_blocking_timeout_send [OF bound d(1), folded free_measure] d(2) 4 h' show ?thesis
        by (intro popped) (simp_all add: queued_sends_def)
    qed
  next
    fix cid w assume op: "op = Poll_Recv cid w"
    with assms(4,5) obtain f where f: "map_of (recv_futs h) cid = Some f" and w: "w = cid"
      by (auto simp: futures_there_def)
    have other: "cid \<notin> queued_sends h" using f assms(3) by (auto simp: tasks_ok_def queued_sends_def)
    from s op have run: "run_poll_recv st e cid w h = (h1, effs, out)" by simp
    show ?thesis using run f
    proof (cases rule: run_poll_recv_cases)
      case (finished d r)
      with poll_recv_send [OF bound finished(1), folded free_measure] op other w show ?thesis
        by (intro popped) (auto simp: queued_sends_def h')
    next
      case (pending d f')
      with poll_recv_send [OF bound pending(1), folded free_measure] op other w show ?thesis
        by (intro popped) (auto simp: queued_sends_def h')
    qed
  next
    fix cid assume op: "op = Drop_Recv cid"
    from recv_drop_effects [OF assms(3) s [unfolded op]] free_kept [of "a_inner h1" "a_inner h"]
      queued_eq(2) [of h1 h] op h' show ?thesis by (intro keep) simp_all
  qed
qed

lemma send_op_send_move:
  assumes "async_code st e op h = (h', sigs, out)" and "async_inv inv h" and "tasks_ok h"
    and "futures_there h op" and "orderly h op"
    and "(\<exists>a. op \<in> {A_Send a, A_Try_Send a, Send_Blocking a, Send_Blocking_Timeout a}) \<or>
      (\<exists>cid w. op = Poll_Send cid w \<or> op = Drop_Send cid)"
  shows "send_move (free (a_inner h)) (free (a_inner h')) op h h' sigs out"
proof -
  obtain h1 effs where s: "async_stretch st e op h = (h1, effs, out)" and h': "a_inner h' = a_inner h1"
    using assms(1) by (rule stretch_of_code)
  from assms(2) have inv: "inv (a_queue (a_inner h))" by (simp add: async_inv_def)
  from assms(2) have wf: "async_wf (a_inner h)" by (simp add: async_inv_def)
  then have closed: "a_receivers (a_inner h) = 0 \<Longrightarrow> send_fut_wakers (a_inner h) = []" by (simp add: async_wf_def)
  note keep = send_move_keep [OF assms(1) s assms(3)]
  note effects = recv_pushed_effects [OF assms(3)]
  have blocked: ?thesis if "send_blocked free (a_inner h) (a_inner h1) effs out" and "send_futs h1 = send_futs h"
    and "recv_effects h effs" and "async_waits_on op = Some Space_Available" and "polled_task op = None"
    using that(1) unfolding send_blocked_def
  proof (elim disjE conjE exE)
    fix d1 assume "send_kept (a_inner h) d1" "a_inner h1 = append_send_sync_waker d1" "free (a_inner h1) = 0"
      "effs = []" "waits_at Space_Available out = 1"
    with send_move_sleep [OF assms(1) s] that queued_eq(2) [OF that(2)] h' show ?thesis by simp
  qed (intro keep; use that queued_eq(2) [OF that(2)] h' closed in simp)+
  from assms(6) show ?thesis
  proof (elim disjE exE)
    fix a assume "op \<in> {A_Send a, A_Try_Send a, Send_Blocking a, Send_Blocking_Timeout a}"
    then consider "op = A_Send a" | "op = A_Try_Send a" | "op = Send_Blocking a" | "op = Send_Blocking_Timeout a"
      by blast
    then show ?thesis
    proof cases
      case 1
      with s have "send_futs h1 = AList.update (next_op_id h) \<lparr> sf_queued = False, sf_value = Some a \<rparr> (send_futs h)"
        and i: "a_inner h1 = a_inner h" "effs = []" "waits_at Space_Available out = 0"
        by (auto simp: async_send_def)
      from queued_sends_fresh [OF assms(3) this(1)] i 1 h' show ?thesis
        by (intro keep) simp_all
    next
      case 2
      obtain d where d: "async_try_send st e a (a_inner h) = (d, effs, out)" "h1 = h\<lparr> a_inner := d \<rparr>"
        using s 2 by (auto simp: on_inner_def split: prod.splits)
      from try_send_send [OF inv d(1)] effects [OF conjunct1 [OF try_send_recv [OF inv d(1)]]]
        2 d(2) h' show ?thesis
        by (intro keep) (auto simp: queued_sends_def)
    next
      case 3
      obtain d where d: "send_blocking st e a (a_inner h) = (d, effs, out)" "h1 = h\<lparr> a_inner := d \<rparr>"
        using s 3 by (auto simp: on_inner_def split: prod.splits)
      from send_blocking_send [OF inv d(1)] effects [OF conjunct1 [OF send_blocking_recv [OF inv d(1)]]]
        3 d(2) show ?thesis by (intro blocked) simp_all
    next
      case 4
      obtain d where d: "send_blocking_timeout st e a (a_inner h) = (d, effs, out)" "h1 = h\<lparr> a_inner := d \<rparr>"
        using s 4 by (auto simp: on_inner_def split: prod.splits)
      from send_blocking_timeout_send [OF inv d(1)]
        effects [OF conjunct1 [OF send_blocking_timeout_recv [OF inv d(1)]]]
        4 d(2) show ?thesis by (intro blocked) simp_all
    qed
  next
    fix cid w assume op: "op = Poll_Send cid w"
    with assms(4,5) obtain f where f: "map_of (send_futs h) cid = Some f" and w: "w = cid"
      by (auto simp: futures_there_def)
    from s op have run: "run_poll_send st e cid w h = (h1, effs, out)" by simp
    have ord: "orderly h (Poll_Send cid cid)" using assms(5) op w by simp
    show ?thesis using run f
    proof (cases rule: run_poll_send_cases)
      case panic
      have "sf_value f \<noteq> None" using assms(2) f by (auto simp: async_inv_def futs_ok_def)
      with poll_send_total [OF inv] panic(1) show ?thesis by blast
    next
      case (finished d r)
      note eff = effects [OF poll_send_recv [OF inv finished(1)]]
      show ?thesis using inv finished(1)
      proof (cases rule: poll_send_send)
        case fin: (finished x)
        show ?thesis
          by (rule send_move_finished [OF assms(1) s assms(3) f ord])
            (use fin finished eff op w h' closed in auto)
      qed (use finished in simp)
    next
      case (pending d f')
      show ?thesis using inv pending(1)
      proof (cases rule: poll_send_send)
        case pend: (pending d1 f1)
        have "send_fut_waker_ids (a_inner h) = side_ids (send_side h)"
          using wf by (simp add: async_wf_def wakers_ok_def send_side_def)
        with queued_send_ids [OF assms(3), of cid] ord pend(6)
        have new: "cid \<notin> send_fut_waker_ids d1" by simp
        from s pend(3) have s0: "async_stretch st e op h = (h1, [], out)" by simp
        show ?thesis
          by (rule send_move_pending [where ?d1.0 = d1 and f' = f', OF assms(1) s0 assms(3) f ord])
            (use pend pending new op w h' s in simp_all)
      qed (use pending in simp)
    qed
  next
    fix cid assume op: "op = Drop_Send cid"
    with assms(4) obtain f where f: "map_of (send_futs h) cid = Some f" by (auto simp: futures_there_def)
    have free: "free (a_inner h1) = free (a_inner h)"
      using send_drop_effects [OF assms(3) s [unfolded op]] by (simp add: free_def)
    show ?thesis
    proof (cases "sf_queued f")
      case True
      with f s op have "notify_send_fut_drop cid (a_inner h) = (a_inner h1, effs)"
        "send_futs h1 = AList.delete cid (send_futs h)" "out = Return AR_Done" "cid \<in> queued_sends h"
        by (auto simp: send_future_drop_def queued_sends_def split: prod.splits)
      with send_move_drop [OF assms(1) s assms(3), of cid] op free h' show ?thesis by simp
    next
      case False
      with f have "queued_sends h - {cid} = queued_sends h" by (auto simp: queued_sends_def)
      moreover from f s op False have "h1 = h\<lparr> send_futs := AList.delete cid (send_futs h) \<rparr>" "effs = []"
        "out = Return AR_Done" by (auto simp: send_future_drop_def)
      moreover from this(1) have "queued_sends h1 = queued_sends h - {cid}"
        by (auto simp: queued_sends_def map_of_delete split: if_splits)
      ultimately show ?thesis using op h' by (intro keep) simp_all
    qed
  qed
qed

lemma handle_op_send_move:
  assumes "async_code st e op h = (h', sigs, out)" and "tasks_ok h"
    and "op \<in> {A_Clone_Sender, A_Drop_Sender, A_Clone_Receiver, A_Drop_Receiver, A_Len, A_Is_Full,
      A_Is_Empty, A_Sender_Is_Alive, A_Receiver_Is_Alive}"
  shows "send_move (free (a_inner h)) (free (a_inner h')) op h h' sigs out"
proof -
  obtain h1 effs where s: "async_stretch st e op h = (h1, effs, out)" and h': "a_inner h' = a_inner h1"
    using assms(1) by (rule stretch_of_code)
  note keep = send_move_keep [OF assms(1) s assms(2)]
  consider "op = A_Drop_Receiver" | "op = A_Drop_Sender"
    | "op \<in> {A_Clone_Sender, A_Clone_Receiver, A_Len, A_Is_Full, A_Is_Empty, A_Sender_Is_Alive, A_Receiver_Is_Alive}"
    using assms(3) by blast
  then show ?thesis
  proof cases
    case 2
    from drop_sender_send [OF assms(2) s [unfolded 2]] free_kept [of "a_inner h1" "a_inner h"]
      queued_eq(2) [of h1 h] 2 h' show ?thesis by (intro keep) simp_all
  next
    case 3
    then have "send_kept (a_inner h) (a_inner h1)" "free (a_inner h1) = free (a_inner h)" "effs = []"
      "send_futs h1 = send_futs h" "waits_at Space_Available out = 0" "polled_task op = None"
      "async_waits_on op = None"
      using s by (auto simp: send_kept_def free_def)
    with queued_eq(2) [of h1 h] h' show ?thesis by (intro keep) simp_all
  next
    case 1
    have futs: "send_futs h1 = send_futs h" "waits_at Space_Available out = 0"
      using s 1 by (auto split: option.splits)
    show ?thesis
    proof (cases "a_receivers (a_inner h) = 1")
      case True
      let ?d = "(a_inner h)\<lparr> a_receivers := 0 \<rparr>"
      from s 1 True have "wake_all_sends ?d = (a_inner h1, effs)"
        by (auto simp: async_receiver_drop_def split: prod.splits)
      moreover have "send_kept (a_inner h) ?d" by (simp add: send_kept_def)
      ultimately show ?thesis
        using send_move_close [OF assms(1) s assms(2)] futs queued_eq(2) [OF futs(1)] 1 by simp
    next
      case False
      with s 1 have "send_kept (a_inner h) (a_inner h1)" "free (a_inner h1) = free (a_inner h)" "effs = []"
        by (auto simp: async_receiver_drop_def Let_def send_kept_def free_def split: if_splits)
      with futs queued_eq(2) [OF futs(1)] 1 h' show ?thesis by (intro keep) simp_all
    qed
  qed
qed

theorem op_send_move:
  assumes "async_code st e op h = (h', sigs, out)" and "async_inv inv h" and "tasks_ok h"
    and "futures_there h op" and "orderly h op"
  shows "send_move (free (a_inner h)) (free (a_inner h')) op h h' sigs out"
proof -
  note ops = send_op_send_move [OF assms] recv_op_send_move [OF assms]
    handle_op_send_move [OF assms(1,3)]
  show ?thesis by (cases op) (rule ops; simp)+
qed

end

end
