(* ===== verification/Async_Liveness.thy ===== *)
theory Async_Liveness
  imports Async_Moves
begin

text \<open>
  No wake-up is lost on an asynchronous channel: the moves of theory \<open>Async_Moves\<close> keep the sides
  well formed and satisfy the contract of theory \<open>Handoff\<close>, on the receiving side for every storage,
  on the sending side for a storage that drops nothing.
\<close>

section \<open>Futures and their ids\<close>

definition ids_ok :: "('a, 's) async_shared \<Rightarrow> bool" where
  "ids_ok h \<longleftrightarrow>
     (\<forall>cid \<in> dom (map_of (send_futs h)) \<union> dom (map_of (recv_futs h)). cid < next_op_id h) \<and>
     dom (map_of (send_futs h)) \<inter> dom (map_of (recv_futs h)) = {}"

lemma tasks_ok_alt: "tasks_ok h \<longleftrightarrow> side_ok (send_side h) \<and> side_ok (recv_side h) \<and> ids_ok h"
  by (auto simp: tasks_ok_def ids_ok_def)

text \<open>An operation makes no futures but those it returns.\<close>

definition no_new_ids :: "('a, 's) async_shared \<Rightarrow> ('a, 's) async_shared \<Rightarrow> bool" where
  "no_new_ids h h1 \<longleftrightarrow> next_op_id h1 = next_op_id h \<and>
     dom (map_of (send_futs h1)) \<subseteq> dom (map_of (send_futs h)) \<and>
     dom (map_of (recv_futs h1)) \<subseteq> dom (map_of (recv_futs h))"

lemma no_new_ids_ok: "no_new_ids h h1 \<Longrightarrow> ids_ok h \<Longrightarrow> ids_ok h1"
  unfolding no_new_ids_def ids_ok_def by (elim conjE, intro conjI, simp, blast, blast)

lemma no_new_ids_same:
  "next_op_id h1 = next_op_id h \<Longrightarrow> send_futs h1 = send_futs h \<Longrightarrow> recv_futs h1 = recv_futs h \<Longrightarrow> no_new_ids h h1"
  by (simp add: no_new_ids_def)

lemma dom_update: "dom (map_of (AList.update k v xs)) = insert k (dom (map_of xs))"
  by (auto simp: map_of_update split: if_splits)

lemma fresh_id: "ids_ok h \<Longrightarrow> next_op_id h \<notin> dom (map_of (send_futs h)) \<union> dom (map_of (recv_futs h))"
  unfolding ids_ok_def by (meson nat_less_le)

lemma new_send_ids_ok:
  "ids_ok h \<Longrightarrow> next_op_id h1 = Suc (next_op_id h) \<Longrightarrow> recv_futs h1 = recv_futs h \<Longrightarrow>
   send_futs h1 = AList.update (next_op_id h) f (send_futs h) \<Longrightarrow> ids_ok h1"
  using fresh_id [of h] unfolding ids_ok_def
  by (simp only: dom_update) (blast intro: less_SucI)

lemma new_recv_ids_ok:
  "ids_ok h \<Longrightarrow> next_op_id h1 = Suc (next_op_id h) \<Longrightarrow> send_futs h1 = send_futs h \<Longrightarrow>
   recv_futs h1 = AList.update (next_op_id h) f (recv_futs h) \<Longrightarrow> ids_ok h1"
  using fresh_id [of h] unfolding ids_ok_def
  by (simp only: dom_update) (blast intro: less_SucI)

lemma poll_send_ids:
  assumes "run_poll_send st e cid w h = (h1, effs, out)"
  shows "no_new_ids h h1"
proof (cases "map_of (send_futs h) cid")
  case (Some f)
  from assms Some show ?thesis
    by (cases rule: run_poll_send_cases) (use Some in \<open>auto simp: no_new_ids_def map_of_delete map_of_update split: if_splits\<close>)
qed (use assms in \<open>auto simp: run_poll_send_def no_new_ids_def\<close>)

lemma poll_recv_ids:
  assumes "run_poll_recv st e cid w h = (h1, effs, out)"
  shows "no_new_ids h h1"
proof (cases "map_of (recv_futs h) cid")
  case (Some f)
  from assms Some show ?thesis
    by (cases rule: run_poll_recv_cases) (use Some in \<open>auto simp: no_new_ids_def map_of_delete map_of_update split: if_splits\<close>)
qed (use assms in \<open>auto simp: run_poll_recv_def no_new_ids_def\<close>)

lemma on_inner_ids: "on_inner h r = (h1, effs, out) \<Longrightarrow> no_new_ids h h1"
  by (auto simp: on_inner_def no_new_ids_def split: prod.splits)

lemma send_drop_ids: "send_future_drop cid h = (h1, effs, out) \<Longrightarrow> no_new_ids h h1"
  by (auto simp: send_future_drop_def no_new_ids_def map_of_delete split: option.splits prod.splits if_splits)

lemma recv_drop_ids: "recv_future_drop cid h = (h1, effs, out) \<Longrightarrow> no_new_ids h h1"
  by (auto simp: recv_future_drop_def no_new_ids_def map_of_delete split: option.splits prod.splits if_splits)

lemma stretch_ids_ok:
  assumes "async_stretch st e op h = (h1, effs, out)" and "ids_ok h"
  shows "ids_ok h1"
proof (cases op)
  case (A_Send a)
  with assms show ?thesis by (auto simp: async_send_def intro: new_send_ids_ok)
next
  case A_Recv
  with assms show ?thesis by (auto simp: async_recv_def intro: new_recv_ids_ok)
next
  case A_Drop_Sender
  with assms(1) have "no_new_ids h h1" by (auto simp: no_new_ids_def split: option.splits)
  then show ?thesis using assms(2) by (rule no_new_ids_ok)
next
  case A_Drop_Receiver
  with assms(1) have "no_new_ids h h1" by (auto simp: no_new_ids_def split: option.splits)
  then show ?thesis using assms(2) by (rule no_new_ids_ok)
next
  case (Poll_Send cid w)
  with assms(1) show ?thesis by (intro no_new_ids_ok [OF _ assms(2)] poll_send_ids) simp
next
  case (Poll_Recv cid w)
  with assms(1) show ?thesis by (intro no_new_ids_ok [OF _ assms(2)] poll_recv_ids) simp
next
  case (Drop_Send cid)
  with assms(1) show ?thesis by (intro no_new_ids_ok [OF _ assms(2)] send_drop_ids) simp
next
  case (Drop_Recv cid)
  with assms(1) show ?thesis by (intro no_new_ids_ok [OF _ assms(2)] recv_drop_ids) simp
qed (rule no_new_ids_ok [OF _ assms(2)]; use assms(1) in \<open>auto simp: no_new_ids_def on_inner_def split: prod.splits\<close>)+

section \<open>The contracts\<close>

lemma recv_move_ok: "recv_move u u' op h h' sigs out \<Longrightarrow> side_ok (recv_side h) \<Longrightarrow> side_ok (recv_side h')"
  unfolding recv_move_def by (rule side_move_ok)

lemma send_move_ok: "send_move u u' op h h' sigs out \<Longrightarrow> side_ok (send_side h) \<Longrightarrow> side_ok (send_side h')"
  unfolding send_move_def by (rule side_move_ok)

lemma waits_at_cases: "waits_at cv out = of_bool (waits_at cv out = 1)"
  by (cases out) auto

lemma admits_there: "async_admits m op \<Longrightarrow> futures_there (shared m) op"
  by (cases op) (auto simp: futures_there_def)

lemma waits_there: "async_waits_on op \<noteq> None \<Longrightarrow> futures_there h op \<and> orderly h op"
  by (cases op) (auto simp: futures_there_def)

lemma waits_handle:
  "async_waits_on op \<noteq> None \<Longrightarrow> op \<noteq> A_Drop_Sender \<and> op \<noteq> A_Drop_Receiver"
  by auto

context storage_contract
begin

lemma any_room: "room_contract st inv elems cap (\<lambda>_. 0)"
  by unfold_locales (simp_all add: get_bound_def split: prod.split)

definition good_state :: "('a, 's) async_shared \<Rightarrow> bool" where
  "good_state h \<longleftrightarrow> async_inv inv h \<and> tasks_ok h"

lemma good_state_step:
  assumes "good_state h" and "async_code st e op h = (h', sigs, out)"
    and "futures_there h op" and "orderly h op"
    and "op = A_Drop_Sender \<Longrightarrow> a_tx_live h > 0" and "op = A_Drop_Receiver \<Longrightarrow> a_rx_live h > 0"
  shows "good_state h' \<and> out \<noteq> Panic"
proof -
  from assms(1) have h: "async_inv inv h" "tasks_ok h" by (simp_all add: good_state_def)
  note there = assms(3) [unfolded futures_there_def]
  from async_step_inv [OF h(1) assms(2,5,6)] there have inv: "async_inv inv h'" "out \<noteq> Panic" by blast+
  obtain h1 effs where s: "async_stretch st e op h = (h1, effs, out)"
    using assms(2) by (rule stretch_of_code)
  note after = sides_after [OF assms(2) s]
  from h(2) have ok: "side_ok (send_side h)" "side_ok (recv_side h)" "ids_ok h" by (simp_all add: tasks_ok_alt)
  have "ids_ok h'" using stretch_ids_ok [OF s ok(3)] after(4-6) by (simp add: ids_ok_def)
  moreover have "side_ok (recv_side h')"
    by (rule recv_move_ok [OF op_recv_move [OF assms(2) h assms(3,4)] ok(2)])
  moreover have "side_ok (send_side h')"
    by (rule send_move_ok [OF room_contract.op_send_move [OF any_room assms(2) h assms(3,4)] ok(1)])
  ultimately show ?thesis using inv by (simp add: good_state_def tasks_ok_alt)
qed

lemma good_state_call:
  assumes "good_state (shared m)" and "task_admits m op" and "async_code st e op (shared m) = (h', sigs, out)"
  shows "good_state h' \<and> out \<noteq> Panic"
proof -
  from assms(2) have adm: "async_admits m op" "orderly (shared m) op" by (simp_all add: task_admits_def)
  have "op = A_Drop_Sender \<Longrightarrow> a_tx_live (shared m) > 0" "op = A_Drop_Receiver \<Longrightarrow> a_rx_live (shared m) > 0"
    using adm(1) by auto
  with good_state_step [OF assms(1,3) admits_there [OF adm(1)] adm(2)] show ?thesis by simp
qed

lemma good_state_resume:
  assumes "good_state h" and "async_waits_on op \<noteq> None" and "async_code st e op h = (h', sigs, out)"
  shows "good_state h' \<and> out \<noteq> Panic"
  using good_state_step [OF assms(1,3)] waits_there [OF assms(2), of h] waits_handle [OF assms(2)] by simp

lemma code_wait:
  assumes "async_code st e op h = (h', sigs, Wait cv op' tr)"
  shows "async_waits_on op' = Some cv"
proof -
  obtain h1 effs where "async_stretch st e op h = (h1, effs, Wait cv op' tr)"
    using assms by (rule stretch_of_code)
  from stretch_wait [OF this] show ?thesis by simp
qed

lemma admitted_good:
  assumes "good_state (shared m)" and "task_admits m op \<or> async_waits_on op \<noteq> None"
  shows "async_inv inv (shared m)" and "tasks_ok (shared m)" and "futures_there (shared m) op"
    and "orderly (shared m) op"
  using assms admits_there [of m op] waits_there [of op "shared m"]
  by (auto simp: good_state_def task_admits_def)

end

sublocale storage_contract \<subseteq> recv_handoff: handoff "async_code st" task_admits async_waits_on
  good_state Data_Available "\<lambda>h. threads (recv_side h)" "\<lambda>h. recv_fut_wakers (a_inner h) \<noteq> []"
  "\<lambda>h. units (a_inner h)" "\<lambda>h. card (recv_fut_pending (a_inner h))"
proof (unfold_locales, goal_cases)
  case (1 h e op h' sigs cv op' tr)
  from code_wait [OF 1(2)] show ?case .
next
  case (2 m op e h' sigs out)
  from good_state_call [OF 2] show ?case .
next
  case (3 h op e h' sigs out)
  from good_state_resume [OF 3] show ?case .
next
  case (4 m op e h' sigs out)
  note op = admitted_good [OF 4(1,2)]
  from op_recv_move [OF 4(3) op]
  have move: "side_move (units (a_inner (shared m))) (units (a_inner h'))
      (async_waits_on op = Some Data_Available) (recv_side (shared m)) (recv_side h')
      (count_list sigs (Notify_One Data_Available)) False (waits_at Data_Available out = 1)"
    using 4(4) by (simp add: recv_move_def)
  from op(2) have "side_ok (recv_side (shared m))" by (simp add: tasks_ok_def)
  from side_move_accounts [OF move this] waits_at_cases [of Data_Available out] show ?case
    by (auto simp: accounts_def recv_side_def)
next
  case (5 m op e h' sigs out)
  note op = admitted_good [OF 5(1,2)]
  from op_recv_move [OF 5(3) op] 5(4)
  have "side_move (units (a_inner (shared m))) (units (a_inner h'))
      (async_waits_on op = Some Data_Available) (recv_side (shared m)) (recv_side h')
      (count_list sigs (Notify_One Data_Available)) True (waits_at Data_Available out = 1)"
    by (simp add: recv_move_def)
  from side_move_close [OF this] waits_at_cases [of Data_Available out] show ?case
    by (simp add: threads_def recv_side_def)
qed

sublocale room_contract \<subseteq> send_handoff: handoff "async_code st" task_admits async_waits_on
  good_state Space_Available "\<lambda>h. threads (send_side h)" "\<lambda>h. send_fut_wakers (a_inner h) \<noteq> []"
  "\<lambda>h. free (a_inner h)" "\<lambda>h. card (send_fut_pending (a_inner h))"
proof (unfold_locales, goal_cases)
  case (1 m op e h' sigs out)
  note op = admitted_good [OF 1(1,2)]
  from op_send_move [OF 1(3) op]
  have move: "side_move (free (a_inner (shared m))) (free (a_inner h'))
      (async_waits_on op = Some Space_Available) (send_side (shared m)) (send_side h')
      (count_list sigs (Notify_One Space_Available)) False (waits_at Space_Available out = 1)"
    using 1(4) by (simp add: send_move_def)
  from op(2) have "side_ok (send_side (shared m))" by (simp add: tasks_ok_def)
  from side_move_accounts [OF move this] waits_at_cases [of Space_Available out] show ?case
    by (auto simp: accounts_def send_side_def)
next
  case (2 m op e h' sigs out)
  note op = admitted_good [OF 2(1,2)]
  from op_send_move [OF 2(3) op] 2(4)
  have "side_move (free (a_inner (shared m))) (free (a_inner h'))
      (async_waits_on op = Some Space_Available) (send_side (shared m)) (send_side h')
      (count_list sigs (Notify_One Space_Available)) True (waits_at Space_Available out = 1)"
    by (simp add: send_move_def)
  from side_move_close [OF this] waits_at_cases [of Space_Available out] show ?case
    by (simp add: threads_def send_side_def)
qed

sublocale fifo_storage_contract \<subseteq> slots: room_contract st inv elems cap "\<lambda>q. cap q - length (elems q)"
proof (unfold_locales, goal_cases)
  case (1 q e)
  then show ?case
    using get_inv [of q e] get_head [of q e] get_none_empty [of q e]
    by (auto simp: get_bound_def split: prod.split)
next
  case (2 q e a q' r)
  note keep = push_inv [OF 2]
  show ?case
  proof (cases r)
    case Pushed
    with push_appends [OF 2(1)] 2(2) have "length (elems q') = Suc (length (elems q))" by simp
    with keep bounded_elems [of q'] Pushed show ?thesis by auto
  next
    case Skipped
    with push_never_skips [OF 2(1)] 2(2) show ?thesis by blast
  next
    case (Full b)
    with push_full [OF 2(1)] 2(2) keep show ?thesis by simp
  qed
qed

section \<open>Settled states\<close>

text \<open>
  A run of clients that poll woken tasks only, without timeouts and spurious wake-ups; and a state
  where every woken thread has run on and every future whose waker was called was polled again
  or dropped.
\<close>

definition task_run :: "('e, 'a, 's) channel_storage \<Rightarrow> usize \<Rightarrow> bool \<Rightarrow>
    (nat, 'a async_op, 'a async_result) event list \<Rightarrow> ('a, 's) async_monitor \<Rightarrow> bool" where
  "task_run st capacity ordr evs m \<longleftrightarrow>
     (\<exists>h. make_channel_async st capacity ordr = Some h \<and>
        mon_run (async_code st) task_admits False (fresh_monitor h) evs m) \<and>
     \<not> list_ex is_Timed_Out evs"

definition settled :: "('a, 's) async_monitor \<Rightarrow> bool" where
  "settled m \<longleftrightarrow> ready m = [] \<and>
     (queued_sends (shared m) \<union> queued_recvs (shared m)) \<inter> set (woken_tasks (shared m)) = {}"

lemma task_run_async_run: "task_run st n b evs m \<Longrightarrow> async_run st n b False evs m"
  unfolding task_run_def async_run_def
  by (auto elim!: mon_run_mono simp: task_admits_def)

lemma settled_side:
  assumes "tasks_ok h" and "(queued_sends h \<union> queued_recvs h) \<inter> set (woken_tasks h) = {}"
  shows "recv_fut_pending (a_inner h) = {}" and "send_fut_pending (a_inner h) = {}"
    and "queued_recvs h = side_ids (recv_side h)" and "queued_sends h = side_ids (send_side h)"
  using assms by (auto simp: tasks_ok_def side_ok_def recv_side_def send_side_def)

lemma queue_not_empty:
  "threads s > 0 \<Longrightarrow> s_wakers s \<noteq> []" "cid \<in> side_ids s \<Longrightarrow> s_wakers s \<noteq> []"
  by (auto simp: threads_def side_ids_def)

lemma start_sides:
  "make_channel_async st n b = Some h \<Longrightarrow> tasks_ok h \<and> threads (recv_side h) = 0 \<and> threads (send_side h) = 0 \<and>
     recv_fut_wakers (a_inner h) = [] \<and> send_fut_wakers (a_inner h) = []"
  by (auto simp: make_channel_async_Some tasks_ok_def side_ok_def recv_side_def send_side_def threads_def
      queued_sends_def queued_recvs_def)

text \<open>Someone waits on a side: a sleeping thread, or a future that was polled without result.\<close>

definition receiver_waits :: "('a, 's) async_monitor \<Rightarrow> bool" where
  "receiver_waits m \<longleftrightarrow> sleeping Data_Available m > 0 \<or> queued_recvs (shared m) \<noteq> {}"

definition sender_waits :: "('a, 's) async_monitor \<Rightarrow> bool" where
  "sender_waits m \<longleftrightarrow> sleeping Space_Available m > 0 \<or> queued_sends (shared m) \<noteq> {}"

context storage_contract
begin

lemma task_run_good:
  assumes "task_run st n b evs m"
  obtains h where "make_channel_async st n b = Some h" and "good_state h" and "good_state (shared m)"
    and "mon_run (async_code st) task_admits False (fresh_monitor h) evs m" and "\<not> list_ex is_Timed_Out evs"
proof -
  from assms obtain h where h: "make_channel_async st n b = Some h"
    and run: "mon_run (async_code st) task_admits False (fresh_monitor h) evs m"
    and no: "\<not> list_ex is_Timed_Out evs"
    by (auto simp: task_run_def)
  from async_start [OF h] start_sides [OF h] have "good_state h" by (simp add: good_state_def)
  from that [OF h this recv_handoff.run_inv [OF run this] run no] show thesis .
qed

lemma receivers_settled:
  assumes "task_run st n b evs m" and "settled m" and "receiver_waits m"
  shows "elems (a_queue (a_inner (shared m))) = [] \<and> a_senders (a_inner (shared m)) > 0"
proof -
  from assms(1) obtain h where h: "make_channel_async st n b = Some h" "good_state h" "good_state (shared m)"
    and run: "mon_run (async_code st) task_admits False (fresh_monitor h) evs m"
    and no: "\<not> list_ex is_Timed_Out evs" by (rule task_run_good)
  from assms(2) have s: "ready m = []"
    "(queued_sends (shared m) \<union> queued_recvs (shared m)) \<inter> set (woken_tasks (shared m)) = {}"
    by (simp_all add: settled_def)
  from h(3) have t: "tasks_ok (shared m)" "async_wf (a_inner (shared m))"
    by (simp_all add: good_state_def async_inv_def)
  note side = settled_side [OF t(1) s(2)]
  from start_sides [OF h(1)]
  have start: "threads (recv_side h) = 0" "\<not> recv_fut_wakers (a_inner h) \<noteq> []" by simp_all
  note counts = recv_handoff.quiescent_handed [OF run h(2) start no s(1)]
  have "s_wakers (recv_side (shared m)) \<noteq> []"
    using assms(3) unfolding receiver_waits_def
  proof
    assume "sleeping Data_Available m > 0"
    with counts show ?thesis by (intro queue_not_empty(1)) simp
  next
    assume "queued_recvs (shared m) \<noteq> {}"
    with side(3) show ?thesis using queue_not_empty(2) [of _ "recv_side (shared m)"] by blast
  qed
  then have "recv_fut_wakers (a_inner (shared m)) \<noteq> []" by (simp add: recv_side_def)
  with counts side(1) t(2) show ?thesis by (auto simp: units_def async_wf_def)
qed

end

context room_contract
begin

lemma senders_settled:
  assumes "task_run st n b evs m" and "settled m" and "sender_waits m"
  shows "free (a_inner (shared m)) = 0 \<and> a_receivers (a_inner (shared m)) > 0"
proof -
  from assms(1) obtain h where h: "make_channel_async st n b = Some h" "good_state h" "good_state (shared m)"
    and run: "mon_run (async_code st) task_admits False (fresh_monitor h) evs m"
    and no: "\<not> list_ex is_Timed_Out evs" by (rule task_run_good)
  from assms(2) have s: "ready m = []"
    "(queued_sends (shared m) \<union> queued_recvs (shared m)) \<inter> set (woken_tasks (shared m)) = {}"
    by (simp_all add: settled_def)
  from h(3) have t: "tasks_ok (shared m)" "async_wf (a_inner (shared m))"
    by (simp_all add: good_state_def async_inv_def)
  note side = settled_side [OF t(1) s(2)]
  from start_sides [OF h(1)]
  have start: "threads (send_side h) = 0" "\<not> send_fut_wakers (a_inner h) \<noteq> []" by simp_all
  note counts = send_handoff.quiescent_handed [OF run h(2) start no s(1)]
  have "s_wakers (send_side (shared m)) \<noteq> []"
    using assms(3) unfolding sender_waits_def
  proof
    assume "sleeping Space_Available m > 0"
    with counts show ?thesis by (intro queue_not_empty(1)) simp
  next
    assume "queued_sends (shared m) \<noteq> {}"
    with side(4) show ?thesis using queue_not_empty(2) [of _ "send_side (shared m)"] by blast
  qed
  then have "send_fut_wakers (a_inner (shared m)) \<noteq> []" by (simp add: send_side_def)
  with counts side(2) t(2) show ?thesis by (auto simp: async_wf_def)
qed

end

text \<open>First in, first out, the free room is what the capacity leaves.\<close>

context fifo_storage_contract
begin

lemma full_for_senders:
  assumes "task_run st n b evs m" and "settled m" and "sender_waits m"
  shows "cap (a_queue (a_inner (shared m))) \<le> length (elems (a_queue (a_inner (shared m)))) \<and>
    a_receivers (a_inner (shared m)) > 0"
  using slots.senders_settled [OF assms] by (simp add: slots.free_def)

end

text \<open>The future numbers and flags of a state decide who is queued.\<close>

lemma queued_of_map:
  "queued_sends h = {i. map_of (map (\<lambda>(i, f). (i, sf_queued f)) (send_futs h)) i = Some True}"
  "queued_recvs h = {i. map_of (map (\<lambda>(i, f). (i, rf_queued f)) (recv_futs h)) i = Some True}"
  by (auto simp: queued_sends_def queued_recvs_def map_of_map)

end
