(* ===== verification/Channel_Async.thy ===== *)
theory Channel_Async
  imports Async_Liveness
begin

text \<open>
  The plain bounded asynchronous channel of \<open>src/src/channel_async.rs\<close>: the asynchronous base
  channel over a \<open>VecDeque\<close>. The runs are those of any number of tasks that poll futures and of
  threads that block, with every scheduling, every timeout, spurious polls and, where stated,
  spurious wake-ups of the condition variables.
\<close>

definition channel_async_bounded :: "allocator \<Rightarrow> usize \<Rightarrow> ('a, 'a vec_deque) async_shared option" where
  "channel_async_bounded al capacity = make_channel_async (vecdeque_storage al) capacity False"

definition channel_async_run :: "allocator \<Rightarrow> usize \<Rightarrow> bool \<Rightarrow>
    (nat, 'a async_op, 'a async_result) event list \<Rightarrow> ('a, 'a vec_deque) async_monitor \<Rightarrow> bool" where
  "channel_async_run al capacity spurious evs m \<longleftrightarrow>
     (\<exists>h. channel_async_bounded al capacity = Some h \<and>
        mon_run (async_code (vecdeque_storage al)) async_admits spurious (fresh_monitor h) evs m)"

definition async_contents :: "('a, 'a vec_deque) async_monitor \<Rightarrow> 'a list" where
  "async_contents m = vd_elems (a_queue (a_inner (shared m)))"

lemma channel_async_run_async_run:
  "channel_async_run al n = async_run (vecdeque_storage al) n False"
  by (simp add: fun_eq_iff channel_async_run_def async_run_def channel_async_bounded_def)

lemma channel_async_exec_run:
  "async_exec (vecdeque_storage al) n False cs = Some (evs, m) \<Longrightarrow> channel_async_run al n spurious evs m"
  by (simp add: channel_async_run_async_run async_exec_run)

text \<open>
  The concrete input below: a task sends 7 and then 8 over a channel for one value, and waits
  with the second future; another task receives; a thread receives twice, and blocks.
\<close>

definition async_sample :: "nat \<Rightarrow> ((nat, nat async_op, nat async_result) event list \<times>
    (nat, nat vec_deque) async_monitor) option" where
  "async_sample k = async_exec (vecdeque_storage exact_allocator) 1 False
     (take k [Call 0 () (A_Send 7), Call 0 () (Poll_Send 0 10), Call 0 () (A_Send 8),
        Call 0 () (Poll_Send 1 10), Call 1 () A_Recv, Call 1 () (Poll_Recv 2 11),
        Call 0 () (Poll_Send 1 10), Call 2 () Recv_Blocking, Call 2 () Recv_Blocking,
        Call 1 () A_Recv, Call 1 () (Poll_Recv 3 11)])"

definition async_shows :: "(nat, nat async_op, nat async_result) event list \<times>
    (nat, nat vec_deque) async_monitor \<Rightarrow>
    (nat list \<times> nat list \<times> nat list) \<times> waker list \<times>
    (waker \<times> client_id) option list \<times> (waker \<times> client_id) option list \<times> nat \<times> nat" where
  "async_shows = (\<lambda>(evs, m). ((a_sent (shared m), a_received (shared m), async_contents m),
     woken_tasks (shared m), send_fut_wakers (a_inner (shared m)), recv_fut_wakers (a_inner (shared m)),
     sleeping Data_Available m, length (ready m)))"

lemma async_sample_full:
  "map_option async_shows (async_sample 4) = Some (([7], [], [7]), [], [Some (10, 1)], [], 0, 0)"
  by code_simp

lemma async_sample_woken:
  "map_option async_shows (async_sample 6) = Some (([7], [7], []), [10], [], [], 0, 0)"
  by code_simp

lemma async_sample_end:
  "map_option async_shows (async_sample 11) =
   Some (([7, 8], [7, 8], []), [], [], [None, Some (11, 3)], 1, 0)"
  by code_simp

lemma async_sample_run: "async_sample k = Some (evs, m) \<Longrightarrow> channel_async_run exact_allocator 1 spurious evs m"
  unfolding async_sample_def by (rule channel_async_exec_run)

lemma async_sample:
  obtains evs m where "async_sample 11 = Some (evs, m)" and "a_sent (shared m) = [7, 8]"
    and "a_received (shared m) = [7, 8]" and "async_contents m = []"
    and "recv_fut_wakers (a_inner (shared m)) = [None, Some (11, 3)]"
    and "send_fut_wakers (a_inner (shared m)) = []"
    and "sleeping Data_Available m = 1" and "ready m = []"
proof -
  from async_sample_end that show thesis by (auto simp: map_option_eq_Some async_shows_def)
qed

section \<open>Delivery\<close>

text \<open>
  C20: the asynchronous channel is first in, first out and loses nothing, however futures, tries
  and blocking calls are mixed, and whenever futures are dropped: the values sent successfully
  are, in order, the values received so far followed by the values still stored.
\<close>

theorem async_fifo:
  assumes "allocator_ok al" and "channel_async_run al capacity spurious evs m"
  shows "a_sent (shared m) = a_received (shared m) @ async_contents m"
  unfolding async_contents_def
  by (rule fifo_storage_contract.async_run_fifo [OF vecdeque_is_fifo [OF assms(1)]
      assms(2) [unfolded channel_async_run_async_run]])

theorem async_fifo_witness:
  "\<exists>evs m. async_sample 11 = Some (evs, m) \<and> a_received (shared m) = [7, 8] \<and>
     a_sent (shared m) = a_received (shared m) @ async_contents m"
proof -
  obtain evs m where m: "async_sample 11 = Some (evs, m)" "a_received (shared m) = [7, 8]"
    by (rule async_sample)
  from async_fifo [OF _ async_sample_run [OF m(1)]] have
    "a_sent (shared m) = a_received (shared m) @ async_contents m" by simp
  with m show ?thesis by (intro exI [of _ evs] exI [of _ m]) simp
qed

text \<open>
  No run panics, although a poll unwraps the value its future holds; the handle counters are
  exact; the channel never holds more than its buffer; and each waker queue agrees with its set
  of ids: no future waits twice, and the set is exactly the ids in the queue.
\<close>

theorem async_safe:
  fixes m :: "('a, 'a vec_deque) async_monitor"
  assumes "allocator_ok al" and "channel_async_run al capacity spurious evs m"
  shows "\<not> list_ex is_Panicked evs \<and>
    a_senders (a_inner (shared m)) = a_tx_live (shared m) \<and>
    a_receivers (a_inner (shared m)) = a_rx_live (shared m) \<and>
    length (async_contents m) \<le> al_with_capacity al capacity \<and>
    wakers_ok (send_fut_wakers (a_inner (shared m))) (send_fut_waker_ids (a_inner (shared m))) \<and>
    wakers_ok (recv_fut_wakers (a_inner (shared m))) (recv_fut_waker_ids (a_inner (shared m)))"
proof -
  note run = assms(2) [unfolded channel_async_run_async_run]
  note st = fifo_storage_contract.axioms(1) [OF vecdeque_is_fifo [OF assms(1)]]
  obtain q where q: "cs_with_capacity_and_ordering (vecdeque_storage al) capacity False =
      Some (q :: 'a vec_deque)"
    and cap: "vd_cap (a_queue (a_inner (shared m))) = vd_cap q"
    using storage_contract.async_run_trace(2) [OF st run] by blast
  from q have "q = vd_with_capacity al capacity" by simp
  with cap have "vd_cap (a_queue (a_inner (shared m))) = al_with_capacity al capacity"
    by (simp add: vd_with_capacity_def)
  with storage_contract.async_run_trace(3) [OF st run]
  have "length (async_contents m) \<le> al_with_capacity al capacity" by (simp add: async_contents_def)
  with storage_contract.async_run_inv [OF st run] storage_contract.async_run_no_panic [OF st run]
  show ?thesis unfolding async_inv_def async_wf_def by blast
qed

theorem async_safe_witness:
  "\<exists>evs m. async_sample 11 = Some (evs, m) \<and>
     recv_fut_wakers (a_inner (shared m)) = [None, Some (11, 3)] \<and> \<not> list_ex is_Panicked evs \<and>
     a_senders (a_inner (shared m)) = a_tx_live (shared m) \<and>
     wakers_ok (recv_fut_wakers (a_inner (shared m))) (recv_fut_waker_ids (a_inner (shared m)))"
proof -
  obtain evs m where m: "async_sample 11 = Some (evs, m)"
    "recv_fut_wakers (a_inner (shared m)) = [None, Some (11, 3)]"
    by (rule async_sample)
  from async_safe [OF _ async_sample_run [OF m(1)]] m show ?thesis
    by (intro exI [of _ evs] exI [of _ m]) simp
qed

section \<open>Wake-ups\<close>

text \<open>
  Runs of clients that poll woken tasks only, without timeouts; the sample run is one.
\<close>

definition channel_task_run :: "allocator \<Rightarrow> usize \<Rightarrow>
    (nat, 'a async_op, 'a async_result) event list \<Rightarrow> ('a, 'a vec_deque) async_monitor \<Rightarrow> bool" where
  "channel_task_run al capacity evs m \<longleftrightarrow>
     (\<exists>h. channel_async_bounded al capacity = Some h \<and>
        mon_run (async_code (vecdeque_storage al)) task_admits False (fresh_monitor h) evs m) \<and>
     \<not> list_ex is_Timed_Out evs"

lemma channel_task_run_task_run: "channel_task_run al n = task_run (vecdeque_storage al) n False"
  by (simp add: fun_eq_iff channel_task_run_def task_run_def channel_async_bounded_def)

definition task_exec :: "nat \<Rightarrow> (nat, unit, nat async_op) choice list \<Rightarrow>
    ((nat, nat async_op, nat async_result) event list \<times> (nat, nat vec_deque) async_monitor) option" where
  "task_exec n cs =
     Option.bind (channel_async_bounded exact_allocator n) (\<lambda>h.
       exec (async_code (vecdeque_storage exact_allocator)) task_admits (fresh_monitor h) cs)"

lemma task_exec_run:
  "task_exec n cs = Some (evs, m) \<Longrightarrow> \<not> list_ex is_Timed_Out evs \<Longrightarrow> channel_task_run exact_allocator n evs m"
  by (auto simp: task_exec_def channel_task_run_def bind_eq_Some_conv intro: exec_run)

text \<open>
  Three tasks, 0 and 1 send and 2 to 4 receive, over a channel for one value; at the end a thread
  sleeps and future 4 waits.
\<close>

definition task_sample :: "nat \<Rightarrow> ((nat, nat async_op, nat async_result) event list \<times>
    (nat, nat vec_deque) async_monitor) option" where
  "task_sample k = task_exec 1
     (take k [Call 0 () (A_Send 7), Call 0 () (Poll_Send 0 0), Call 1 () (A_Send 8),
        Call 1 () (Poll_Send 1 1), Call 2 () A_Recv, Call 2 () (Poll_Recv 2 2),
        Call 1 () (Poll_Send 1 1), Call 3 () A_Recv, Call 3 () (Poll_Recv 3 3),
        Call 5 () Recv_Blocking, Call 4 () A_Recv, Call 4 () (Poll_Recv 4 4)])"

definition task_shows :: "(nat, nat async_op, nat async_result) event list \<times>
    (nat, nat vec_deque) async_monitor \<Rightarrow>
    (nat list \<times> nat) \<times> nat list \<times> (nat \<times> bool) list \<times> (nat \<times> bool) list \<times>
    (nat \<times> nat) \<times> nat \<times> bool" where
  "task_shows = (\<lambda>(evs, m). ((async_contents m, vd_cap (a_queue (a_inner (shared m)))), woken_tasks (shared m),
     map (\<lambda>(i, f). (i, sf_queued f)) (send_futs (shared m)),
     map (\<lambda>(i, f). (i, rf_queued f)) (recv_futs (shared m)),
     (sleeping Data_Available m, sleeping Space_Available m), length (ready m), list_ex is_Timed_Out evs))"

lemma task_sample_full:
  "map_option task_shows (task_sample 4) = Some (([7], 1), [], [(1, True)], [], (0, 0), 0, False)"
  by code_simp

lemma task_sample_end:
  "map_option task_shows (task_sample 12) = Some (([], 1), [], [], [(4, True)], (1, 0), 0, False)"
  by code_simp

lemma task_sample_run:
  "task_sample k = Some (evs, m) \<Longrightarrow> \<not> list_ex is_Timed_Out evs \<Longrightarrow> channel_task_run exact_allocator 1 evs m"
  unfolding task_sample_def by (rule task_exec_run)

lemma task_shows_settled:
  assumes "task_shows (evs, m) = (c, [], ss, rs, (n, k), 0, b)"
  shows "settled m" and "receiver_waits m \<longleftrightarrow> n > 0 \<or> {i. map_of rs i = Some True} \<noteq> {}"
    and "sender_waits m \<longleftrightarrow> k > 0 \<or> {i. map_of ss i = Some True} \<noteq> {}"
    and "list_ex is_Timed_Out evs = b" and "async_contents m = fst c"
    and "vd_cap (a_queue (a_inner (shared m))) = snd c"
  using assms by (auto simp: task_shows_def settled_def receiver_waits_def sender_waits_def queued_of_map)

text \<open>
  C24: no receiver of the asynchronous channel misses its wake-up, future or thread: in a run
  where tasks poll woken futures only and no wait times out, once every woken future was polled
  again or dropped and every woken thread has run on, a receiver waits only on a channel that is
  empty and has a sender.
\<close>

theorem async_receivers_woken:
  fixes m :: "('a, 'a vec_deque) async_monitor"
  assumes "allocator_ok al" and "channel_task_run al capacity evs m"
    and "settled m" and "receiver_waits m"
  shows "async_contents m = [] \<and> a_senders (a_inner (shared m)) > 0"
  unfolding async_contents_def
  by (rule storage_contract.receivers_settled [OF fifo_storage_contract.axioms(1) [OF vecdeque_is_fifo [OF assms(1)]]
      assms(2) [unfolded channel_task_run_task_run] assms(3,4)])

theorem async_receivers_woken_witness:
  "\<exists>evs m. task_sample 12 = Some (evs, m) \<and> settled m \<and> receiver_waits m \<and>
     async_contents m = [] \<and> a_senders (a_inner (shared m)) > 0"
proof -
  obtain evs m where m: "task_sample 12 = Some (evs, m)"
    and s: "task_shows (evs, m) = (([], 1), [], [], [(4, True)], (1, 0), 0, False)"
    using task_sample_end by (auto simp: map_option_eq_Some)
  have "settled m" "receiver_waits m" "\<not> list_ex is_Timed_Out evs"
    using task_shows_settled [OF s] by simp_all
  with async_receivers_woken [OF _ task_sample_run [OF m]] m show ?thesis by auto
qed

text \<open>
  C25: no sender of the asynchronous channel misses its wake-up: in such a run a sender, future
  or thread, waits in the end only if the buffer is full and the channel has a receiver.
\<close>

theorem async_senders_woken:
  fixes m :: "('a, 'a vec_deque) async_monitor"
  assumes "allocator_ok al" and "channel_task_run al capacity evs m"
    and "settled m" and "sender_waits m"
  shows "length (async_contents m) = vd_cap (a_queue (a_inner (shared m))) \<and>
    a_receivers (a_inner (shared m)) > 0"
proof -
  note fifo = vecdeque_is_fifo [OF assms(1)]
  note st = fifo_storage_contract.axioms(1) [OF fifo]
  note run = assms(2) [unfolded channel_task_run_task_run]
  from storage_contract.async_run_trace(3) [OF st task_run_async_run [OF run]]
    fifo_storage_contract.full_for_senders [OF fifo run assms(3,4)]
  show ?thesis by (simp add: async_contents_def)
qed

theorem async_senders_woken_witness:
  "\<exists>evs m. task_sample 4 = Some (evs, m) \<and> settled m \<and> sender_waits m \<and>
     length (async_contents m) = vd_cap (a_queue (a_inner (shared m))) \<and>
     a_receivers (a_inner (shared m)) > 0"
proof -
  obtain evs m where m: "task_sample 4 = Some (evs, m)"
    and s: "task_shows (evs, m) = (([7], 1), [], [(1, True)], [], (0, 0), 0, False)"
    using task_sample_full by (auto simp: map_option_eq_Some)
  have "settled m" "sender_waits m" "\<not> list_ex is_Timed_Out evs"
    using task_shows_settled [OF s] by simp_all
  with async_senders_woken [OF _ task_sample_run [OF m]] m show ?thesis by auto
qed

section \<open>Closing\<close>

definition close_sample :: "bool \<Rightarrow> ((nat, nat async_op, nat async_result) event list \<times>
    (nat, nat vec_deque) async_monitor) option" where
  "close_sample senders_go = async_exec (vecdeque_storage exact_allocator) 1 False
     (if senders_go then
        [Call 0 () Recv_Blocking, Call 1 () A_Recv, Call 1 () (Poll_Recv 0 11), Call 2 () A_Drop_Sender]
      else
        [Call 0 () (A_Try_Send 7), Call 0 () (Send_Blocking 8), Call 1 () (A_Send 9),
         Call 1 () (Poll_Send 0 11), Call 2 () A_Drop_Receiver])"

lemma close_sample_result:
  "map_option (\<lambda>(evs, m). (async_contents m, a_senders (a_inner (shared m)), a_receivers (a_inner (shared m)),
      woken_tasks (shared m), ready m)) (close_sample True) = Some ([], 0, 1, [11], [(0, Recv_Blocking)])"
  "map_option (\<lambda>(evs, m). (async_contents m, a_senders (a_inner (shared m)), a_receivers (a_inner (shared m)),
      woken_tasks (shared m), ready m)) (close_sample False) = Some ([7], 1, 0, [11], [(0, Send_Blocking 8)])"
  by code_simp+

lemma close_sample_run:
  "close_sample b = Some (evs, m) \<Longrightarrow> channel_async_run exact_allocator 1 spurious evs m"
  unfolding close_sample_def by (rule channel_async_exec_run)

text \<open>
  C26: when the last handle of a side is dropped nobody is left waiting on the other side: no
  thread sleeps and no waker is queued there, neither then nor at any later time.
\<close>

theorem async_close_wakes:
  fixes m :: "('a, 'a vec_deque) async_monitor"
  assumes "allocator_ok al" and "channel_async_run al capacity spurious evs m"
  shows "(a_senders (a_inner (shared m)) = 0 \<longrightarrow>
      sleeping Data_Available m = 0 \<and> recv_fut_wakers (a_inner (shared m)) = []) \<and>
    (a_receivers (a_inner (shared m)) = 0 \<longrightarrow>
      sleeping Space_Available m = 0 \<and> send_fut_wakers (a_inner (shared m)) = [])"
proof -
  note run = assms(2) [unfolded channel_async_run_async_run]
  note st = fifo_storage_contract.axioms(1) [OF vecdeque_is_fifo [OF assms(1)]]
  from storage_contract.async_run_inv [OF st run] have "async_wf (a_inner (shared m))"
    by (simp add: async_inv_def)
  with storage_contract.async_run_closed [OF st run] show ?thesis by (auto simp: async_wf_def)
qed

theorem async_close_wakes_witness:
  "\<exists>evs m evs' m'. close_sample True = Some (evs, m) \<and> ready m = [(0, Recv_Blocking)] \<and>
     sleeping Data_Available m = 0 \<and> recv_fut_wakers (a_inner (shared m)) = [] \<and>
     close_sample False = Some (evs', m') \<and> ready m' = [(0, Send_Blocking 8)] \<and>
     sleeping Space_Available m' = 0 \<and> send_fut_wakers (a_inner (shared m')) = []"
proof -
  obtain evs m where m: "close_sample True = Some (evs, m)" "ready m = [(0, Recv_Blocking)]"
    "a_senders (a_inner (shared m)) = 0"
    using close_sample_result(1) by (auto simp: map_option_eq_Some)
  obtain evs' m' where m': "close_sample False = Some (evs', m')" "ready m' = [(0, Send_Blocking 8)]"
    "a_receivers (a_inner (shared m')) = 0"
    using close_sample_result(2) by (auto simp: map_option_eq_Some)
  from async_close_wakes [OF _ close_sample_run [OF m(1)]] m
    async_close_wakes [OF _ close_sample_run [OF m'(1)]] m'
  show ?thesis by auto
qed

section \<open>Where a wake-up is lost\<close>

text \<open>
  The two assumptions on the clients above are needed. First, a blocking receive that times out
  leaves its \<open>None\<close> in the waker queue, and the next value notifies a condition variable where
  nobody sleeps any more, although a future waits behind it. Second, a future that is polled
  without having been woken may take a value while its waker is still queued, and a later value
  wakes the task of this future, which is done.
\<close>

definition stale_timeout_sample :: "((nat, nat async_op, nat async_result) event list \<times>
    (nat, nat vec_deque) async_monitor) option" where
  "stale_timeout_sample = async_exec (vecdeque_storage exact_allocator) 2 False
     [Call 0 () Recv_Blocking_Timeout, Time_Out 0, Call 1 () A_Recv, Call 1 () (Poll_Recv 0 0),
      Call 2 () (A_Try_Send 7)]"

definition stale_poll_sample :: "((nat, nat async_op, nat async_result) event list \<times>
    (nat, nat vec_deque) async_monitor) option" where
  "stale_poll_sample = async_exec (vecdeque_storage exact_allocator) 2 False
     [Call 0 () A_Recv, Call 0 () (Poll_Recv 0 0), Call 1 () A_Recv, Call 1 () (Poll_Recv 1 1),
      Call 2 () (A_Try_Send 7), Call 1 () (Poll_Recv 1 1), Call 0 () (Poll_Recv 0 0),
      Call 2 () (A_Try_Send 8)]"

definition stale_shows :: "(nat, nat async_op, nat async_result) event list \<times>
    (nat, nat vec_deque) async_monitor \<Rightarrow> nat list \<times> (client_id \<times> bool) list \<times>
    (client_id \<times> bool) list \<times> waker list \<times> nat \<times> nat \<times> bool" where
  "stale_shows = (\<lambda>(evs, m). (async_contents m, map (\<lambda>(i, f). (i, rf_queued f)) (recv_futs (shared m)),
     map (\<lambda>(i, f). (i, sf_queued f)) (send_futs (shared m)),
     woken_tasks (shared m), length (ready m), length (asleep m), list_ex is_Timed_Out evs))"

lemma stale_samples:
  "map_option stale_shows stale_timeout_sample = Some ([7], [(0, True)], [], [], 0, 0, True)"
  "map_option stale_shows stale_poll_sample = Some ([8], [(0, True)], [], [1], 0, 0, False)"
  by code_simp+

lemma stale_shows_stuck:
  assumes "map_option stale_shows s = Some ([a], [(0, True)], [], ws, 0, 0, b)" and "0 \<notin> set ws"
  obtains evs m where "s = Some (evs, m)" and "settled m" and "async_contents m = [a]"
    and "queued_recvs (shared m) = {0}" and "asleep m = []" and "list_ex is_Timed_Out evs = b"
proof -
  from assms(1) obtain evs m where m: "s = Some (evs, m)"
    "stale_shows (evs, m) = ([a], [(0, True)], [], ws, 0, 0, b)"
    by (auto simp: map_option_eq_Some)
  then have q: "queued_recvs (shared m) = {0}" "queued_sends (shared m) = {}"
    by (auto simp: queued_of_map stale_shows_def)
  with m(2) assms(2) have "settled m" by (simp add: settled_def stale_shows_def)
  with that m q show thesis by (simp add: stale_shows_def)
qed


end
