(* ===== verification/Policy_Channel_Async.thy ===== *)
theory Policy_Channel_Async
  imports Async_Liveness Policy_Channel
begin

text \<open>
  The asynchronous policy channels of \<open>src/src/policy_channel_async.rs\<close>: the asynchronous base
  channel over the policy deque, unordered or ordered by priority. As for the synchronous policy
  channels the answers of the value type's \<open>DataDeliveryPolicy\<close> are the environment of each stretch.
\<close>

definition policy_async_bounded :: "allocator \<Rightarrow> usize \<Rightarrow> ('a, 'a deque) async_shared option" where
  "policy_async_bounded al capacity = make_channel_async (deque_storage al) capacity False"

definition policy_async_ordered :: "allocator \<Rightarrow> usize \<Rightarrow> ('a, 'a deque) async_shared option" where
  "policy_async_ordered al capacity = make_channel_async (deque_storage al) capacity True"

definition policy_async_new :: "allocator \<Rightarrow> usize \<Rightarrow> bool \<Rightarrow> ('a, 'a deque) async_shared option" where
  "policy_async_new al capacity ordr =
     (if ordr then policy_async_ordered al capacity else policy_async_bounded al capacity)"

text \<open>
  All runs, those of tasks that poll woken futures only and see no timeout, and what is stored.
\<close>

definition policy_async_run :: "allocator \<Rightarrow> usize \<Rightarrow> bool \<Rightarrow> bool \<Rightarrow>
    (nat, 'a async_op, 'a async_result) event list \<Rightarrow> ('a, 'a deque) async_monitor \<Rightarrow> bool" where
  "policy_async_run al capacity ordr spurious evs m \<longleftrightarrow>
     (\<exists>h. policy_async_new al capacity ordr = Some h \<and>
        mon_run (async_code (deque_storage al)) async_admits spurious (fresh_monitor h) evs m)"

definition policy_task_run :: "allocator \<Rightarrow> usize \<Rightarrow> bool \<Rightarrow>
    (nat, 'a async_op, 'a async_result) event list \<Rightarrow> ('a, 'a deque) async_monitor \<Rightarrow> bool" where
  "policy_task_run al capacity ordr evs m \<longleftrightarrow>
     (\<exists>h. policy_async_new al capacity ordr = Some h \<and>
        mon_run (async_code (deque_storage al)) task_admits False (fresh_monitor h) evs m) \<and>
     \<not> list_ex is_Timed_Out evs"

definition policy_async_contents :: "('a, 'a deque) async_monitor \<Rightarrow> 'a list" where
  "policy_async_contents m = dq_elems (a_queue (a_inner (shared m)))"

lemma policy_async_new_make: "policy_async_new al n b = make_channel_async (deque_storage al) n b"
  by (simp add: policy_async_new_def policy_async_ordered_def policy_async_bounded_def)

lemma policy_async_runs:
  "policy_async_run al n b = async_run (deque_storage al) n b"
  "policy_task_run al n b = task_run (deque_storage al) n b"
  by (simp_all add: fun_eq_iff policy_async_run_def policy_task_run_def async_run_def task_run_def
      policy_async_new_make)

text \<open>
  The sample: an ordered channel for two values; values of lower digit leave first, the optional
  11 is displaced by 24; future 2 waits in the end.
\<close>

definition policy_async_exec :: "nat \<Rightarrow> bool \<Rightarrow> (nat, nat data_delivery, nat async_op) choice list \<Rightarrow>
    ((nat, nat async_op, nat async_result) event list \<times> (nat, nat deque) async_monitor) option" where
  "policy_async_exec n ordr cs =
     Option.bind (policy_async_new exact_allocator n ordr) (\<lambda>h.
       exec (async_code (deque_storage exact_allocator)) task_admits (fresh_monitor h) cs)"

lemma policy_async_exec_run:
  "policy_async_exec n b cs = Some (evs, m) \<Longrightarrow> \<not> list_ex is_Timed_Out evs \<Longrightarrow>
   policy_task_run exact_allocator n b evs m"
  by (auto simp: policy_async_exec_def policy_task_run_def bind_eq_Some_conv intro: exec_run)

lemma policy_task_run_run: "policy_task_run al n b evs m \<Longrightarrow> policy_async_run al n b False evs m"
  unfolding policy_async_runs by (rule task_run_async_run)

definition policy_async_sample :: "((nat, nat async_op, nat async_result) event list \<times>
    (nat, nat deque) async_monitor) option" where
  "policy_async_sample = policy_async_exec 2 True
     [Call 0 (digits []) (A_Send 12), Call 0 (digits []) (Poll_Send 0 0),
      Call 0 (digits []) (A_Try_Send 11), Call 1 (digits []) (A_Send 24),
      Call 1 (digits []) (Poll_Send 1 1), Call 2 (digits []) A_Try_Recv,
      Call 2 (digits []) Recv_Blocking, Call 3 (digits []) A_Recv, Call 3 (digits []) (Poll_Recv 2 2)]"

definition policy_async_shows :: "(nat, nat async_op, nat async_result) event list \<times>
    (nat, nat deque) async_monitor \<Rightarrow> (nat list \<times> nat list \<times> nat list) \<times> waker list \<times>
    (nat \<times> bool) list \<times> (nat \<times> bool) list \<times> (nat, async_cv, nat async_op, nat async_result) waiter list \<times>
    nat \<times> bool" where
  "policy_async_shows = (\<lambda>(evs, m). ((a_sent (shared m), a_received (shared m), policy_async_contents m),
     woken_tasks (shared m), map (\<lambda>(i, f). (i, sf_queued f)) (send_futs (shared m)),
     map (\<lambda>(i, f). (i, rf_queued f)) (recv_futs (shared m)), asleep m, length (ready m),
     list_ex is_Timed_Out evs))"

lemma policy_async_sample_result:
  "map_option policy_async_shows policy_async_sample =
   Some (([12, 11, 24], [12, 24], []), [], [], [(2, True)], [], 0, False)"
  by code_simp

lemma policy_async_sample:
  obtains evs m where "policy_async_sample = Some (evs, m)"
    and "policy_task_run exact_allocator 2 True evs m"
    and "a_sent (shared m) = [12, 11, 24]" and "a_received (shared m) = [12, 24]"
    and "settled m" and "receiver_waits m"
proof -
  from policy_async_sample_result obtain evs m where m: "policy_async_sample = Some (evs, m)"
    and s: "policy_async_shows (evs, m) = (([12, 11, 24], [12, 24], []), [], [], [(2, True)], [], 0, False)"
    by (auto simp: map_option_eq_Some)
  from s have "\<not> list_ex is_Timed_Out evs" by (simp add: policy_async_shows_def)
  with m have "policy_task_run exact_allocator 2 True evs m"
    unfolding policy_async_sample_def by (rule policy_async_exec_run)
  moreover from s have "settled m" "receiver_waits m"
    by (auto simp: policy_async_shows_def settled_def receiver_waits_def queued_of_map)
  ultimately show thesis using that m s by (simp add: policy_async_shows_def)
qed

section \<open>Delivery\<close>

text \<open>
  An asynchronous policy channel delivers each sent value at most once and makes none up,
  and no run of it panics or stores more values than its capacity, with exact handle counters.
\<close>

theorem policy_async_safe:
  fixes m :: "('a, 'a deque) async_monitor"
  assumes "allocator_ok al" and "policy_async_run al capacity ordr spurious evs m"
  shows "mset (a_received (shared m)) + mset (policy_async_contents m) \<subseteq># mset (a_sent (shared m)) \<and>
    \<not> list_ex is_Panicked evs \<and> length (policy_async_contents m) \<le> capacity \<and>
    a_senders (a_inner (shared m)) = a_tx_live (shared m) \<and>
    a_receivers (a_inner (shared m)) = a_rx_live (shared m)"
proof -
  note run = assms(2) [unfolded policy_async_runs]
  note st = deque_is_storage [OF assms(1)]
  note trace = storage_contract.async_run_trace [OF st run]
  from trace(2) have "dq_capacity (a_queue (a_inner (shared m))) = capacity"
    by (auto simp: set_ordering_def bounded_def)
  with trace(1,3) storage_contract.async_run_inv [OF st run] storage_contract.async_run_no_panic [OF st run]
  show ?thesis by (simp add: policy_async_contents_def async_inv_def)
qed

theorem policy_async_safe_witness:
  "\<exists>evs m. policy_async_sample = Some (evs, m) \<and> a_sent (shared m) = [12, 11, 24] \<and>
     a_received (shared m) = [12, 24] \<and>
     mset (a_received (shared m)) + mset (policy_async_contents m) \<subseteq># mset (a_sent (shared m)) \<and>
     \<not> list_ex is_Panicked evs \<and> length (policy_async_contents m) \<le> 2"
proof -
  obtain evs m where m: "policy_async_sample = Some (evs, m)" "policy_task_run exact_allocator 2 True evs m"
    "a_sent (shared m) = [12, 11, 24]" "a_received (shared m) = [12, 24]"
    by (rule policy_async_sample)
  from policy_async_safe [OF _ policy_task_run_run [OF m(2)]] m show ?thesis
    by (intro exI [of _ evs] exI [of _ m]) simp
qed

section \<open>Wake-ups\<close>

text \<open>
  No receiver of an asynchronous policy channel misses its wake-up, as long as tasks poll
  woken futures only and no wait times out: in a settled state a receiver waits only on a channel
  that is empty and has a sender. The values may expire at any time.
\<close>

theorem policy_async_receivers_woken:
  fixes m :: "('a, 'a deque) async_monitor"
  assumes "allocator_ok al" and "policy_task_run al capacity ordr evs m"
    and "settled m" and "receiver_waits m"
  shows "policy_async_contents m = [] \<and> a_senders (a_inner (shared m)) > 0"
  unfolding policy_async_contents_def
  by (rule storage_contract.receivers_settled [OF deque_is_storage [OF assms(1)]
      assms(2) [unfolded policy_async_runs] assms(3,4)])

theorem policy_async_receivers_woken_witness:
  "\<exists>evs m. policy_async_sample = Some (evs, m) \<and> settled m \<and> receiver_waits m \<and>
     policy_async_contents m = [] \<and> a_senders (a_inner (shared m)) > 0"
proof -
  obtain evs m where m: "policy_async_sample = Some (evs, m)" "policy_task_run exact_allocator 2 True evs m"
    "settled m" "receiver_waits m"
    by (rule policy_async_sample)
  from policy_async_receivers_woken [OF _ m(2-4)] m show ?thesis by auto
qed

text \<open>Senders can be left behind, as with the synchronous policy channel.\<close>

definition policy_async_expired :: "((nat, nat async_op, nat async_result) event list \<times>
    (nat, nat deque) async_monitor) option" where
  "policy_async_expired = policy_async_exec 1 False
     [Call 0 (digits []) (A_Try_Send 12), Call 1 (digits []) (A_Send 24),
      Call 1 (digits []) (Poll_Send 0 0), Call 2 (digits []) A_Recv, Call 2 (digits [12]) (Poll_Recv 1 1)]"

lemma policy_async_expired_result:
  "map_option policy_async_shows policy_async_expired =
   Some (([12], [], []), [], [(0, True)], [(1, True)], [], 0, False)"
  by code_simp

text \<open>
  Asynchronous tasks can deadlock on a policy channel, with orderly clients and no timeout: a
  future waits for room, the stored value expires, and a receiving future drops it and waits for
  data, without waking the sender.
\<close>

theorem policy_async_deadlock:
  "\<exists>evs (m :: (nat, nat deque) async_monitor).
     policy_task_run exact_allocator 1 False evs m \<and> settled m \<and> sender_waits m \<and> receiver_waits m \<and>
     policy_async_contents m = []"
proof -
  from policy_async_expired_result obtain evs m where m: "policy_async_expired = Some (evs, m)"
    and s: "policy_async_shows (evs, m) = (([12], [], []), [], [(0, True)], [(1, True)], [], 0, False)"
    by (auto simp: map_option_eq_Some)
  from s have no: "\<not> list_ex is_Timed_Out evs" by (simp add: policy_async_shows_def)
  have "policy_task_run exact_allocator 1 False evs m"
    using m no unfolding policy_async_expired_def by (rule policy_async_exec_run)
  moreover from s have "settled m" "sender_waits m" "receiver_waits m" "policy_async_contents m = []"
    by (auto simp: policy_async_shows_def settled_def receiver_waits_def sender_waits_def queued_of_map)
  ultimately show ?thesis by blast
qed

end
