(* ===== verification/Derive_Policy.thy ===== *)
theory Derive_Policy
  imports Data_Policy
begin

text \<open>
  The macro \<open>#[derive(DataPolicy)]\<close> of \<open>src/rtsc-derive/src/lib.rs\<close>: a function from the syntax
  tree of an enum, as the parser of the \<open>syn\<close> crate gives it, to the \<open>impl\<close> it expands to, or a
  panic at compile time. The expansion has a scope check, what the compiler does with it, and a
  meaning on the values of the enum.
\<close>

section \<open>Syntax trees\<close>

type_synonym ident = string
type_synonym path = "ident list"

datatype lit = Lit_Str string | Lit_Int nat | Lit_Other string

datatype meta = Meta_Path path | Meta_List path "nested_meta list" | Meta_Name_Value path lit
  and nested_meta = N_Meta meta | N_Lit lit

fun meta_path :: "meta \<Rightarrow> path" where
  "meta_path (Meta_Path p) = p"
| "meta_path (Meta_List p ns) = p"
| "meta_path (Meta_Name_Value p l) = p"

fun get_ident :: "path \<Rightarrow> ident option" where
  "get_ident [i] = Some i"
| "get_ident _ = None"

definition is_ident :: "path \<Rightarrow> ident \<Rightarrow> bool" where
  "is_ident p i \<longleftrightarrow> get_ident p = Some i"

text \<open>An attribute with the result of \<open>parse_meta\<close>, nothing if its tokens are no meta item.\<close>

record attribute =
  at_path :: path
  parse_meta :: "meta option"

datatype fields = Unnamed nat | Named "ident list" | Unit_Fields

record variant =
  v_ident :: ident
  v_attrs :: "attribute list"
  v_fields :: fields

datatype derive_data = Data_Enum "variant list" | Data_Struct | Data_Union

record derive_input =
  di_ident :: ident
  di_data :: derive_data

section \<open>What the macro generates\<close>

text \<open>The patterns \<open>V(..)\<close>, \<open>V{..}\<close>, \<open>V\<close>, \<open>V(value, ..)\<close> and \<open>V{value, ..}\<close>.\<close>

datatype pattern = Pat_Tuple ident | Pat_Struct ident | Pat_Unit ident
  | Pat_Tuple_Value ident | Pat_Struct_Value ident

datatype expires_expr = Never | Call_Value meta

datatype 'e fn_body = Constant 'e | Match "(pattern \<times> 'e) list"

record derived_impl =
  fn_delivery_policy :: "delivery_policy fn_body"
  fn_priority :: "lit fn_body"
  fn_is_expired :: "expires_expr fn_body"

section \<open>The macro\<close>

datatype derive_panic =
    Unknown_Policy string | Policy_Not_Specified | Delivery_Not_String | Delivery_Not_List
  | Expires_Not_Function | Expires_Not_List | Priority_Not_Integer | Priority_Not_List
  | Meta_Not_Parsed | Unknown_Attribute path | Not_An_Enum

fun parse_delivery_policy :: "string option \<Rightarrow> derive_panic + delivery_policy" where
  "parse_delivery_policy (Some s) =
     (if s = ''single'' then Inr Single
      else if s = ''single_optional'' then Inr SingleOptional
      else if s = ''optional'' then Inr Optional
      else if s = ''always'' then Inr Always
      else if s = ''latest'' then Inr Latest
      else Inl (Unknown_Policy s))"
| "parse_delivery_policy None = Inl Policy_Not_Specified"

text \<open>A \<open>for\<close> loop whose body may panic.\<close>

fun fold_try :: "('a \<Rightarrow> 's \<Rightarrow> 'p + 's) \<Rightarrow> 'a list \<Rightarrow> 's \<Rightarrow> 'p + 's" where
  "fold_try f [] s = Inr s"
| "fold_try f (x # xs) s = (case f x s of Inl p \<Rightarrow> Inl p | Inr s' \<Rightarrow> fold_try f xs s')"

text \<open>The three values of a variant, and the three flags of the enum.\<close>

record variant_values =
  delivery_policy_value :: delivery_policy
  priority_value :: lit
  expires_value :: expires_expr

definition default_values :: variant_values where
  "default_values = \<lparr> delivery_policy_value = Always, priority_value = Lit_Int 100, expires_value = Never \<rparr>"

record impl_flags =
  default_policy_impl :: bool
  default_priority_impl :: bool
  default_expires_impl :: bool

fun delivery_item :: "nested_meta \<Rightarrow> derive_panic + delivery_policy" where
  "delivery_item (N_Meta m) = parse_delivery_policy (map_option to_lowercase (get_ident (meta_path m)))"
| "delivery_item (N_Lit (Lit_Str s)) = parse_delivery_policy (Some (to_lowercase s))"
| "delivery_item (N_Lit _) = Inl Delivery_Not_String"

fun expires_item :: "nested_meta \<Rightarrow> derive_panic + expires_expr" where
  "expires_item (N_Meta m) = Inr (Call_Value m)"
| "expires_item (N_Lit l) = Inl Expires_Not_Function"

fun priority_item :: "nested_meta \<Rightarrow> derive_panic + lit" where
  "priority_item (N_Lit l) = Inr l"
| "priority_item (N_Meta m) = Inl Priority_Not_Integer"

text \<open>The value of an attribute: the last item of its list, if any.\<close>

definition last_item :: "(nested_meta \<Rightarrow> derive_panic + 'e) \<Rightarrow> nested_meta list \<Rightarrow> 'e \<Rightarrow> derive_panic + 'e" where
  "last_item item = fold_try (\<lambda>n _. item n)"

definition delivery_attr :: "attribute \<Rightarrow> delivery_policy \<Rightarrow> derive_panic + delivery_policy" where
  "delivery_attr a v =
     (case parse_meta a of
        None \<Rightarrow> Inl Meta_Not_Parsed
      | Some (Meta_List p ns) \<Rightarrow> last_item delivery_item ns v
      | Some m \<Rightarrow> Inl Delivery_Not_List)"

definition expires_attr :: "attribute \<Rightarrow> expires_expr \<Rightarrow> derive_panic + expires_expr" where
  "expires_attr a v =
     (case parse_meta a of
        None \<Rightarrow> Inl Meta_Not_Parsed
      | Some (Meta_List p ns) \<Rightarrow> last_item expires_item ns v
      | Some m \<Rightarrow> Inl Expires_Not_List)"

definition priority_attr :: "attribute \<Rightarrow> lit \<Rightarrow> derive_panic + lit" where
  "priority_attr a v =
     (case parse_meta a of
        Some (Meta_List p ns) \<Rightarrow> last_item priority_item ns v
      | _ \<Rightarrow> Inl Priority_Not_List)"

definition variant_attr :: "attribute \<Rightarrow> impl_flags \<times> variant_values \<Rightarrow>
    derive_panic + impl_flags \<times> variant_values" where
  "variant_attr a = (\<lambda>(fl, vv).
     if is_ident (at_path a) ''data_delivery'' then
       map_sum id (\<lambda>v. (fl\<lparr> default_policy_impl := False \<rparr>, vv\<lparr> delivery_policy_value := v \<rparr>))
         (delivery_attr a (delivery_policy_value vv))
     else if is_ident (at_path a) ''data_expires'' then
       map_sum id (\<lambda>v. (fl\<lparr> default_expires_impl := False \<rparr>, vv\<lparr> expires_value := v \<rparr>))
         (expires_attr a (expires_value vv))
     else if is_ident (at_path a) ''data_priority'' then
       map_sum id (\<lambda>v. (fl\<lparr> default_priority_impl := False \<rparr>, vv\<lparr> priority_value := v \<rparr>))
         (priority_attr a (priority_value vv))
     else Inl (Unknown_Attribute (at_path a)))"

fun pattern_of :: "ident \<Rightarrow> fields \<Rightarrow> pattern" where
  "pattern_of i (Unnamed n) = Pat_Tuple i"
| "pattern_of i (Named fs) = Pat_Struct i"
| "pattern_of i Unit_Fields = Pat_Unit i"

fun pattern_expires :: "ident \<Rightarrow> fields \<Rightarrow> pattern" where
  "pattern_expires i (Unnamed n) = Pat_Tuple_Value i"
| "pattern_expires i (Named fs) = Pat_Struct_Value i"
| "pattern_expires i Unit_Fields = Pat_Unit i"

record derive_state =
  ds_flags :: impl_flags
  delivery_policy_cases :: "(pattern \<times> delivery_policy) list"
  priority_cases :: "(pattern \<times> lit) list"
  expires_cases :: "(pattern \<times> expires_expr) list"

definition derive_variant :: "variant \<Rightarrow> derive_state \<Rightarrow> derive_panic + derive_state" where
  "derive_variant v ds =
     (case fold_try variant_attr (v_attrs v) (ds_flags ds, default_values) of
        Inl p \<Rightarrow> Inl p
      | Inr (fl, vv) \<Rightarrow>
          Inr \<lparr> ds_flags = fl,
               delivery_policy_cases = delivery_policy_cases ds @
                 [(pattern_of (v_ident v) (v_fields v), delivery_policy_value vv)],
               priority_cases = priority_cases ds @
                 [(pattern_of (v_ident v) (v_fields v), priority_value vv)],
               expires_cases = expires_cases ds @
                 [(pattern_expires (v_ident v) (v_fields v), expires_value vv)] \<rparr>)"

definition derive_start :: derive_state where
  "derive_start = \<lparr> ds_flags = \<lparr> default_policy_impl = True, default_priority_impl = True,
       default_expires_impl = True \<rparr>,
     delivery_policy_cases = [], priority_cases = [], expires_cases = [] \<rparr>"

definition generated :: "derive_state \<Rightarrow> derived_impl" where
  "generated ds =
     \<lparr> fn_delivery_policy = (if default_policy_impl (ds_flags ds) then Constant Always
                            else Match (delivery_policy_cases ds)),
       fn_priority = (if default_priority_impl (ds_flags ds) then Constant (Lit_Int 100)
                      else Match (priority_cases ds)),
       fn_is_expired = (if default_expires_impl (ds_flags ds) then Constant Never
                        else Match (expires_cases ds)) \<rparr>"

definition data_policy_derive :: "derive_input \<Rightarrow> derive_panic + derived_impl" where
  "data_policy_derive ast =
     (case di_data ast of
        Data_Enum variants \<Rightarrow> map_sum id generated (fold_try derive_variant variants derive_start)
      | _ \<Rightarrow> Inl Not_An_Enum)"

section \<open>What an expansion means\<close>

datatype 'v payload = P_Tuple "'v list" | P_Named "(ident \<times> 'v) list" | P_Unit

type_synonym 'v enum_value = "ident \<times> 'v payload"

fun pattern_ident :: "pattern \<Rightarrow> ident" where
  "pattern_ident (Pat_Tuple i) = i"
| "pattern_ident (Pat_Struct i) = i"
| "pattern_ident (Pat_Unit i) = i"
| "pattern_ident (Pat_Tuple_Value i) = i"
| "pattern_ident (Pat_Struct_Value i) = i"

text \<open>What the name \<open>value\<close> stands for in an arm, if it is bound.\<close>

fun bound_value :: "pattern \<Rightarrow> 'v payload \<Rightarrow> 'v option" where
  "bound_value (Pat_Tuple_Value i) (P_Tuple (x # xs)) = Some x"
| "bound_value (Pat_Struct_Value i) (P_Named fs) = map_of fs ''value''"
| "bound_value _ _ = None"

fun run_arms :: "('e \<Rightarrow> 'v option \<Rightarrow> 'r option) \<Rightarrow> (pattern \<times> 'e) list \<Rightarrow> 'v enum_value \<Rightarrow> 'r option" where
  "run_arms sem [] x = None"
| "run_arms sem ((p, e) # arms) x =
     (if pattern_ident p = fst x then sem e (bound_value p (snd x)) else run_arms sem arms x)"

fun run_body :: "('e \<Rightarrow> 'v option \<Rightarrow> 'r option) \<Rightarrow> 'e fn_body \<Rightarrow> 'v enum_value \<Rightarrow> 'r option" where
  "run_body sem (Constant e) x = sem e None"
| "run_body sem (Match arms) x = run_arms sem arms x"

fun lit_value :: "lit \<Rightarrow> nat option" where
  "lit_value (Lit_Int n) = Some n"
| "lit_value _ = None"

fun expires_result :: "(meta \<Rightarrow> 'v \<Rightarrow> bool) \<Rightarrow> expires_expr \<Rightarrow> 'v option \<Rightarrow> bool option" where
  "expires_result call Never v = Some False"
| "expires_result call (Call_Value m) v = map_option (call m) v"

definition derived_delivery_policy :: "derived_impl \<Rightarrow> 'v enum_value \<Rightarrow> delivery_policy option" where
  "derived_delivery_policy impl = run_body (\<lambda>e _. Some e) (fn_delivery_policy impl)"

definition derived_priority :: "derived_impl \<Rightarrow> 'v enum_value \<Rightarrow> nat option" where
  "derived_priority impl = run_body (\<lambda>l _. lit_value l) (fn_priority impl)"

definition derived_is_expired :: "(meta \<Rightarrow> 'v \<Rightarrow> bool) \<Rightarrow> derived_impl \<Rightarrow> 'v enum_value \<Rightarrow> bool option" where
  "derived_is_expired call impl = run_body (expires_result call) (fn_is_expired impl)"

text \<open>
  The scope check: a pattern fits the fields of its variant, every variant has an arm, \<open>value\<close> is
  used only where it is bound, and a priority is an integer.
\<close>

definition fields_of :: "variant list \<Rightarrow> ident \<Rightarrow> fields option" where
  "fields_of vs = map_of (map (\<lambda>v. (v_ident v, v_fields v)) vs)"

fun pattern_fits :: "pattern \<Rightarrow> fields \<Rightarrow> bool" where
  "pattern_fits (Pat_Tuple i) (Unnamed n) = True"
| "pattern_fits (Pat_Struct i) (Named fs) = True"
| "pattern_fits (Pat_Unit i) Unit_Fields = True"
| "pattern_fits (Pat_Tuple_Value i) (Unnamed n) = (n > 0)"
| "pattern_fits (Pat_Struct_Value i) (Named fs) = (''value'' \<in> set fs)"
| "pattern_fits _ _ = False"

fun binds_value :: "pattern \<Rightarrow> bool" where
  "binds_value (Pat_Tuple_Value i) = True"
| "binds_value (Pat_Struct_Value i) = True"
| "binds_value _ = False"

fun expires_ok :: "bool \<Rightarrow> expires_expr \<Rightarrow> bool" where
  "expires_ok bound Never = True"
| "expires_ok bound (Call_Value m) = bound"

fun body_ok :: "(bool \<Rightarrow> 'e \<Rightarrow> bool) \<Rightarrow> variant list \<Rightarrow> 'e fn_body \<Rightarrow> bool" where
  "body_ok ok vs (Constant e) = ok False e"
| "body_ok ok vs (Match arms) =
     (list_all (\<lambda>(p, e). (case fields_of vs (pattern_ident p) of None \<Rightarrow> False | Some f \<Rightarrow> pattern_fits p f) \<and>
         ok (binds_value p) e) arms \<and>
      list_all (\<lambda>v. list_ex (\<lambda>(p, e). pattern_ident p = v_ident v) arms) vs)"

definition well_scoped :: "variant list \<Rightarrow> derived_impl \<Rightarrow> bool" where
  "well_scoped vs impl \<longleftrightarrow> body_ok (\<lambda>_ _. True) vs (fn_delivery_policy impl) \<and>
     body_ok (\<lambda>_ l. lit_value l \<noteq> None) vs (fn_priority impl) \<and>
     body_ok expires_ok vs (fn_is_expired impl)"

section \<open>What the attributes ask for\<close>

definition last_or :: "'a list \<Rightarrow> 'a \<Rightarrow> 'a" where
  "last_or xs d = (if xs = [] then d else last xs)"

fun listed :: "attribute \<Rightarrow> nested_meta list option" where
  "listed a = (case parse_meta a of Some (Meta_List p ns) \<Rightarrow> Some ns | _ \<Rightarrow> None)"

definition item_values :: "(nested_meta \<Rightarrow> 'p + 'e) \<Rightarrow> nested_meta list \<Rightarrow> 'e list" where
  "item_values item ns = List.map_filter (\<lambda>n. case item n of Inl p \<Rightarrow> None | Inr e \<Rightarrow> Some e) ns"

definition asked :: "(nested_meta \<Rightarrow> 'p + 'e) \<Rightarrow> ident \<Rightarrow> attribute list \<Rightarrow> 'e list" where
  "asked item name as = concat (map (\<lambda>a. item_values item (case listed a of None \<Rightarrow> [] | Some ns \<Rightarrow> ns))
     (filter (\<lambda>a. is_ident (at_path a) name) as))"

definition asked_delivery :: "variant \<Rightarrow> delivery_policy" where
  "asked_delivery v = last_or (asked delivery_item ''data_delivery'' (v_attrs v)) Always"

definition asked_priority :: "variant \<Rightarrow> lit" where
  "asked_priority v = last_or (asked priority_item ''data_priority'' (v_attrs v)) (Lit_Int 100)"

definition asked_expires :: "variant \<Rightarrow> expires_expr" where
  "asked_expires v = last_or (asked expires_item ''data_expires'' (v_attrs v)) Never"

definition uses :: "ident \<Rightarrow> variant list \<Rightarrow> bool" where
  "uses name vs = list_ex (\<lambda>v. list_ex (\<lambda>a. is_ident (at_path a) name) (v_attrs v)) vs"

lemma last_or_simps [simp]:
  "last_or [] d = d" "last_or (x # xs) d = last_or xs x" "last_or (xs @ ys) d = last_or ys (last_or xs d)"
  by (simp_all add: last_or_def)

lemma item_values_simps [simp]:
  "item_values item [] = []"
  "item_values item (n # ns) = (case item n of Inl p \<Rightarrow> [] | Inr e \<Rightarrow> [e]) @ item_values item ns"
  by (simp_all add: item_values_def map_filter_simps split: sum.split)

lemma asked_simps [simp]:
  "asked item name [] = []"
  "asked item name (a # as) = (if is_ident (at_path a) name
     then item_values item (case listed a of None \<Rightarrow> [] | Some ns \<Rightarrow> ns) else []) @ asked item name as"
  by (simp_all add: asked_def)

lemma asked_none: "\<not> list_ex (\<lambda>a. is_ident (at_path a) name) as \<Longrightarrow> asked item name as = []"
  by (induction as) auto

lemma is_ident_unique: "is_ident p i \<Longrightarrow> is_ident p j \<longleftrightarrow> i = j"
  by (auto simp: is_ident_def)

section \<open>The loops of the macro\<close>

lemma fold_try_success:
  assumes "\<And>x s. (\<exists>s'. f x s = Inr s') \<longleftrightarrow> good x"
  shows "(\<exists>s'. fold_try f xs s = Inr s') \<longleftrightarrow> list_all good xs"
proof (induction xs arbitrary: s)
  case (Cons x xs)
  show ?case
  proof (cases "f x s")
    case (Inl p)
    with assms [of x s] show ?thesis by simp
  next
    case (Inr s')
    with assms [of x s] Cons.IH [of s'] show ?thesis by auto
  qed
qed simp

lemma last_item_value: "last_item item ns v = Inr w \<Longrightarrow> w = last_or (item_values item ns) v"
  unfolding last_item_def
  by (induction ns arbitrary: v) (auto split: sum.splits)

lemma attr_values:
  "delivery_attr a v = Inr w \<Longrightarrow> \<exists>ns. listed a = Some ns \<and> w = last_or (item_values delivery_item ns) v"
  "expires_attr a e = Inr e' \<Longrightarrow> \<exists>ns. listed a = Some ns \<and> e' = last_or (item_values expires_item ns) e"
  "priority_attr a l = Inr l' \<Longrightarrow> \<exists>ns. listed a = Some ns \<and> l' = last_or (item_values priority_item ns) l"
  by (auto simp: delivery_attr_def expires_attr_def priority_attr_def dest!: last_item_value
      split: option.splits meta.splits)

lemma map_sum_Inr: "map_sum id g r = Inr y \<longleftrightarrow> (\<exists>x. r = Inr x \<and> y = g x)"
  by (cases r) auto

lemma variant_attr_effect:
  assumes "variant_attr a (fl, vv) = Inr (fl', vv')"
  shows "delivery_policy_value vv' = last_or (asked delivery_item ''data_delivery'' [a]) (delivery_policy_value vv)"
    and "priority_value vv' = last_or (asked priority_item ''data_priority'' [a]) (priority_value vv)"
    and "expires_value vv' = last_or (asked expires_item ''data_expires'' [a]) (expires_value vv)"
    and "default_policy_impl fl' \<longleftrightarrow> default_policy_impl fl \<and> \<not> is_ident (at_path a) ''data_delivery''"
    and "default_priority_impl fl' \<longleftrightarrow> default_priority_impl fl \<and> \<not> is_ident (at_path a) ''data_priority''"
    and "default_expires_impl fl' \<longleftrightarrow> default_expires_impl fl \<and> \<not> is_ident (at_path a) ''data_expires''"
proof -
  consider (del) "is_ident (at_path a) ''data_delivery''" "\<not> is_ident (at_path a) ''data_priority''"
      "\<not> is_ident (at_path a) ''data_expires''"
    | (exp) "is_ident (at_path a) ''data_expires''" "\<not> is_ident (at_path a) ''data_priority''"
      "\<not> is_ident (at_path a) ''data_delivery''"
    | (pri) "is_ident (at_path a) ''data_priority''" "\<not> is_ident (at_path a) ''data_delivery''"
      "\<not> is_ident (at_path a) ''data_expires''"
    using assms is_ident_unique [of "at_path a"]
    by (cases "is_ident (at_path a) ''data_delivery''"; cases "is_ident (at_path a) ''data_expires''";
        cases "is_ident (at_path a) ''data_priority''") (auto simp: variant_attr_def)
  then have "delivery_policy_value vv' = last_or (asked delivery_item ''data_delivery'' [a]) (delivery_policy_value vv) \<and>
      priority_value vv' = last_or (asked priority_item ''data_priority'' [a]) (priority_value vv) \<and>
      expires_value vv' = last_or (asked expires_item ''data_expires'' [a]) (expires_value vv) \<and>
      (default_policy_impl fl' \<longleftrightarrow> default_policy_impl fl \<and> \<not> is_ident (at_path a) ''data_delivery'') \<and>
      (default_priority_impl fl' \<longleftrightarrow> default_priority_impl fl \<and> \<not> is_ident (at_path a) ''data_priority'') \<and>
      (default_expires_impl fl' \<longleftrightarrow> default_expires_impl fl \<and> \<not> is_ident (at_path a) ''data_expires'')"
  proof cases
    case del
    with assms obtain v where v: "delivery_attr a (delivery_policy_value vv) = Inr v"
      "fl' = fl\<lparr> default_policy_impl := False \<rparr>" "vv' = vv\<lparr> delivery_policy_value := v \<rparr>"
      by (auto simp: variant_attr_def map_sum_Inr)
    from attr_values(1) [OF v(1)] v(2,3) del show ?thesis by auto
  next
    case exp
    with assms obtain v where v: "expires_attr a (expires_value vv) = Inr v"
      "fl' = fl\<lparr> default_expires_impl := False \<rparr>" "vv' = vv\<lparr> expires_value := v \<rparr>"
      by (auto simp: variant_attr_def map_sum_Inr)
    from attr_values(2) [OF v(1)] v(2,3) exp show ?thesis by auto
  next
    case pri
    with assms obtain v where v: "priority_attr a (priority_value vv) = Inr v"
      "fl' = fl\<lparr> default_priority_impl := False \<rparr>" "vv' = vv\<lparr> priority_value := v \<rparr>"
      by (auto simp: variant_attr_def map_sum_Inr)
    from attr_values(3) [OF v(1)] v(2,3) pri show ?thesis by auto
  qed
  then show "delivery_policy_value vv' = last_or (asked delivery_item ''data_delivery'' [a]) (delivery_policy_value vv)"
    and "priority_value vv' = last_or (asked priority_item ''data_priority'' [a]) (priority_value vv)"
    and "expires_value vv' = last_or (asked expires_item ''data_expires'' [a]) (expires_value vv)"
    and "default_policy_impl fl' \<longleftrightarrow> default_policy_impl fl \<and> \<not> is_ident (at_path a) ''data_delivery''"
    and "default_priority_impl fl' \<longleftrightarrow> default_priority_impl fl \<and> \<not> is_ident (at_path a) ''data_priority''"
    and "default_expires_impl fl' \<longleftrightarrow> default_expires_impl fl \<and> \<not> is_ident (at_path a) ''data_expires''"
    by blast+
qed

lemma asked_Cons: "asked item name (a # as) = asked item name [a] @ asked item name as"
  by simp

lemma has_attr_Cons: "list_ex (\<lambda>a. is_ident (at_path a) name) (a # as) \<longleftrightarrow>
    is_ident (at_path a) name \<or> list_ex (\<lambda>a. is_ident (at_path a) name) as"
  by simp

lemma variant_attrs_effect:
  assumes "fold_try variant_attr as (fl, vv) = Inr (fl', vv')"
  shows "delivery_policy_value vv' = last_or (asked delivery_item ''data_delivery'' as) (delivery_policy_value vv) \<and>
    priority_value vv' = last_or (asked priority_item ''data_priority'' as) (priority_value vv) \<and>
    expires_value vv' = last_or (asked expires_item ''data_expires'' as) (expires_value vv) \<and>
    (default_policy_impl fl' \<longleftrightarrow> default_policy_impl fl \<and> \<not> list_ex (\<lambda>a. is_ident (at_path a) ''data_delivery'') as) \<and>
    (default_priority_impl fl' \<longleftrightarrow> default_priority_impl fl \<and> \<not> list_ex (\<lambda>a. is_ident (at_path a) ''data_priority'') as) \<and>
    (default_expires_impl fl' \<longleftrightarrow> default_expires_impl fl \<and> \<not> list_ex (\<lambda>a. is_ident (at_path a) ''data_expires'') as)"
  using assms
proof (induction as arbitrary: fl vv)
  case (Cons a as)
  from Cons.prems obtain fl1 vv1 where step: "variant_attr a (fl, vv) = Inr (fl1, vv1)"
    and rest: "fold_try variant_attr as (fl1, vv1) = Inr (fl', vv')"
    by (auto split: sum.splits)
  note e = variant_attr_effect [OF step]
  from Cons.IH [OF rest] show ?case
    unfolding asked_Cons [of _ _ a as] last_or_simps(3) e has_attr_Cons by blast
qed simp

text \<open>The arms a variant adds.\<close>

definition arms_for :: "(ident \<Rightarrow> fields \<Rightarrow> pattern) \<Rightarrow> (variant \<Rightarrow> 'e) \<Rightarrow> variant list \<Rightarrow> (pattern \<times> 'e) list" where
  "arms_for pat val vs = map (\<lambda>v. (pat (v_ident v) (v_fields v), val v)) vs"

lemma derive_variants_effect:
  assumes "fold_try derive_variant vs ds = Inr ds'"
  shows "delivery_policy_cases ds' = delivery_policy_cases ds @ arms_for pattern_of asked_delivery vs \<and>
    priority_cases ds' = priority_cases ds @ arms_for pattern_of asked_priority vs \<and>
    expires_cases ds' = expires_cases ds @ arms_for pattern_expires asked_expires vs \<and>
    (default_policy_impl (ds_flags ds') \<longleftrightarrow> default_policy_impl (ds_flags ds) \<and> \<not> uses ''data_delivery'' vs) \<and>
    (default_priority_impl (ds_flags ds') \<longleftrightarrow> default_priority_impl (ds_flags ds) \<and> \<not> uses ''data_priority'' vs) \<and>
    (default_expires_impl (ds_flags ds') \<longleftrightarrow> default_expires_impl (ds_flags ds) \<and> \<not> uses ''data_expires'' vs)"
  using assms
proof (induction vs arbitrary: ds)
  case Nil
  then show ?case by (simp add: arms_for_def uses_def)
next
  case (Cons v vs)
  from Cons.prems obtain ds1 where step: "derive_variant v ds = Inr ds1"
    and rest: "fold_try derive_variant vs ds1 = Inr ds'"
    by (auto split: sum.splits)
  from step obtain fl vv where f: "fold_try variant_attr (v_attrs v) (ds_flags ds, default_values) = Inr (fl, vv)"
    and ds1: "ds_flags ds1 = fl"
      "delivery_policy_cases ds1 = delivery_policy_cases ds @
         [(pattern_of (v_ident v) (v_fields v), delivery_policy_value vv)]"
      "priority_cases ds1 = priority_cases ds @ [(pattern_of (v_ident v) (v_fields v), priority_value vv)]"
      "expires_cases ds1 = expires_cases ds @ [(pattern_expires (v_ident v) (v_fields v), expires_value vv)]"
    by (auto simp: derive_variant_def split: sum.splits)
  from variant_attrs_effect [OF f]
  have vv: "delivery_policy_value vv = asked_delivery v" "priority_value vv = asked_priority v"
    "expires_value vv = asked_expires v"
    and fl: "default_policy_impl fl \<longleftrightarrow> default_policy_impl (ds_flags ds) \<and> \<not> uses ''data_delivery'' [v]"
    "default_priority_impl fl \<longleftrightarrow> default_priority_impl (ds_flags ds) \<and> \<not> uses ''data_priority'' [v]"
    "default_expires_impl fl \<longleftrightarrow> default_expires_impl (ds_flags ds) \<and> \<not> uses ''data_expires'' [v]"
    by (simp_all add: default_values_def asked_delivery_def asked_priority_def asked_expires_def uses_def)
  have "uses name (v # vs) \<longleftrightarrow> uses name [v] \<or> uses name vs" for name by (simp add: uses_def)
  with Cons.IH [OF rest] fl show ?case by (auto simp: ds1 vv arms_for_def)
qed

lemma derive_expansion:
  assumes "data_policy_derive ast = Inr impl" and "di_data ast = Data_Enum vs"
  shows "fn_delivery_policy impl =
      (if uses ''data_delivery'' vs then Match (arms_for pattern_of asked_delivery vs) else Constant Always)"
    and "fn_priority impl =
      (if uses ''data_priority'' vs then Match (arms_for pattern_of asked_priority vs) else Constant (Lit_Int 100))"
    and "fn_is_expired impl =
      (if uses ''data_expires'' vs then Match (arms_for pattern_expires asked_expires vs) else Constant Never)"
proof -
  from assms obtain ds where "fold_try derive_variant vs derive_start = Inr ds" and g: "impl = generated ds"
    by (auto simp: data_policy_derive_def map_sum_Inr)
  from derive_variants_effect [OF this(1)] g
  show "fn_delivery_policy impl =
      (if uses ''data_delivery'' vs then Match (arms_for pattern_of asked_delivery vs) else Constant Always)"
    and "fn_priority impl =
      (if uses ''data_priority'' vs then Match (arms_for pattern_of asked_priority vs) else Constant (Lit_Int 100))"
    and "fn_is_expired impl =
      (if uses ''data_expires'' vs then Match (arms_for pattern_expires asked_expires vs) else Constant Never)"
    by (simp_all add: generated_def derive_start_def)
qed

text \<open>An enum that does not use an attribute asks for the default everywhere.\<close>

lemma asked_defaults:
  assumes "v \<in> set vs"
  shows "\<not> uses ''data_delivery'' vs \<Longrightarrow> asked_delivery v = Always"
    and "\<not> uses ''data_priority'' vs \<Longrightarrow> asked_priority v = Lit_Int 100"
    and "\<not> uses ''data_expires'' vs \<Longrightarrow> asked_expires v = Never"
proof -
  have "\<not> uses name vs \<Longrightarrow> \<not> list_ex (\<lambda>a. is_ident (at_path a) name) (v_attrs v)" for name
    using assms by (auto simp: uses_def list_ex_iff)
  then show "\<not> uses ''data_delivery'' vs \<Longrightarrow> asked_delivery v = Always"
    and "\<not> uses ''data_priority'' vs \<Longrightarrow> asked_priority v = Lit_Int 100"
    and "\<not> uses ''data_expires'' vs \<Longrightarrow> asked_expires v = Never"
    by (simp_all add: asked_delivery_def asked_priority_def asked_expires_def asked_none)
qed

section \<open>Correctness\<close>

lemma fields_of_variant: "distinct (map v_ident vs) \<Longrightarrow> v \<in> set vs \<Longrightarrow> fields_of vs (v_ident v) = Some (v_fields v)"
  by (auto simp: fields_of_def o_def intro!: map_of_is_SomeI)

lemma pattern_of_fits [simp]:
  "pattern_ident (pattern_of i f) = i" "pattern_ident (pattern_expires i f) = i"
  "pattern_fits (pattern_of i f) f"
  "bound_value (pattern_of i f) pl = None"
  by (cases f; simp)+

definition expiry_fits :: "variant \<Rightarrow> bool" where
  "expiry_fits v \<longleftrightarrow> (case v_fields v of Unnamed n \<Rightarrow> n > 0 | Named fs \<Rightarrow> ''value'' \<in> set fs
     | Unit_Fields \<Rightarrow> asked_expires v = Never)"

lemma expiry_fits_arm:
  "pattern_fits (pattern_expires (v_ident v) (v_fields v)) (v_fields v) \<and>
     expires_ok (binds_value (pattern_expires (v_ident v) (v_fields v))) (asked_expires v) \<longleftrightarrow> expiry_fits v"
  by (cases "v_fields v"; cases "asked_expires v") (simp_all add: expiry_fits_def)

lemma arms_ok:
  assumes "distinct (map v_ident vs)" and "\<And>i f. pattern_ident (pat i f) = i"
  shows "body_ok ok vs (Match (arms_for pat val vs)) \<longleftrightarrow>
    list_all (\<lambda>v. pattern_fits (pat (v_ident v) (v_fields v)) (v_fields v) \<and>
      ok (binds_value (pat (v_ident v) (v_fields v))) (val v)) vs"
proof -
  have "list_all (\<lambda>v. list_ex (\<lambda>(p, e). pattern_ident p = v_ident v) (arms_for pat val vs)) vs"
    by (auto simp: arms_for_def list_all_iff list_ex_iff assms(2))
  moreover have "list_all (\<lambda>(p, e). (case fields_of vs (pattern_ident p) of None \<Rightarrow> False | Some f \<Rightarrow> pattern_fits p f) \<and>
      ok (binds_value p) e) (arms_for pat val vs) \<longleftrightarrow>
    list_all (\<lambda>v. pattern_fits (pat (v_ident v) (v_fields v)) (v_fields v) \<and>
      ok (binds_value (pat (v_ident v) (v_fields v))) (val v)) vs"
    using fields_of_variant [OF assms(1)] by (auto simp: arms_for_def list_all_iff assms(2))
  ultimately show ?thesis by simp
qed

lemma run_arms_for:
  assumes "distinct (map v_ident vs)" and "\<And>i f. pattern_ident (pat i f) = i"
    and "v \<in> set vs" and "fst x = v_ident v"
  shows "run_arms sem (arms_for pat val vs) x = sem (val v) (bound_value (pat (v_ident v) (v_fields v)) (snd x))"
  using assms(1,3)
proof (induction vs)
  case (Cons w vs)
  then show ?case
    using assms(2,4) by (cases "w = v") (auto simp: arms_for_def)
qed simp

text \<open>The values of an enum, and the part of a value that \<open>value\<close> stands for.\<close>

fun payload_of :: "fields \<Rightarrow> 'v payload \<Rightarrow> bool" where
  "payload_of (Unnamed n) (P_Tuple xs) = (length xs = n)"
| "payload_of (Named is) (P_Named fs) = (map fst fs = is)"
| "payload_of Unit_Fields P_Unit = True"
| "payload_of _ _ = False"

definition value_of :: "variant \<Rightarrow> 'v enum_value \<Rightarrow> bool" where
  "value_of v x \<longleftrightarrow> fst x = v_ident v \<and> payload_of (v_fields v) (snd x)"

fun tracked :: "'v payload \<Rightarrow> 'v option" where
  "tracked (P_Tuple (x # xs)) = Some x"
| "tracked (P_Named fs) = map_of fs ''value''"
| "tracked _ = None"

lemma bound_tracked: "payload_of f pl \<Longrightarrow> bound_value (pattern_expires i f) pl = tracked pl"
  by (cases "(f, pl)" rule: payload_of.cases; (cases pl rule: tracked.cases)?) auto

lemma tracked_there:
  "value_of v x \<Longrightarrow> expiry_fits v \<Longrightarrow> asked_expires v \<noteq> Never \<Longrightarrow> \<exists>y. tracked (snd x) = Some y"
proof (cases "v_fields v")
  case (Unnamed n)
  moreover assume "value_of v x" "expiry_fits v"
  ultimately show ?thesis
    by (cases "snd x"; auto simp: value_of_def expiry_fits_def neq_Nil_conv)
next
  case (Named fs)
  moreover assume "value_of v x" "expiry_fits v"
  ultimately show ?thesis
    by (cases "snd x") (auto simp: value_of_def expiry_fits_def map_of_eq_None_iff simp flip: not_None_eq)
qed (simp add: expiry_fits_def)

text \<open>
  The concrete enum below: a sensor value that expires, a telemetry value, and a command without
  attributes.
\<close>

definition attr :: "ident \<Rightarrow> nested_meta list \<Rightarrow> attribute" where
  "attr name ns = \<lparr> at_path = [name], parse_meta = Some (Meta_List [name] ns) \<rparr>"

definition sample_variants :: "variant list" where
  "sample_variants =
     [\<lparr> v_ident = ''Sensor'', v_attrs = [attr ''data_delivery'' [N_Meta (Meta_Path [''Single''])],
          attr ''data_priority'' [N_Lit (Lit_Int 10)],
          attr ''data_expires'' [N_Meta (Meta_Path [''TtlCell'', ''is_expired''])]],
        v_fields = Unnamed 1 \<rparr>,
      \<lparr> v_ident = ''Telemetry'', v_attrs = [attr ''data_delivery'' [N_Lit (Lit_Str ''optional'')]],
        v_fields = Named [''unit'', ''value''] \<rparr>,
      \<lparr> v_ident = ''Shutdown'', v_attrs = [], v_fields = Unit_Fields \<rparr>]"

definition position_variant :: variant where
  "position_variant = \<lparr> v_ident = ''Position'', v_attrs = [], v_fields = Named [''x'', ''y''] \<rparr>"

definition sample_enum :: "variant list \<Rightarrow> derive_input" where
  "sample_enum extra = \<lparr> di_ident = ''Message'', di_data = Data_Enum (sample_variants @ extra) \<rparr>"

lemma sample_enum_data [simp]: "di_data (sample_enum extra) = Data_Enum (sample_variants @ extra)"
  by (simp add: sample_enum_def)

lemma sample_derives:
  "\<exists>impl. data_policy_derive (sample_enum []) = Inr impl"
  "\<exists>impl. data_policy_derive (sample_enum [position_variant]) = Inr impl"
proof -
  have "case data_policy_derive (sample_enum []) of Inl _ \<Rightarrow> False | Inr _ \<Rightarrow> True"
    "case data_policy_derive (sample_enum [position_variant]) of Inl _ \<Rightarrow> False | Inr _ \<Rightarrow> True"
    by code_simp+
  then show "\<exists>impl. data_policy_derive (sample_enum []) = Inr impl"
    "\<exists>impl. data_policy_derive (sample_enum [position_variant]) = Inr impl"
    by (auto split: sum.splits)
qed

lemma sample_facts:
  "distinct (map v_ident (sample_variants @ []))"
  "distinct (map v_ident (sample_variants @ [position_variant]))"
  "list_all (\<lambda>v. lit_value (asked_priority v) \<noteq> None) (sample_variants @ [])"
  "uses ''data_expires'' (sample_variants @ [position_variant])"
  "list_all expiry_fits (sample_variants @ [])" "\<not> list_all expiry_fits (sample_variants @ [position_variant])"
  by code_simp+

lemma well_scoped_iff:
  assumes "data_policy_derive ast = Inr impl" and "di_data ast = Data_Enum vs"
    and "distinct (map v_ident vs)"
  shows "well_scoped vs impl \<longleftrightarrow>
    list_all (\<lambda>v. lit_value (asked_priority v) \<noteq> None) vs \<and>
    (uses ''data_expires'' vs \<longrightarrow> list_all expiry_fits vs)"
proof -
  note e = derive_expansion [OF assms(1,2)]
  have "body_ok (\<lambda>_ _. True) vs (fn_delivery_policy impl)"
    using arms_ok [OF assms(3), of pattern_of "\<lambda>_ _. True" asked_delivery] by (simp add: e(1) list_all_iff)
  moreover have "body_ok (\<lambda>_ l. lit_value l \<noteq> None) vs (fn_priority impl) \<longleftrightarrow>
      list_all (\<lambda>v. lit_value (asked_priority v) \<noteq> None) vs"
    using arms_ok [OF assms(3), of pattern_of "\<lambda>_ l. lit_value l \<noteq> None" asked_priority]
      asked_defaults(2) [of _ vs] by (auto simp: e(2) list_all_iff)
  moreover have "body_ok expires_ok vs (fn_is_expired impl) \<longleftrightarrow>
      (uses ''data_expires'' vs \<longrightarrow> list_all expiry_fits vs)"
    using arms_ok [OF assms(3), of pattern_expires expires_ok asked_expires]
    by (simp add: e(3) expiry_fits_arm)
  ultimately show ?thesis by (simp add: well_scoped_def)
qed



text \<open>
  C35: a well-scoped expansion does what the attributes ask for: on every value of a variant it
  answers with the policy, the priority and the expiry of this variant, the last one where
  several are given and the documented default where none is.
\<close>

theorem derive_respects_attributes:
  assumes "data_policy_derive ast = Inr impl" and "di_data ast = Data_Enum vs"
    and "distinct (map v_ident vs)" and "well_scoped vs impl" and "v \<in> set vs" and "value_of v x"
  shows "derived_delivery_policy impl x = Some (asked_delivery v) \<and>
    (\<exists>n. asked_priority v = Lit_Int n \<and> derived_priority impl x = Some n) \<and>
    derived_is_expired call impl x =
      Some (case asked_expires v of Never \<Rightarrow> False | Call_Value m \<Rightarrow> call m (the (tracked (snd x))))"
proof (intro conjI)
  note e = derive_expansion [OF assms(1,2)]
  note d = asked_defaults [OF assms(5)]
  note arms = run_arms_for [OF assms(3) _ assms(5)]
  from assms(6) have x: "fst x = v_ident v" "payload_of (v_fields v) (snd x)" by (simp_all add: value_of_def)
  from well_scoped_iff [OF assms(1-3)] assms(4,5)
  have pri: "lit_value (asked_priority v) \<noteq> None" and fit: "uses ''data_expires'' vs \<Longrightarrow> expiry_fits v"
    by (auto simp: list_all_iff)
  show "derived_delivery_policy impl x = Some (asked_delivery v)"
    using d(1) by (simp add: derived_delivery_policy_def e(1) arms [OF _ x(1)])
  from pri obtain n where n: "asked_priority v = Lit_Int n" by (cases "asked_priority v") auto
  then show "\<exists>n. asked_priority v = Lit_Int n \<and> derived_priority impl x = Some n"
    using d(2) by (auto simp: derived_priority_def e(2) arms [OF _ x(1)])
  show "derived_is_expired call impl x =
      Some (case asked_expires v of Never \<Rightarrow> False | Call_Value m \<Rightarrow> call m (the (tracked (snd x))))"
  proof (cases "uses ''data_expires'' vs")
    case True
    with tracked_there [OF assms(6) fit] show ?thesis
      by (auto simp: derived_is_expired_def e(3) arms [OF _ x(1)] bound_tracked [OF x(2)]
          split: expires_expr.split)
  next
    case False
    with d(3) show ?thesis by (simp add: derived_is_expired_def e(3))
  qed
qed

theorem derive_respects_attributes_witness:
  "\<exists>impl. data_policy_derive (sample_enum []) = Inr impl \<and>
     derived_delivery_policy impl (''Sensor'', P_Tuple [5 :: nat]) = Some Single \<and>
     derived_priority impl (''Sensor'', P_Tuple [5 :: nat]) = Some 10 \<and>
     derived_is_expired (\<lambda>m x. x > 3) impl (''Sensor'', P_Tuple [5 :: nat]) = Some True"
proof -
  obtain impl where impl: "data_policy_derive (sample_enum []) = Inr impl" using sample_derives(1) by blast
  define v where "v = hd sample_variants"
  have v: "v \<in> set (sample_variants @ [])" "value_of v (''Sensor'', P_Tuple [5 :: nat])"
    "asked_delivery v = Single" "asked_priority v = Lit_Int 10"
    "asked_expires v = Call_Value (Meta_Path [''TtlCell'', ''is_expired''])"
    unfolding v_def by code_simp+
  have "well_scoped (sample_variants @ []) impl"
    using well_scoped_iff [OF impl sample_enum_data sample_facts(1)] sample_facts(3,5) by blast
  from derive_respects_attributes [OF impl sample_enum_data sample_facts(1) this v(1,2), of "\<lambda>m x. x > 3"] v impl
  show ?thesis by simp
qed

fun known_policy :: "nested_meta \<Rightarrow> bool" where
  "known_policy (N_Meta m) = (case get_ident (meta_path m) of None \<Rightarrow> False
     | Some i \<Rightarrow> to_lowercase i \<in> {''single'', ''single_optional'', ''optional'', ''always'', ''latest''})"
| "known_policy (N_Lit (Lit_Str s)) =
     (to_lowercase s \<in> {''single'', ''single_optional'', ''optional'', ''always'', ''latest''})"
| "known_policy (N_Lit _) = False"

definition good_attribute :: "attribute \<Rightarrow> bool" where
  "good_attribute a \<longleftrightarrow> (case listed a of None \<Rightarrow> False | Some ns \<Rightarrow>
     at_path a = [''data_delivery''] \<and> list_all known_policy ns \<or>
     at_path a = [''data_expires''] \<and> list_all (\<lambda>n. case n of N_Meta m \<Rightarrow> True | N_Lit l \<Rightarrow> False) ns \<or>
     at_path a = [''data_priority''] \<and> list_all (\<lambda>n. case n of N_Meta m \<Rightarrow> False | N_Lit l \<Rightarrow> True) ns)"

lemma is_ident_path: "is_ident p i \<longleftrightarrow> p = [i]"
  by (cases p rule: get_ident.cases) (auto simp: is_ident_def)

lemma last_item_success:
  "(\<exists>w. last_item item ns v = Inr w) \<longleftrightarrow> list_all (\<lambda>n. \<exists>w. item n = Inr w) ns"
  unfolding last_item_def by (rule fold_try_success) simp

lemma item_success:
  "(\<exists>w. delivery_item n = Inr w) \<longleftrightarrow> known_policy n"
  "(\<exists>w. expires_item n = Inr w) \<longleftrightarrow> (case n of N_Meta m \<Rightarrow> True | N_Lit l \<Rightarrow> False)"
  "(\<exists>w. priority_item n = Inr w) \<longleftrightarrow> (case n of N_Meta m \<Rightarrow> False | N_Lit l \<Rightarrow> True)"
proof -
  have policy: "(\<exists>w. parse_delivery_policy (Some s) = Inr w) \<longleftrightarrow>
      s \<in> {''single'', ''single_optional'', ''optional'', ''always'', ''latest''}" for s by simp
  show "(\<exists>w. delivery_item n = Inr w) \<longleftrightarrow> known_policy n"
    by (cases n rule: known_policy.cases)
      (auto simp: policy simp del: parse_delivery_policy.simps(1) split: option.split)
qed (cases n; simp)+

lemma attr_success:
  "(\<exists>w. delivery_attr a v = Inr w) \<longleftrightarrow> (case listed a of None \<Rightarrow> False | Some ns \<Rightarrow> list_all known_policy ns)"
  "(\<exists>w. expires_attr a e = Inr w) \<longleftrightarrow> (case listed a of None \<Rightarrow> False
     | Some ns \<Rightarrow> list_all (\<lambda>n. case n of N_Meta m \<Rightarrow> True | N_Lit l \<Rightarrow> False) ns)"
  "(\<exists>w. priority_attr a l = Inr w) \<longleftrightarrow> (case listed a of None \<Rightarrow> False
     | Some ns \<Rightarrow> list_all (\<lambda>n. case n of N_Meta m \<Rightarrow> False | N_Lit l \<Rightarrow> True) ns)"
  by (simp_all add: delivery_attr_def expires_attr_def priority_attr_def last_item_success item_success
      split: option.split meta.split)

lemma map_sum_success: "(\<exists>y. map_sum id g r = Inr y) \<longleftrightarrow> (\<exists>x. r = Inr x)"
  by (cases r) auto

lemma variant_attr_success: "(\<exists>s'. variant_attr a s = Inr s') \<longleftrightarrow> good_attribute a"
proof (cases s)
  case (Pair fl vv)
  consider "at_path a = [''data_delivery'']" | "at_path a = [''data_expires'']" | "at_path a = [''data_priority'']"
    | "at_path a \<notin> {[''data_delivery''], [''data_expires''], [''data_priority'']}" by auto
  then show ?thesis
    by cases (simp_all add: variant_attr_def good_attribute_def is_ident_path Pair map_sum_success attr_success
        del: listed.simps split_paired_Ex split_paired_All split: option.split)
qed

lemma derive_variant_success:
  "(\<exists>s'. derive_variant v ds = Inr s') \<longleftrightarrow> list_all good_attribute (v_attrs v)"
  using fold_try_success [of variant_attr good_attribute "v_attrs v" "(ds_flags ds, default_values)",
      OF variant_attr_success]
  by (auto simp: derive_variant_def split: sum.split)

text \<open>
  C36: the macro panics at compile time unless its input is an enum and every attribute of every
  variant is one of the three, a list, with items of the right form: known policy names, calls, or
  literals. So any other attribute on a variant, a doc comment included, is a compile error.
\<close>

theorem derive_expands_iff:
  "(\<exists>impl. data_policy_derive ast = Inr impl) \<longleftrightarrow>
   (case di_data ast of
      Data_Enum vs \<Rightarrow> list_all (\<lambda>v. list_all good_attribute (v_attrs v)) vs
    | Data_Struct \<Rightarrow> False | Data_Union \<Rightarrow> False)"
  using fold_try_success [of derive_variant "\<lambda>v. list_all good_attribute (v_attrs v)", OF derive_variant_success]
  by (simp add: data_policy_derive_def map_sum_success split: derive_data.split)

definition underscored :: "string \<Rightarrow> string" where
  "underscored s = map (\<lambda>c. if c = CHR ''-'' then CHR ''_'' else c) s"

text \<open>
  The names in the attributes are those \<open>DeliveryPolicy\<close> prints, with an underscore for the
  hyphen; unlike \<open>from_str\<close> the macro knows \<open>latest\<close> too.
\<close>

theorem derive_policy_names:
  "parse_delivery_policy (Some s) = Inr p \<longleftrightarrow> s = underscored (policy_display p)"
  by (cases p) (auto simp: underscored_def)

end
