(* ===== verification/Pi_Lock.thy ===== *)
theory Pi_Lock
  imports Prelude "HOL-Library.Word"
begin

unbundle bit_operations_syntax

text \<open>
  The priority-inheriting mutex \<open>PiLock\<close> and its \<open>Condvar\<close> of \<open>src/src/pi.rs\<close>, one mutex and one
  condition variable, used by any number of threads. Here the steps are single atomic operations
  and system calls, and each thread has a program counter. A step is a function of the thread that
  moves and of what the kernel answers; a run is a list of such choices.

  The kernel's futex calls are a parameter; \<open>kernel_ok\<close> states what \<open>futex(2)\<close> documents of them.
\<close>

section \<open>The kernel\<close>

type_synonym tid = "32 word"

text \<open>The thread id in the lock word of a priority-inheriting futex (\<open>FUTEX_TID_MASK\<close>).\<close>

definition futex_owner :: "32 word \<Rightarrow> tid" where
  "futex_owner w = w AND 0x3FFFFFFF"

definition valid_tid :: "tid \<Rightarrow> bool" where
  "valid_tid t \<longleftrightarrow> t \<noteq> 0 \<and> futex_owner t = t"

text \<open>
  \<open>k_acquire\<close>: a lock call of a thread may succeed on a lock word and leave another one;
  \<open>k_mark\<close>: a lock call that blocks or fails may change the word so; \<open>k_release\<close>: an unlock call
  may leave this word and hand the lock to this one of the blocked threads, if any; \<open>k_wake\<close>: a
  wake call for so many of the sleeping threads may wake these.
\<close>

record kernel =
  k_acquire :: "tid \<Rightarrow> 32 word \<Rightarrow> 32 word \<Rightarrow> bool"
  k_mark :: "tid \<Rightarrow> 32 word \<Rightarrow> 32 word \<Rightarrow> bool"
  k_release :: "tid \<Rightarrow> tid list \<Rightarrow> 32 word \<Rightarrow> 32 word \<Rightarrow> tid option \<Rightarrow> bool"
  k_wake :: "int \<Rightarrow> tid list \<Rightarrow> tid list \<Rightarrow> bool"

definition kernel_ok :: "kernel \<Rightarrow> bool" where
  "kernel_ok K \<longleftrightarrow>
     (\<forall>t w w'. k_acquire K t w w' \<longrightarrow> futex_owner w = 0 \<and> futex_owner w' = t) \<and>
     (\<forall>t w w'. k_mark K t w w' \<longrightarrow> futex_owner w' = futex_owner w) \<and>
     (\<forall>t q w w'. k_release K t q w w' None \<longrightarrow>
        (if futex_owner w = t then futex_owner w' = 0 else w' = w)) \<and>
     (\<forall>t q w w' u. k_release K t q w w' (Some u) \<longrightarrow>
        futex_owner w = t \<and> u \<in> set q \<and> futex_owner w' = u) \<and>
     (\<forall>n q ws. k_wake K n q ws \<longrightarrow>
        distinct ws \<and> set ws \<subseteq> set q \<and> length ws = min (nat n) (length q))"

section \<open>States\<close>

text \<open>What a lock call is for: \<open>lock\<close>, the end of a wait (timed out or not), \<open>try_lock_until\<close>.\<close>

datatype purpose = For_Lock | For_Wait bool | For_Until

text \<open>
  Program counters. \<open>Out\<close> and \<open>Held\<close> are outside of all calls, without and with the guard (and the
  result of the wait that just ended). The flag of an unlock says whether it is the first part of
  a wait, and whether this has a timeout; that of a notification, whether the guard is held.
\<close>

datatype pc =
    Out | Held "bool option"
  | Check_Blocked purpose | Parked purpose | Cas purpose | Lock_Pi purpose | is_Queued: Queued purpose
  | Try_Check | Try_Cas | Try_Pi
  | Unlock_Cas "bool option" | Unlock_Pi "bool option"
  | Wait_Count bool | Wait_Is_Blocked bool | Wait_Is_Locked bool
  | Wait_Enter bool | is_Asleep: Asleep bool | Wait_Leave bool
  | One_Load bool nat | One_Wake bool nat | One_Sleep bool nat
  | All_Load bool nat | All_Wake bool nat int | All_Sleep bool nat
  | Panicked

record pi_state =
  futex_word :: "32 word"
  lock_blocked :: bool
  lock_queue :: "tid list"
  waiters :: int
  fx :: "32 word"
  fx_queue :: "tid list"
  pcs :: "tid \<Rightarrow> pc"

definition pi_new :: pi_state where
  "pi_new = \<lparr> futex_word = 0, lock_blocked = False, lock_queue = [], waiters = 0, fx = 0,
     fx_queue = [], pcs = (\<lambda>_. Out) \<rparr>"

definition goto :: "tid \<Rightarrow> pc \<Rightarrow> pi_state \<Rightarrow> pi_state" where
  [simp]: "goto t c s = s\<lparr> pcs := (pcs s)(t := c) \<rparr>"

fun result_of :: "purpose \<Rightarrow> bool option" where
  "result_of (For_Wait timed_out) = Some timed_out"
| "result_of _ = None"

text \<open>The counter of the waiters is an \<open>AtomicI32\<close>, which wraps around.\<close>

definition i32_wrap :: "int \<Rightarrow> int" where
  "i32_wrap x = (x + 2 ^ 31) mod 2 ^ 32 - 2 ^ 31"

lemma i32_wrap_id [simp]: "- (2 ^ 31) \<le> x \<Longrightarrow> x < 2 ^ 31 \<Longrightarrow> i32_wrap x = x"
  by (simp add: i32_wrap_def)

section \<open>The lock\<close>

text \<open>What a system call gives back, besides the plain steps \<open>Go\<close> that make none.\<close>

datatype answer = Go | Acquired "32 word" | Blocks "32 word" | Fails "32 word" | Times_Out
  | Released "32 word" "tid option" | Interrupted | Returns | Woke "tid list"

fun lock_step :: "kernel \<Rightarrow> tid \<Rightarrow> pc \<Rightarrow> answer \<Rightarrow> pi_state \<Rightarrow> pi_state option" where
  "lock_step K t (Check_Blocked p) a s =
     (case a of Go \<Rightarrow> Some (goto t (if lock_blocked s then Parked p else Cas p) s) | _ \<Rightarrow> None)"
| "lock_step K t (Parked p) a s = (case a of Go \<Rightarrow> Some s | _ \<Rightarrow> None)"
| "lock_step K t (Cas p) a s =
     (case a of
        Go \<Rightarrow> Some (if futex_word s = 0 then goto t (Held (result_of p)) (s\<lparr> futex_word := t \<rparr>)
                   else goto t (Lock_Pi p) s)
      | _ \<Rightarrow> None)"
| "lock_step K t (Lock_Pi p) a s =
     (case a of
        Acquired w \<Rightarrow> if k_acquire K t (futex_word s) w
          then Some (goto t (Held (result_of p)) (s\<lparr> futex_word := w \<rparr>)) else None
      | Blocks w \<Rightarrow> if k_mark K t (futex_word s) w
          then Some (goto t (Queued p) (s\<lparr> futex_word := w, lock_queue := lock_queue s @ [t] \<rparr>)) else None
      | Fails w \<Rightarrow> if k_mark K t (futex_word s) w then Some (s\<lparr> futex_word := w \<rparr>) else None
      | Times_Out \<Rightarrow> if p = For_Until then Some (goto t Out s) else None
      | _ \<Rightarrow> None)"
| "lock_step K t (Queued p) a s =
     (case a of
        Acquired w \<Rightarrow> if k_acquire K t (futex_word s) w
          then Some (goto t (Held (result_of p)) (s\<lparr> futex_word := w, lock_queue := remove1 t (lock_queue s) \<rparr>))
          else None
      | Fails w \<Rightarrow> if k_mark K t (futex_word s) w
          then Some (goto t (Lock_Pi p) (s\<lparr> futex_word := w, lock_queue := remove1 t (lock_queue s) \<rparr>)) else None
      | Times_Out \<Rightarrow> if p = For_Until
          then Some (goto t Out (s\<lparr> lock_queue := remove1 t (lock_queue s) \<rparr>)) else None
      | _ \<Rightarrow> None)"
| "lock_step K t _ a s = None"

fun try_lock_step :: "kernel \<Rightarrow> tid \<Rightarrow> pc \<Rightarrow> answer \<Rightarrow> pi_state \<Rightarrow> pi_state option" where
  "try_lock_step K t Try_Check a s =
     (case a of Go \<Rightarrow> Some (goto t (if lock_blocked s then Out else Try_Cas) s) | _ \<Rightarrow> None)"
| "try_lock_step K t Try_Cas a s =
     (case a of
        Go \<Rightarrow> Some (if futex_word s = 0 then goto t (Held None) (s\<lparr> futex_word := t \<rparr>) else goto t Try_Pi s)
      | _ \<Rightarrow> None)"
| "try_lock_step K t Try_Pi a s =
     (case a of
        Acquired w \<Rightarrow> if k_acquire K t (futex_word s) w
          then Some (goto t (Held None) (s\<lparr> futex_word := w \<rparr>)) else None
      | Fails w \<Rightarrow> if k_mark K t (futex_word s) w
          then Some (goto t Out (s\<lparr> futex_word := w \<rparr>)) else None
      | _ \<Rightarrow> None)"
| "try_lock_step K t _ a s = None"

text \<open>After an unlock a wait goes on to the futex of the condition variable.\<close>

fun unlocked :: "bool option \<Rightarrow> pc" where
  "unlocked None = Out"
| "unlocked (Some timed) = Wait_Enter timed"

text \<open>When the kernel hands the lock over, the blocked call of its new owner returns.\<close>

definition hand_over :: "tid \<Rightarrow> pi_state \<Rightarrow> pi_state" where
  "hand_over u s = (case pcs s u of
     Queued p \<Rightarrow> goto u (Held (result_of p)) (s\<lparr> lock_queue := remove1 u (lock_queue s) \<rparr>) | _ \<Rightarrow> s)"

fun unlock_step :: "kernel \<Rightarrow> tid \<Rightarrow> pc \<Rightarrow> answer \<Rightarrow> pi_state \<Rightarrow> pi_state option" where
  "unlock_step K t (Unlock_Cas k) a s =
     (case a of
        Go \<Rightarrow> Some (if futex_word s = t then goto t (unlocked k) (s\<lparr> futex_word := 0 \<rparr>)
                   else goto t (Unlock_Pi k) s)
      | _ \<Rightarrow> None)"
| "unlock_step K t (Unlock_Pi k) a s =
     (case a of
        Released w u \<Rightarrow> if k_release K t (lock_queue s) (futex_word s) w u
          then Some ((case u of None \<Rightarrow> id | Some u \<Rightarrow> hand_over u) (goto t (unlocked k) (s\<lparr> futex_word := w \<rparr>)))
          else None
      | _ \<Rightarrow> None)"
| "unlock_step K t _ a s = None"

section \<open>The condition variable\<close>

fun wait_step :: "tid \<Rightarrow> pc \<Rightarrow> answer \<Rightarrow> pi_state \<Rightarrow> pi_state option" where
  "wait_step t (Wait_Count timed) a s =
     (case a of
        Go \<Rightarrow> Some (goto t (if waiters s < 2 ^ 31 - 1 then Wait_Is_Blocked timed else Panicked)
                (s\<lparr> waiters := i32_wrap (waiters s + 1) \<rparr>))
      | _ \<Rightarrow> None)"
| "wait_step t (Wait_Is_Blocked timed) a s =
     (case a of
        Go \<Rightarrow> Some (goto t (if lock_blocked s then Unlock_Cas (Some timed) else Wait_Is_Locked timed) s)
      | _ \<Rightarrow> None)"
| "wait_step t (Wait_Is_Locked timed) a s =
     (case a of
        Go \<Rightarrow> Some (goto t (if futex_word s \<noteq> 0 then Unlock_Cas (Some timed) else Wait_Enter timed) s)
      | _ \<Rightarrow> None)"
| "wait_step t (Wait_Enter timed) a s =
     (case a of
        Go \<Rightarrow> Some (if fx s = 0 then goto t (Asleep timed) (s\<lparr> fx_queue := fx_queue s @ [t] \<rparr>)
                   else goto t Panicked s)
      | Times_Out \<Rightarrow> if timed then Some (goto t (Wait_Leave True) s) else None
      | _ \<Rightarrow> None)"
| "wait_step t (Asleep timed) a s =
     (case a of
        Interrupted \<Rightarrow> Some (goto t (Wait_Enter timed) (s\<lparr> fx_queue := remove1 t (fx_queue s) \<rparr>))
      | Returns \<Rightarrow> Some (goto t (Wait_Leave False) (s\<lparr> fx_queue := remove1 t (fx_queue s) \<rparr>))
      | Times_Out \<Rightarrow> if timed
          then Some (goto t (Wait_Leave True) (s\<lparr> fx_queue := remove1 t (fx_queue s) \<rparr>)) else None
      | _ \<Rightarrow> None)"
| "wait_step t (Wait_Leave timed_out) a s =
     (case a of
        Go \<Rightarrow> Some (goto t (Check_Blocked (For_Wait timed_out)) (s\<lparr> waiters := i32_wrap (waiters s - 1) \<rparr>))
      | _ \<Rightarrow> None)"
| "wait_step t _ a s = None"

text \<open>Woken threads return from their futex call.\<close>

definition woken_up :: "tid list \<Rightarrow> pi_state \<Rightarrow> pi_state" where
  "woken_up ws s = s\<lparr> fx_queue := filter (\<lambda>u. u \<notin> set ws) (fx_queue s),
     pcs := (\<lambda>u. if u \<in> set ws then Wait_Leave False else pcs s u) \<rparr>"

definition backoff_new :: nat where
  "backoff_new = 50"

definition backoff :: "nat \<Rightarrow> nat" where
  "backoff n = (if n < 200 then n + 25 else n)"

definition returned :: "bool \<Rightarrow> pc" where
  "returned held = (if held then Held None else Out)"

fun notify_one_step :: "kernel \<Rightarrow> tid \<Rightarrow> pc \<Rightarrow> answer \<Rightarrow> pi_state \<Rightarrow> pi_state option" where
  "notify_one_step K t (One_Load held n) a s =
     (case a of Go \<Rightarrow> Some (goto t (if waiters s > 0 then One_Wake held n else returned held) s) | _ \<Rightarrow> None)"
| "notify_one_step K t (One_Wake held n) a s =
     (case a of
        Woke ws \<Rightarrow> if k_wake K 1 (fx_queue s) ws
          then Some (goto t (if length ws = 0 then One_Sleep held n else returned held) (woken_up ws s)) else None
      | _ \<Rightarrow> None)"
| "notify_one_step K t (One_Sleep held n) a s =
     (case a of Go \<Rightarrow> Some (goto t (One_Load held (backoff n)) s) | _ \<Rightarrow> None)"
| "notify_one_step K t _ a s = None"

fun notify_all_step :: "kernel \<Rightarrow> tid \<Rightarrow> pc \<Rightarrow> answer \<Rightarrow> pi_state \<Rightarrow> pi_state option" where
  "notify_all_step K t (All_Load held n) a s =
     (case a of
        Go \<Rightarrow> Some (goto t (if waiters s = 0 then returned held else All_Wake held n (waiters s)) s)
      | _ \<Rightarrow> None)"
| "notify_all_step K t (All_Wake held n to_wake) a s =
     (case a of
        Woke ws \<Rightarrow> if k_wake K to_wake (fx_queue s) ws
          then Some (goto t (if int (length ws) = to_wake then returned held else All_Sleep held n) (woken_up ws s))
          else None
      | _ \<Rightarrow> None)"
| "notify_all_step K t (All_Sleep held n) a s =
     (case a of Go \<Rightarrow> Some (goto t (All_Load held (backoff n)) s) | _ \<Rightarrow> None)"
| "notify_all_step K t _ a s = None"

section \<open>Clients and runs\<close>

text \<open>
  What a client calls: a thread without the guard may lock, one with the guard may drop it, wait,
  block the mutex for ever, or send the guard to another thread (it is \<open>GuardSend\<close>); both may notify.
\<close>

datatype pi_op = Do_Lock | Do_Try_Lock | Do_Try_Lock_Until | Do_Unlock | Do_Block_Forever
  | Do_Wait | Do_Wait_For | Do_Notify_One | Do_Notify_All | Do_Send tid

fun call_without_guard :: "pi_op \<Rightarrow> pc option" where
  "call_without_guard Do_Lock = Some (Check_Blocked For_Lock)"
| "call_without_guard Do_Try_Lock = Some Try_Check"
| "call_without_guard Do_Try_Lock_Until = Some (Cas For_Until)"
| "call_without_guard Do_Notify_One = Some (One_Load False backoff_new)"
| "call_without_guard Do_Notify_All = Some (All_Load False backoff_new)"
| "call_without_guard _ = None"

fun call_with_guard :: "pi_op \<Rightarrow> pc option" where
  "call_with_guard Do_Unlock = Some (Unlock_Cas None)"
| "call_with_guard Do_Wait = Some (Wait_Count False)"
| "call_with_guard Do_Wait_For = Some (Wait_Count True)"
| "call_with_guard Do_Notify_One = Some (One_Load True backoff_new)"
| "call_with_guard Do_Notify_All = Some (All_Load True backoff_new)"
| "call_with_guard _ = None"

definition block_forever :: "tid \<Rightarrow> pi_state \<Rightarrow> pi_state" where
  "block_forever t s = goto t Out (s\<lparr> lock_blocked := True \<rparr>)"

definition send_guard :: "tid \<Rightarrow> tid \<Rightarrow> pi_state \<Rightarrow> pi_state option" where
  "send_guard t u s = (if pcs s u = Out \<and> valid_tid u then Some (goto u (pcs s t) (goto t Out s)) else None)"

definition begin_call :: "tid \<Rightarrow> pi_op \<Rightarrow> pi_state \<Rightarrow> pi_state option" where
  "begin_call t op s =
     (case pcs s t of
        Out \<Rightarrow> map_option (\<lambda>c. goto t c s) (call_without_guard op)
      | Held r \<Rightarrow>
          (case op of
             Do_Block_Forever \<Rightarrow> Some (block_forever t s)
           | Do_Send u \<Rightarrow> send_guard t u s
           | _ \<Rightarrow> map_option (\<lambda>c. goto t c s) (call_with_guard op))
      | _ \<Rightarrow> None)"

lemma call_pcs:
  "call_without_guard op = Some c \<Longrightarrow> \<not> is_Queued c \<and> \<not> is_Asleep c \<and> c \<noteq> Panicked"
  "call_with_guard op = Some c \<Longrightarrow> \<not> is_Queued c \<and> \<not> is_Asleep c \<and> c \<noteq> Panicked"
  by (cases op; clarsimp)+

lemma begin_call_cases:
  assumes "begin_call t op s = Some s'"
  obtains (without) c where "pcs s t = Out" and "call_without_guard op = Some c" and "s' = goto t c s"
    | (with_guard) r c where "pcs s t = Held r" and "call_with_guard op = Some c" and "s' = goto t c s"
    | (block) r where "pcs s t = Held r" and "op = Do_Block_Forever" and "s' = block_forever t s"
    | (send) r u where "pcs s t = Held r" and "op = Do_Send u" and "pcs s u = Out" and "valid_tid u"
        and "s' = goto u (Held r) (goto t Out s)"
proof (cases "pcs s t")
  case Out
  with assms without show thesis by (auto simp: begin_call_def)
next
  case (Held r)
  then show thesis
    using assms with_guard block send
    by (cases op) (auto simp: begin_call_def send_guard_def split: if_splits)
qed (use assms in \<open>simp_all add: begin_call_def\<close>)

definition inner_step :: "kernel \<Rightarrow> tid \<Rightarrow> answer \<Rightarrow> pi_state \<Rightarrow> pi_state option" where
  "inner_step K t a s =
     (case lock_step K t (pcs s t) a s of
        Some s' \<Rightarrow> Some s'
      | None \<Rightarrow> (case try_lock_step K t (pcs s t) a s of
          Some s' \<Rightarrow> Some s'
        | None \<Rightarrow> (case unlock_step K t (pcs s t) a s of
            Some s' \<Rightarrow> Some s'
          | None \<Rightarrow> (case wait_step t (pcs s t) a s of
              Some s' \<Rightarrow> Some s'
            | None \<Rightarrow> (case notify_one_step K t (pcs s t) a s of
                Some s' \<Rightarrow> Some s'
              | None \<Rightarrow> notify_all_step K t (pcs s t) a s)))))"

datatype pi_action = Begin tid pi_op | Moves tid answer

fun pi_act :: "kernel \<Rightarrow> pi_action \<Rightarrow> pi_state \<Rightarrow> pi_state option" where
  "pi_act K (Begin t op) s = (if valid_tid t then begin_call t op s else None)"
| "pi_act K (Moves t a) s = inner_step K t a s"

fun pi_run :: "kernel \<Rightarrow> pi_action list \<Rightarrow> pi_state \<Rightarrow> pi_state option" where
  "pi_run K [] s = Some s"
| "pi_run K (x # xs) s = Option.bind (pi_act K x s) (pi_run K xs)"

text \<open>Each part moves a few of the program counters only.\<close>

fun_cases lock_step_elim: "lock_step K t c a s = Some s'"
fun_cases try_lock_step_elim: "try_lock_step K t c a s = Some s'"
fun_cases unlock_step_elim: "unlock_step K t c a s = Some s'"
fun_cases wait_step_elim: "wait_step t c a s = Some s'"
fun_cases notify_one_step_elim: "notify_one_step K t c a s = Some s'"
fun_cases notify_all_step_elim: "notify_all_step K t c a s = Some s'"

section \<open>Queues\<close>

definition queues_ok :: "pi_state \<Rightarrow> bool" where
  "queues_ok s \<longleftrightarrow> distinct (lock_queue s) \<and> set (lock_queue s) = {t. is_Queued (pcs s t)} \<and>
     distinct (fx_queue s) \<and> set (fx_queue s) = {t. is_Asleep (pcs s t)} \<and>
     (\<forall>t. pcs s t \<noteq> Out \<longrightarrow> valid_tid t)"

lemma distinct_set_remove1: "distinct xs \<Longrightarrow> set (remove1 x xs) = set xs - {x}"
  by simp

lemma kernel_okD:
  assumes "kernel_ok K"
  shows "k_acquire K t w w' \<Longrightarrow> futex_owner w = 0 \<and> futex_owner w' = t"
    and "k_mark K t w w' \<Longrightarrow> futex_owner w' = futex_owner w"
    and "k_release K t q w w' None \<Longrightarrow> if futex_owner w = t then futex_owner w' = 0 else w' = w"
    and "k_release K t q w w' (Some u) \<Longrightarrow> futex_owner w = t \<and> u \<in> set q \<and> futex_owner w' = u"
    and "k_wake K n q ws \<Longrightarrow> distinct ws \<and> set ws \<subseteq> set q \<and> length ws = min (nat n) (length q)"
  using assms by (simp_all add: kernel_ok_def)

lemma lock_step_queues:
  "lock_step K t (pcs s t) a s = Some s' \<Longrightarrow> queues_ok s \<Longrightarrow> queues_ok s'"
  by (elim lock_step_elim; cases a) (auto simp: queues_ok_def split: if_splits)

lemma try_lock_step_queues:
  "try_lock_step K t (pcs s t) a s = Some s' \<Longrightarrow> queues_ok s \<Longrightarrow> queues_ok s'"
  by (elim try_lock_step_elim; cases a) (auto simp: queues_ok_def split: if_splits)

lemma wait_step_queues:
  "wait_step t (pcs s t) a s = Some s' \<Longrightarrow> queues_ok s \<Longrightarrow> queues_ok s'"
  by (elim wait_step_elim; cases a) (auto simp: queues_ok_def split: if_splits)

lemma unlocked_simps [simp]: "\<not> is_Queued (unlocked k)" "\<not> is_Asleep (unlocked k)" "unlocked k \<noteq> Panicked"
  by (cases k; simp)+

lemma returned_simps [simp]: "\<not> is_Queued (returned h)" "\<not> is_Asleep (returned h)" "returned h \<noteq> Panicked"
  by (simp_all add: returned_def)

lemma hand_over_queues: "queues_ok s \<Longrightarrow> queues_ok (hand_over u s)"
  by (cases "pcs s u") (auto simp: queues_ok_def hand_over_def)

lemma goto_queues:
  "queues_ok s \<Longrightarrow> \<not> is_Queued (pcs s t) \<Longrightarrow> \<not> is_Asleep (pcs s t) \<Longrightarrow> pcs s t \<noteq> Out \<Longrightarrow>
   \<not> is_Queued c \<Longrightarrow> \<not> is_Asleep c \<Longrightarrow> queues_ok (s\<lparr> pcs := (pcs s)(t := c) \<rparr>)"
  "queues_ok s \<Longrightarrow> \<not> is_Queued (pcs s t) \<Longrightarrow> \<not> is_Asleep (pcs s t) \<Longrightarrow> pcs s t \<noteq> Out \<Longrightarrow>
   \<not> is_Queued c \<Longrightarrow> \<not> is_Asleep c \<Longrightarrow> queues_ok (s\<lparr> futex_word := w, pcs := (pcs s)(t := c) \<rparr>)"
  by (auto simp: queues_ok_def)

lemma unlock_step_queues:
  assumes "unlock_step K t (pcs s t) a s = Some s'" and "queues_ok s"
  shows "queues_ok s'"
proof (cases "pcs s t")
  case (Unlock_Cas k)
  with assms show ?thesis by (cases a) (auto intro!: goto_queues)
next
  case (Unlock_Pi k)
  with assms(1) obtain w u where s': "s' = (case u of None \<Rightarrow> id | Some u \<Rightarrow> hand_over u)
      (s\<lparr> futex_word := w, pcs := (pcs s)(t := unlocked k) \<rparr>)"
    by (cases a) (auto split: if_splits)
  have "queues_ok (s\<lparr> futex_word := w, pcs := (pcs s)(t := unlocked k) \<rparr>)"
    by (rule goto_queues(2) [OF assms(2)]) (simp_all add: Unlock_Pi)
  then show ?thesis unfolding s' by (cases u) (simp_all add: hand_over_queues)
qed (use assms in simp_all)

lemma woken_up_queues:
  assumes "queues_ok s" and "set ws \<subseteq> set (fx_queue s)"
  shows "queues_ok (woken_up ws s)"
proof -
  from assms have ws: "is_Asleep (pcs s u)" if "u \<in> set ws" for u using that by (auto simp: queues_ok_def)
  then have "valid_tid u" "\<not> is_Queued (pcs s u)" if "u \<in> set ws" for u
    using that assms(1) by (cases "pcs s u"; force simp: queues_ok_def)+
  with assms(1) show ?thesis by (auto simp: queues_ok_def woken_up_def)
qed

text \<open>A notifying thread is not asleep itself, so that its wake call does not touch it.\<close>

lemma woken_up_self:
  assumes "queues_ok s" and "k_wake K n (fx_queue s) ws" and "kernel_ok K" and "\<not> is_Asleep (pcs s t)"
  shows "pcs (woken_up ws s) t = pcs s t" and "queues_ok (woken_up ws s)"
proof -
  from kernel_okD(5) [OF assms(3,2)] have ws: "set ws \<subseteq> set (fx_queue s)" by blast
  with assms(1,4) show "pcs (woken_up ws s) t = pcs s t" by (auto simp: queues_ok_def woken_up_def)
  from woken_up_queues [OF assms(1) ws] show "queues_ok (woken_up ws s)" .
qed

lemma notify_step_queues:
  assumes "notify_one_step K t (pcs s t) a s = Some s' \<or> notify_all_step K t (pcs s t) a s = Some s'"
    and "kernel_ok K" and "queues_ok s"
  shows "queues_ok s'"
  using assms(1)
proof
  assume "notify_one_step K t (pcs s t) a s = Some s'"
  with assms(2,3) woken_up_self [of s K _ _ t] show ?thesis
    by (elim notify_one_step_elim; cases a) (auto intro!: goto_queues split: if_splits)
next
  assume "notify_all_step K t (pcs s t) a s = Some s'"
  with assms(2,3) woken_up_self [of s K _ _ t] show ?thesis
    by (elim notify_all_step_elim; cases a) (auto intro!: goto_queues split: if_splits)
qed

lemma begin_call_queues:
  assumes "begin_call t op s = Some s'" and "valid_tid t" and "queues_ok s"
  shows "queues_ok s'"
  using assms(1)
proof (cases rule: begin_call_cases)
  case (without c)
  with call_pcs(1) [of op c] assms(2,3) show ?thesis by (auto simp: queues_ok_def)
next
  case (with_guard r c)
  with call_pcs(2) [of op c] assms(2,3) show ?thesis by (auto simp: queues_ok_def)
next
  case (block r)
  with assms(2,3) show ?thesis by (auto simp: queues_ok_def block_forever_def)
next
  case (send r u)
  with assms(2,3) show ?thesis by (auto simp: queues_ok_def)
qed

lemma inner_step_in_call: "inner_step K t a s = Some s' \<Longrightarrow> pcs s t \<noteq> Out"
  by (rule notI) (simp add: inner_step_def)

text \<open>A step of a thread in a call is a step of exactly one of the parts.\<close>

lemma inner_step_cases:
  assumes "inner_step K t a s = Some s'"
  obtains (lock) "lock_step K t (pcs s t) a s = Some s'"
    | (try_lock) "try_lock_step K t (pcs s t) a s = Some s'"
    | (unlock) "unlock_step K t (pcs s t) a s = Some s'"
    | (wait) "wait_step t (pcs s t) a s = Some s'"
    | (notify_one) "notify_one_step K t (pcs s t) a s = Some s'"
    | (notify_all) "notify_all_step K t (pcs s t) a s = Some s'"
  using assms unfolding inner_step_def by (auto split: option.splits)

lemma act_queues:
  assumes "pi_act K x s = Some s'" and "kernel_ok K" and "queues_ok s"
  shows "queues_ok s'"
proof (cases x)
  case (Begin t op)
  with assms show ?thesis by (auto intro: begin_call_queues split: if_splits)
next
  case (Moves t a)
  with assms(1) have "inner_step K t a s = Some s'" by simp
  then show ?thesis
    using assms(2,3)
    by (cases rule: inner_step_cases)
      (blast intro: lock_step_queues try_lock_step_queues unlock_step_queues wait_step_queues notify_step_queues)+
qed

lemma start_queues: "queues_ok pi_new"
  by (simp add: queues_ok_def pi_new_def)

text \<open>An invariant of all actions holds along every run.\<close>

lemma run_invariant:
  assumes "\<And>x s s'. pi_act K x s = Some s' \<Longrightarrow> P s \<Longrightarrow> good x \<Longrightarrow> P s'"
    and "pi_run K xs s = Some s'" and "P s" and "list_all good xs"
  shows "P s'"
  using assms(2-4)
proof (induction xs arbitrary: s)
  case (Cons x xs)
  then obtain s1 where s1: "pi_act K x s = Some s1" "pi_run K xs s1 = Some s'"
    by (auto simp: bind_eq_Some_conv)
  from Cons.prems have "good x" "list_all good xs" by simp_all
  with Cons.IH [OF s1(2) assms(1) [OF s1(1) Cons.prems(2)]] show ?case by simp
qed simp

end
