(* ===== verification/Pi_Mutex.thy ===== *)
theory Pi_Mutex
  imports Pi_Lock
begin

text \<open>
  The mutex of theory \<open>Pi_Lock\<close>: who holds the guard, what the lock word says about it, and what
  becomes of a mutex whose guard is sent away, or that is blocked for ever.
\<close>

section \<open>Who holds the guard\<close>

fun has_guard :: "pc \<Rightarrow> bool" where
  "has_guard (Held r) = True"
| "has_guard (Unlock_Cas k) = True"
| "has_guard (Unlock_Pi k) = True"
| "has_guard (Wait_Count b) = True"
| "has_guard (Wait_Is_Blocked b) = True"
| "has_guard (Wait_Is_Locked b) = True"
| "has_guard (One_Load h n) = h"
| "has_guard (One_Wake h n) = h"
| "has_guard (One_Sleep h n) = h"
| "has_guard (All_Load h n) = h"
| "has_guard (All_Wake h n k) = h"
| "has_guard (All_Sleep h n) = h"
| "has_guard _ = False"

definition guards :: "pi_state \<Rightarrow> tid set" where
  "guards s = {t. has_guard (pcs s t)}"

definition lock_owner :: "pi_state \<Rightarrow> tid" where
  "lock_owner s = futex_owner (futex_word s)"

lemma futex_owner_simps [simp]: "futex_owner 0 = 0" "valid_tid t \<Longrightarrow> futex_owner t = t" "\<not> valid_tid 0"
  by (simp_all add: futex_owner_def valid_tid_def)

lemma has_guard_simps [simp]: "\<not> has_guard (unlocked k)" "has_guard (returned h) = h"
  by (cases k; simp) (simp add: returned_def)

text \<open>What a step does to the guards and to the owner in the lock word.\<close>

definition keeps :: "pi_state \<Rightarrow> pi_state \<Rightarrow> bool" where
  "keeps s s' \<longleftrightarrow> guards s' = guards s \<and> lock_owner s' = lock_owner s"

definition acquires :: "tid \<Rightarrow> pi_state \<Rightarrow> pi_state \<Rightarrow> bool" where
  "acquires t s s' \<longleftrightarrow> lock_owner s = 0 \<and> guards s' = insert t (guards s) \<and> lock_owner s' = t \<and> t \<noteq> 0"

definition releases :: "tid \<Rightarrow> pi_state \<Rightarrow> pi_state \<Rightarrow> bool" where
  "releases t s s' \<longleftrightarrow> t \<in> guards s \<and> guards s' = guards s - {t} \<and>
     lock_owner s' = (if lock_owner s = t then 0 else lock_owner s)"

definition leaks :: "tid \<Rightarrow> pi_state \<Rightarrow> pi_state \<Rightarrow> bool" where
  "leaks t s s' \<longleftrightarrow> t \<in> guards s \<and> guards s' = guards s - {t} \<and> lock_owner s' = lock_owner s"

definition passes :: "tid \<Rightarrow> tid \<Rightarrow> pi_state \<Rightarrow> pi_state \<Rightarrow> bool" where
  "passes t u s s' \<longleftrightarrow> t \<in> guards s \<and> lock_owner s = t \<and> guards s' = insert u (guards s - {t}) \<and>
     lock_owner s' = u \<and> u \<noteq> 0"

lemma in_guards: "t \<in> guards s \<longleftrightarrow> has_guard (pcs s t)"
  by (simp add: guards_def)

text \<open>Most steps change one program counter; such a step keeps, gains or gives up one guard.\<close>

definition one_moves :: "tid \<Rightarrow> pi_state \<Rightarrow> pi_state \<Rightarrow> bool" where
  "one_moves t s s' \<longleftrightarrow> (\<forall>u. u \<noteq> t \<longrightarrow> pcs s' u = pcs s u)"

lemma one_moves_goto [simp]:
  "one_moves t s (s\<lparr> pcs := (pcs s)(t := c) \<rparr>)"
  "one_moves t s (s\<lparr> futex_word := w, pcs := (pcs s)(t := c) \<rparr>)"
  "one_moves t s (s\<lparr> lock_queue := q, pcs := (pcs s)(t := c) \<rparr>)"
  "one_moves t s (s\<lparr> futex_word := w, lock_queue := q, pcs := (pcs s)(t := c) \<rparr>)"
  "one_moves t s (s\<lparr> fx_queue := q, pcs := (pcs s)(t := c) \<rparr>)"
  "one_moves t s (s\<lparr> waiters := n, pcs := (pcs s)(t := c) \<rparr>)"
  "one_moves t s (s\<lparr> lock_blocked := b, pcs := (pcs s)(t := c) \<rparr>)"
  "one_moves t s s" "one_moves t s (s\<lparr> futex_word := w \<rparr>)"
  by (simp_all add: one_moves_def)

lemma one_moves_guards:
  assumes "one_moves t s s'"
  shows "guards s' = (if has_guard (pcs s' t) then insert t (guards s) else guards s - {t})"
proof (rule set_eqI)
  fix u
  from assms show "u \<in> guards s' \<longleftrightarrow> u \<in> (if has_guard (pcs s' t) then insert t (guards s) else guards s - {t})"
    by (cases "u = t") (simp_all add: in_guards one_moves_def)
qed

lemma one_moves_keeps:
  assumes "one_moves t s s'" and "has_guard (pcs s' t) \<longleftrightarrow> has_guard (pcs s t)" and "lock_owner s' = lock_owner s"
  shows "keeps s s'"
  using assms one_moves_guards [OF assms(1)] by (auto simp: keeps_def in_guards)

text \<open>What happened to the guard of the moving thread, pointwise.\<close>

datatype change = Keep | Gain | Lose | Leak

definition guard_change :: "tid \<Rightarrow> pi_state \<Rightarrow> pi_state \<Rightarrow> change \<Rightarrow> bool" where
  "guard_change t s s' c \<longleftrightarrow> one_moves t s s' \<and>
     (case c of
        Keep \<Rightarrow> has_guard (pcs s' t) = has_guard (pcs s t) \<and> lock_owner s' = lock_owner s
      | Gain \<Rightarrow> has_guard (pcs s' t) \<and> lock_owner s = 0 \<and> lock_owner s' = t
      | Lose \<Rightarrow> has_guard (pcs s t) \<and> \<not> has_guard (pcs s' t) \<and>
          lock_owner s' = (if lock_owner s = t then 0 else lock_owner s)
      | Leak \<Rightarrow> has_guard (pcs s t) \<and> \<not> has_guard (pcs s' t) \<and> lock_owner s' = lock_owner s)"

lemma guard_change_moves:
  "guard_change t s s' Keep \<Longrightarrow> keeps s s'"
  "guard_change t s s' Gain \<Longrightarrow> t \<noteq> 0 \<Longrightarrow> acquires t s s'"
  "guard_change t s s' Lose \<Longrightarrow> releases t s s'"
  "guard_change t s s' Leak \<Longrightarrow> leaks t s s'"
  using one_moves_keeps one_moves_guards [of t s s']
  by (auto simp: guard_change_def acquires_def releases_def leaks_def in_guards)

lemma lock_step_change:
  assumes "lock_step K t (pcs s t) a s = Some s'" and "kernel_ok K" and "valid_tid t"
  shows "guard_change t s s' Keep \<or> guard_change t s s' Gain"
  using assms(1,3) kernel_okD(1,2) [OF assms(2)]
  by (elim lock_step_elim; cases a) (auto simp: guard_change_def lock_owner_def split: if_splits)

lemma try_lock_step_change:
  assumes "try_lock_step K t (pcs s t) a s = Some s'" and "kernel_ok K" and "valid_tid t"
  shows "guard_change t s s' Keep \<or> guard_change t s s' Gain"
  using assms(1,3) kernel_okD(1,2) [OF assms(2)]
  by (elim try_lock_step_elim; cases a) (auto simp: guard_change_def lock_owner_def split: if_splits)

lemma wait_step_change:
  assumes "wait_step t (pcs s t) a s = Some s'" and "valid_tid t"
  shows "guard_change t s s' Keep \<or> guard_change t s s' Leak \<and> pcs s' t = Panicked \<or>
    guard_change t s s' Lose \<and> lock_owner s = 0"
  using assms
  by (elim wait_step_elim; cases a) (auto simp: guard_change_def lock_owner_def split: if_splits)

lemma woken_up_keeps:
  assumes "queues_ok s" and "k_wake K n (fx_queue s) ws" and "kernel_ok K" and "pcs s t = c"
    and "\<not> is_Asleep c" and "has_guard c' = has_guard c"
  shows "keeps s (goto t c' (woken_up ws s))"
proof -
  from kernel_okD(5) [OF assms(3,2)] assms(1) have ws: "\<forall>u \<in> set ws. is_Asleep (pcs s u)"
    by (auto simp: queues_ok_def)
  have "has_guard (pcs (goto t c' (woken_up ws s)) u) = has_guard (pcs s u)" for u
  proof (cases "u \<in> set ws \<and> u \<noteq> t")
    case True
    with ws have "is_Asleep (pcs s u)" by blast
    with True show ?thesis by (cases "pcs s u") (simp_all add: woken_up_def)
  next
    case False
    with assms(4,6) show ?thesis by (auto simp: woken_up_def)
  qed
  then show ?thesis by (simp add: keeps_def guards_def lock_owner_def woken_up_def)
qed

lemma notify_step_keeps:
  assumes "notify_one_step K t (pcs s t) a s = Some s' \<or> notify_all_step K t (pcs s t) a s = Some s'"
    and "kernel_ok K" and "queues_ok s"
  shows "keeps s s'"
  using assms(1)
proof
  assume step: "notify_one_step K t (pcs s t) a s = Some s'"
  show ?thesis
  proof (cases "pcs s t")
    case (One_Wake h n)
    with step obtain ws where "k_wake K 1 (fx_queue s) ws"
      "s' = goto t (if length ws = 0 then One_Sleep h n else returned h) (woken_up ws s)"
      by (cases a) (auto split: if_splits)
    with woken_up_keeps [OF assms(3) _ assms(2) One_Wake] show ?thesis by simp
  next
    case (One_Load h n)
    with step have "guard_change t s s' Keep" by (cases a) (auto simp: guard_change_def lock_owner_def split: if_splits)
    then show ?thesis by (rule guard_change_moves)
  next
    case (One_Sleep h n)
    with step have "guard_change t s s' Keep" by (cases a) (auto simp: guard_change_def lock_owner_def split: if_splits)
    then show ?thesis by (rule guard_change_moves)
  qed (use step in simp_all)
next
  assume step: "notify_all_step K t (pcs s t) a s = Some s'"
  show ?thesis
  proof (cases "pcs s t")
    case (All_Wake h n k)
    with step obtain ws where "k_wake K k (fx_queue s) ws"
      "s' = goto t (if int (length ws) = k then returned h else All_Sleep h n) (woken_up ws s)"
      by (cases a) (auto split: if_splits)
    with woken_up_keeps [OF assms(3) _ assms(2) All_Wake] show ?thesis by simp
  next
    case (All_Load h n)
    with step have "guard_change t s s' Keep" by (cases a) (auto simp: guard_change_def lock_owner_def split: if_splits)
    then show ?thesis by (rule guard_change_moves)
  next
    case (All_Sleep h n)
    with step have "guard_change t s s' Keep" by (cases a) (auto simp: guard_change_def lock_owner_def split: if_splits)
    then show ?thesis by (rule guard_change_moves)
  qed (use step in simp_all)
qed

lemma unlock_step_change:
  assumes "unlock_step K t (pcs s t) a s = Some s'" and "kernel_ok K" and "queues_ok s" and "valid_tid t"
  shows "guard_change t s s' Keep \<or> guard_change t s s' Lose \<or> (\<exists>u. passes t u s s')"
proof (cases "pcs s t")
  case (Unlock_Cas k)
  with assms(1,4) show ?thesis
    by (cases "futex_word s = t"; cases a) (auto simp: guard_change_def lock_owner_def)
next
  case (Unlock_Pi k)
  with assms(1) obtain w next_owner where s': "s' = (case next_owner of None \<Rightarrow> id | Some u \<Rightarrow> hand_over u)
      (s\<lparr> futex_word := w, pcs := (pcs s)(t := unlocked k) \<rparr>)"
    and k: "k_release K t (lock_queue s) (futex_word s) w next_owner"
    by (cases a) (auto split: if_splits)
  show ?thesis
  proof (cases next_owner)
    case None
    with kernel_okD(3) [OF assms(2)] k s' Unlock_Pi show ?thesis
      by (fastforce simp: guard_change_def lock_owner_def split: if_splits)
  next
    case (Some u)
    with kernel_okD(4) [OF assms(2)] k have u: "lock_owner s = t" "u \<in> set (lock_queue s)" "futex_owner w = u"
      by (auto simp: lock_owner_def)
    with assms(3) have "is_Queued (pcs s u)" "pcs s u \<noteq> Out \<longrightarrow> valid_tid u" by (simp_all add: queues_ok_def)
    then obtain p where p: "pcs s u = Queued p" "valid_tid u" by (cases "pcs s u") simp_all
    with Unlock_Pi have "u \<noteq> t" by auto
    with p s' Some u Unlock_Pi have "passes t u s s'"
      by (auto simp: passes_def hand_over_def lock_owner_def guards_def valid_tid_def)
    then show ?thesis by blast
  qed
qed (use assms in simp_all)

text \<open>What an action does to the guards, with the thread that acts.\<close>

definition sends :: "tid \<Rightarrow> tid \<Rightarrow> pi_state \<Rightarrow> pi_state \<Rightarrow> bool" where
  "sends t u s s' \<longleftrightarrow> t \<in> guards s \<and> guards s' = insert u (guards s - {t}) \<and> lock_owner s' = lock_owner s"

fun acts_by :: "pi_action \<Rightarrow> tid" where
  "acts_by (Begin t op) = t"
| "acts_by (Moves t a) = t"

fun sends_guard :: "pi_action \<Rightarrow> bool" where
  "sends_guard (Begin t (Do_Send u)) = True"
| "sends_guard _ = False"

fun blocks_forever :: "pi_action \<Rightarrow> bool" where
  "blocks_forever (Begin t Do_Block_Forever) = True"
| "blocks_forever _ = False"

lemma call_guards:
  "call_without_guard op = Some c \<Longrightarrow> \<not> has_guard c"
  "call_with_guard op = Some c \<Longrightarrow> has_guard c"
  by (cases op; clarsimp)+

lemma begin_call_change:
  assumes "begin_call t op s = Some s'"
  shows "guard_change t s s' Keep \<or> op = Do_Block_Forever \<and> guard_change t s s' Leak \<or>
    (\<exists>u. op = Do_Send u \<and> sends t u s s')"
  using assms
proof (cases rule: begin_call_cases)
  case (without c)
  with call_guards(1) [of op c] have "guard_change t s s' Keep"
    by (simp add: guard_change_def lock_owner_def)
  then show ?thesis ..
next
  case (with_guard r c)
  with call_guards(2) [of op c] have "guard_change t s s' Keep"
    by (simp add: guard_change_def lock_owner_def)
  then show ?thesis ..
next
  case (block r)
  then have "guard_change t s s' Leak"
    by (simp add: guard_change_def lock_owner_def block_forever_def)
  with block(2) show ?thesis by blast
next
  case (send r u)
  then have "sends t u s s'" by (auto simp: sends_def guards_def lock_owner_def)
  with send(2) show ?thesis by blast
qed

lemma act_moves:
  assumes "pi_act K x s = Some s'" and "kernel_ok K" and "queues_ok s"
  obtains (keep) "keeps s s'"
    | (acquire) "acquires (acts_by x) s s'"
    | (release) "releases (acts_by x) s s'"
    | (pass) u where "passes (acts_by x) u s s'"
    | (leak) "leaks (acts_by x) s s'" and "blocks_forever x \<or> pcs s' (acts_by x) = Panicked"
    | (send) u where "sends (acts_by x) u s s'" and "sends_guard x"
proof (cases x)
  case (Begin t op)
  with assms(1) have "begin_call t op s = Some s'" by (simp split: if_splits)
  from begin_call_change [OF this] consider "guard_change t s s' Keep"
    | "op = Do_Block_Forever" "guard_change t s s' Leak" | u where "op = Do_Send u" "sends t u s s'" by blast
  then show thesis
    using Begin guard_change_moves keep leak send by cases simp_all
next
  case (Moves t a)
  with assms(1) have step: "inner_step K t a s = Some s'" by simp
  then have "pcs s t \<noteq> Out" by (rule inner_step_in_call)
  with assms(3) have valid: "valid_tid t" by (simp add: queues_ok_def)
  then have "t \<noteq> 0" by (simp add: valid_tid_def)
  note moves = guard_change_moves(1) guard_change_moves(2) [OF _ this] guard_change_moves(3,4)
  from step show thesis
  proof (cases rule: inner_step_cases)
    case lock
    from lock_step_change [OF lock assms(2) valid] show thesis
      using keep acquire moves Moves by auto
  next
    case try_lock
    from try_lock_step_change [OF try_lock assms(2) valid] show thesis
      using keep acquire moves Moves by auto
  next
    case unlock
    from unlock_step_change [OF unlock assms(2,3) valid] show thesis
      using keep release pass moves Moves by auto
  next
    case wait
    from wait_step_change [OF wait valid] show thesis
      using keep release leak moves Moves by auto
  next
    case notify_one
    with notify_step_keeps [OF _ assms(2,3)] keep show thesis by blast
  next
    case notify_all
    with notify_step_keeps [OF _ assms(2,3)] keep show thesis by blast
  qed
qed

section \<open>Mutual exclusion\<close>

definition exclusive :: "pi_state \<Rightarrow> bool" where
  "exclusive s \<longleftrightarrow> queues_ok s \<and> (\<exists>g. guards s \<subseteq> {g}) \<and> (lock_owner s = 0 \<longrightarrow> guards s = {})"

lemma exclusive_act:
  assumes "pi_act K x s = Some s'" and "kernel_ok K" and "exclusive s"
  shows "exclusive s'"
proof -
  from assms(3) obtain g where q: "queues_ok s" and g: "guards s \<subseteq> {g}" "lock_owner s = 0 \<longrightarrow> guards s = {}"
    by (auto simp: exclusive_def)
  from act_queues [OF assms(1,2) q] have q': "queues_ok s'" .
  from assms(1,2) q have "(\<exists>g. guards s' \<subseteq> {g}) \<and> (lock_owner s' = 0 \<longrightarrow> guards s' = {})"
  proof (cases rule: act_moves)
    case keep
    with g show ?thesis by (auto simp: keeps_def)
  next
    case acquire
    with g show ?thesis by (auto simp: acquires_def)
  next
    case release
    with g show ?thesis by (auto simp: releases_def)
  next
    case (pass u)
    with g show ?thesis by (auto simp: passes_def)
  next
    case leak
    with g show ?thesis by (auto simp: leaks_def)
  next
    case (send u)
    with g show ?thesis by (auto simp: sends_def)
  qed
  with q' show ?thesis by (simp add: exclusive_def)
qed

lemma run_exclusive:
  assumes "pi_run K xs s = Some s'" and "kernel_ok K" and "exclusive s"
  shows "exclusive s'"
  by (rule run_invariant [where P = exclusive and good = "\<lambda>_. True", OF _ assms(1,3)])
    (use exclusive_act assms(2) in \<open>auto simp: list_all_iff\<close>)

lemma start_exclusive: "exclusive pi_new"
  using start_queues by (simp add: exclusive_def guards_def pi_new_def)

lemma pi_run_append: "pi_run K (xs @ ys) s = Option.bind (pi_run K xs s) (pi_run K ys)"
proof (induction xs arbitrary: s)
  case (Cons x xs)
  then show ?case by (cases "pi_act K x s") simp_all
qed simp

text \<open>
  A kernel that answers as documented, for the concrete runs below: it hands the lock to the thread
  that blocked first, refuses the unlock of another thread than the owner, and wakes the threads
  that slept first.
\<close>

definition sample_kernel :: kernel where
  "sample_kernel = \<lparr>
     k_acquire = (\<lambda>t w w'. futex_owner w = 0 \<and> futex_owner t = t \<and> w' = t),
     k_mark = (\<lambda>t w w'. w' = w OR 0x80000000),
     k_release = (\<lambda>t q w w' u.
        if futex_owner w = t
        then (case q of [] \<Rightarrow> u = None \<and> w' = 0 | x # _ \<Rightarrow> u = Some x \<and> futex_owner x = x \<and> w' = x)
        else u = None \<and> w' = w),
     k_wake = (\<lambda>n q ws. distinct q \<and> ws = take (nat n) q) \<rparr>"

lemma sample_kernel_ok [simp]: "kernel_ok sample_kernel"
proof -
  have "futex_owner (w OR 0x80000000) = futex_owner w" for w
    by (simp add: futex_owner_def bit.conj_disj_distrib2)
  then show ?thesis
    by (auto simp: kernel_ok_def sample_kernel_def min.commute dest: in_set_takeD split: list.splits)
qed

text \<open>
  Thread 1 locks; 2 blocks in the kernel; 1 unlocks, which hands the lock to 2. In the second run
  1 sends its guard to 2, which drops it; in the third 1 blocks the mutex for ever.
\<close>

definition lock_by :: "tid \<Rightarrow> pi_action list" where
  "lock_by t = [Begin t Do_Lock, Moves t Go, Moves t Go]"

definition handed_run :: "pi_action list" where
  "handed_run = lock_by 1 @ lock_by 2 @ [Moves 2 (Blocks 0x80000001), Begin 1 Do_Unlock, Moves 1 Go,
     Moves 1 (Released 2 (Some 2))]"

definition sent_run :: "pi_action list" where
  "sent_run = lock_by 1 @ [Begin 1 (Do_Send 2), Begin 2 Do_Unlock, Moves 2 Go]"

definition pi_shows :: "pi_state \<Rightarrow> (32 word \<times> bool \<times> tid list) \<times> (int \<times> tid list) \<times> pc list" where
  "pi_shows s = ((futex_word s, lock_blocked s, lock_queue s), (waiters s, fx_queue s), map (pcs s) [1, 2, 3])"

lemma handed_run_result:
  "map_option pi_shows (pi_run sample_kernel handed_run pi_new) =
   Some ((2, False, []), (0, []), [Out, Held None, Out])"
  by code_simp

lemma sent_run_result:
  "map_option pi_shows (pi_run sample_kernel sent_run pi_new) =
   Some ((1, False, []), (0, []), [Out, Unlock_Pi None, Out])"
  by code_simp

lemma blocked_run_result:
  "map_option pi_shows (pi_run sample_kernel (lock_by 1 @ [Begin 1 Do_Block_Forever] @ lock_by 2) pi_new) =
   Some ((1, True, []), (0, []), [Out, Parked For_Lock, Out])"
  by code_simp

lemma pi_shows_pcs:
  assumes "map_option pi_shows r = Some (x, y, [c1, c2, c3])"
  obtains s where "r = Some s" and "pcs s 1 = c1" and "pcs s 2 = c2" and "pcs s 3 = c3"
    and "futex_word s = fst x"
  using assms by (auto simp: map_option_eq_Some pi_shows_def)



section \<open>Mutexes that stay locked\<close>

text \<open>Without a guard and with an owner in the lock word nobody can lock any more.\<close>

definition locked_up :: "pi_state \<Rightarrow> bool" where
  "locked_up s \<longleftrightarrow> exclusive s \<and> guards s = {} \<and> lock_owner s \<noteq> 0"

lemma locked_up_act:
  assumes "pi_act K x s = Some s'" and "kernel_ok K" and "locked_up s"
  shows "locked_up s'"
proof -
  from assms(3) have e: "exclusive s" "guards s = {}" "lock_owner s \<noteq> 0" "queues_ok s"
    by (simp_all add: locked_up_def exclusive_def)
  from assms(1,2) e(4) have "keeps s s'"
    by (cases rule: act_moves) (use e in \<open>simp_all add: acquires_def releases_def passes_def leaks_def sends_def\<close>)
  with e exclusive_act [OF assms(1,2) e(1)] show ?thesis by (simp add: locked_up_def keeps_def)
qed

lemma locked_up_run:
  assumes "pi_run K xs s = Some s'" and "kernel_ok K" and "locked_up s"
  shows "guards s' = {}"
proof -
  have "locked_up s'"
    by (rule run_invariant [where P = locked_up and good = "\<lambda>_. True", OF _ assms(1,3)])
      (use locked_up_act assms(2) in \<open>auto simp: list_all_iff\<close>)
  then show ?thesis by (simp add: locked_up_def)
qed

text \<open>A thread that gives up the guard but leaves the owner in the lock word locks the mutex up.\<close>

lemma leaks_locked_up:
  assumes "exclusive s" and "exclusive s'" and "leaks t s s'"
  shows "locked_up s'"
  using assms by (auto simp: leaks_def locked_up_def exclusive_def)





end
