(* ===== verification/Pi_Condvar.thy ===== *)
theory Pi_Condvar
  imports Pi_Mutex
begin

text \<open>
  The condition variable of theory \<open>Pi_Lock\<close>: its counter of waiters is exact, no call of it
  panics, and a notification made under the lock reaches the threads that waited when it began.
\<close>

section \<open>Threads in a wait\<close>

text \<open>
  \<open>counted\<close>: between the increment and the decrement of the counter; \<open>waits\<close>: after the unlock
  and not yet woken.
\<close>

fun counted :: "pc \<Rightarrow> bool" where
  "counted (Wait_Is_Blocked b) = True"
| "counted (Wait_Is_Locked b) = True"
| "counted (Unlock_Cas k) = (k \<noteq> None)"
| "counted (Unlock_Pi k) = (k \<noteq> None)"
| "counted (Wait_Enter b) = True"
| "counted (Asleep b) = True"
| "counted (Wait_Leave b) = True"
| "counted _ = False"

fun waits :: "pc \<Rightarrow> bool" where
  "waits (Wait_Enter b) = True"
| "waits (Asleep b) = True"
| "waits _ = False"

text \<open>The sleep of a notifying thread between two wake calls, in microseconds.\<close>

fun backoff_ok :: "pc \<Rightarrow> bool" where
  "backoff_ok (One_Load h n) = (50 \<le> n \<and> n \<le> 200 \<and> n mod 25 = 0)"
| "backoff_ok (One_Wake h n) = (50 \<le> n \<and> n \<le> 200 \<and> n mod 25 = 0)"
| "backoff_ok (One_Sleep h n) = (50 \<le> n \<and> n \<le> 200 \<and> n mod 25 = 0)"
| "backoff_ok (All_Load h n) = (50 \<le> n \<and> n \<le> 200 \<and> n mod 25 = 0)"
| "backoff_ok (All_Wake h n k) = (50 \<le> n \<and> n \<le> 200 \<and> n mod 25 = 0)"
| "backoff_ok (All_Sleep h n) = (50 \<le> n \<and> n \<le> 200 \<and> n mod 25 = 0)"
| "backoff_ok _ = True"

fun calm :: "pc \<Rightarrow> bool" where
  "calm Panicked = False"
| "calm _ = True"

definition counting :: "pi_state \<Rightarrow> tid set" where
  "counting s = {t. counted (pcs s t)}"

definition waiting :: "pi_state \<Rightarrow> tid set" where
  "waiting s = {t. waits (pcs s t)}"

lemma pc_simps [simp]:
  "\<not> counted (returned h)" "\<not> waits (returned h)" "backoff_ok (returned h)" "calm (returned h)"
  "counted (unlocked k) \<longleftrightarrow> k \<noteq> None" "waits (unlocked k) \<longleftrightarrow> k \<noteq> None" "backoff_ok (unlocked k)" "calm (unlocked k)"
  by (simp_all add: returned_def) (cases k; simp)+

lemma waiting_counting: "waiting s \<subseteq> counting s"
proof
  fix t
  assume "t \<in> waiting s"
  then show "t \<in> counting s" by (cases "pcs s t") (simp_all add: waiting_def counting_def)
qed

lemma backoff_next:
  assumes "50 \<le> n \<and> n \<le> 200 \<and> n mod 25 = 0"
  shows "50 \<le> backoff n \<and> backoff n \<le> 200 \<and> backoff n mod 25 = 0"
proof -
  from assms obtain k where k: "n = 25 * k" by (metis mod_0_imp_dvd dvdE)
  with assms show ?thesis by (auto simp: backoff_def)
qed

section \<open>Threads that do not act\<close>

text \<open>A step changes another thread only by handing it the lock or a guard, or by waking it.\<close>

definition untouched :: "pc \<Rightarrow> pc \<Rightarrow> bool" where
  "untouched c c' \<longleftrightarrow> c' = c \<or> (is_Queued c \<or> c = Out) \<and> (\<exists>r. c' = Held r) \<or> is_Asleep c \<and> c' = Wait_Leave False"

lemma untouched_facts:
  assumes "untouched c c'"
  shows "counted c' = counted c" and "waits c' \<Longrightarrow> waits c" and "backoff_ok c \<Longrightarrow> backoff_ok c'"
    and "calm c \<Longrightarrow> calm c'" and "has_guard c \<Longrightarrow> c' = c"
  using assms by (cases c; auto simp: untouched_def)+

lemma one_moves_untouched: "one_moves t s s' \<Longrightarrow> u \<noteq> t \<Longrightarrow> untouched (pcs s u) (pcs s' u)"
  by (simp add: one_moves_def untouched_def)

lemma hand_over_untouched: "untouched (pcs s u) (pcs (hand_over v s) u)"
  by (cases "pcs s v") (auto simp: hand_over_def untouched_def)

lemma woken_up_untouched:
  assumes "queues_ok s" and "k_wake K n (fx_queue s) ws" and "kernel_ok K"
  shows "untouched (pcs s u) (pcs (woken_up ws s) u)"
proof -
  from kernel_okD(5) [OF assms(3,2)] assms(1) have "\<forall>u \<in> set ws. is_Asleep (pcs s u)"
    by (auto simp: queues_ok_def)
  then show ?thesis by (auto simp: untouched_def woken_up_def)
qed

lemma guard_change_one: "guard_change t s s' c \<Longrightarrow> one_moves t s s'"
  by (simp add: guard_change_def)

text \<open>The steps of an unlock and of a notification, as a plain step after which others may move.\<close>

lemma unlock_step_form:
  assumes "unlock_step K t (pcs s t) a s = Some s'"
  obtains (stays) k where "pcs s t = Unlock_Cas k" and "s' = goto t (Unlock_Pi k) s"
    | (free) k where "pcs s t = Unlock_Cas k" and "s' = goto t (unlocked k) (s\<lparr> futex_word := 0 \<rparr>)"
    | (kernel) k w u where "pcs s t = Unlock_Pi k" and
        "s' = (case u of None \<Rightarrow> id | Some u \<Rightarrow> hand_over u) (goto t (unlocked k) (s\<lparr> futex_word := w \<rparr>))"
proof (cases "pcs s t")
  case (Unlock_Cas k)
  with assms have "s' = (if futex_word s = t then goto t (unlocked k) (s\<lparr> futex_word := 0 \<rparr>)
      else goto t (Unlock_Pi k) s)" by (cases a) simp_all
  then show thesis using stays [OF Unlock_Cas] free [OF Unlock_Cas] by (cases "futex_word s = t") simp_all
next
  case (Unlock_Pi k)
  with assms obtain w u where
    "s' = (case u of None \<Rightarrow> id | Some u \<Rightarrow> hand_over u) (goto t (unlocked k) (s\<lparr> futex_word := w \<rparr>))"
    by (cases a) (auto split: if_splits)
  then show thesis by (rule kernel [OF Unlock_Pi])
qed (use assms in simp_all)

lemma notify_one_form:
  assumes "notify_one_step K t (pcs s t) a s = Some s'"
  obtains (found) h n where "pcs s t = One_Load h n" and "waiters s > 0" and "s' = goto t (One_Wake h n) s"
    | (nobody) h n where "pcs s t = One_Load h n" and "\<not> waiters s > 0" and "s' = goto t (returned h) s"
    | (woke) h n ws where "pcs s t = One_Wake h n" and "k_wake K 1 (fx_queue s) ws" and "ws \<noteq> []"
        and "s' = goto t (returned h) (woken_up ws s)"
    | (missed) h n where "pcs s t = One_Wake h n" and "k_wake K 1 (fx_queue s) []"
        and "s' = goto t (One_Sleep h n) (woken_up [] s)"
    | (slept) h n where "pcs s t = One_Sleep h n" and "s' = goto t (One_Load h (backoff n)) s"
  using assms
proof (cases rule: notify_one_step_elim [consumes 1])
  case (1 h n)
  then have "s' = goto t (if waiters s > 0 then One_Wake h n else returned h) s" by (cases a) simp_all
  then show thesis using found [OF 1(1)] nobody [OF 1(1)] by (cases "waiters s > 0") simp_all
next
  case (2 h n)
  then obtain ws where "k_wake K 1 (fx_queue s) ws"
    "s' = goto t (if length ws = 0 then One_Sleep h n else returned h) (woken_up ws s)"
    by (cases a) (simp_all split: if_splits)
  then show thesis using woke [OF 2(1), of ws] missed [OF 2(1)] by (cases "ws = []") simp_all
next
  case (3 h n)
  then have "s' = goto t (One_Load h (backoff n)) s" by (cases a) simp_all
  then show thesis by (rule slept [OF 3(1)])
qed

lemma notify_all_form:
  assumes "notify_all_step K t (pcs s t) a s = Some s'"
  obtains (found) h n where "pcs s t = All_Load h n" and "waiters s \<noteq> 0"
        and "s' = goto t (All_Wake h n (waiters s)) s"
    | (nobody) h n where "pcs s t = All_Load h n" and "waiters s = 0" and "s' = goto t (returned h) s"
    | (woke) h n k ws where "pcs s t = All_Wake h n k" and "k_wake K k (fx_queue s) ws"
        and "int (length ws) = k" and "s' = goto t (returned h) (woken_up ws s)"
    | (missed) h n k ws where "pcs s t = All_Wake h n k" and "k_wake K k (fx_queue s) ws"
        and "s' = goto t (All_Sleep h n) (woken_up ws s)"
    | (slept) h n where "pcs s t = All_Sleep h n" and "s' = goto t (All_Load h (backoff n)) s"
  using assms
proof (cases rule: notify_all_step_elim [consumes 1])
  case (1 h n)
  then have "s' = goto t (if waiters s = 0 then returned h else All_Wake h n (waiters s)) s"
    by (cases a) simp_all
  then show thesis using found [OF 1(1)] nobody [OF 1(1)] by (cases "waiters s = 0") simp_all
next
  case (2 h n k)
  then obtain ws where ws: "k_wake K k (fx_queue s) ws"
    "s' = goto t (if int (length ws) = k then returned h else All_Sleep h n) (woken_up ws s)"
    by (cases a) (simp_all split: if_splits)
  show thesis
  proof (cases "int (length ws) = k")
    case True
    show thesis by (rule woke [OF 2(1) ws(1) True]) (use ws(2) True in simp)
  next
    case False
    show thesis by (rule missed [OF 2(1) ws(1)]) (use ws(2) False in simp)
  qed
next
  case (3 h n)
  then have "s' = goto t (All_Load h (backoff n)) s" by (cases a) simp_all
  then show thesis by (rule slept [OF 3(1)])
qed

text \<open>So every action leaves the other threads as they are, or hands them something, or wakes them.\<close>

lemma untouched_refl [simp]: "untouched c c"
  by (simp add: untouched_def)

lemma woken_goto_untouched:
  assumes "queues_ok s" and "k_wake K n (fx_queue s) ws" and "kernel_ok K" and "u \<noteq> t"
  shows "untouched (pcs s u) (pcs (goto t c (woken_up ws s)) u)"
  using woken_up_untouched [OF assms(1-3), of u] assms(4) by simp

lemma inner_step_untouched:
  assumes "inner_step K t a s = Some s'" and "kernel_ok K" and "queues_ok s" and "valid_tid t" and "u \<noteq> t"
  shows "untouched (pcs s u) (pcs s' u)"
  using assms(1)
proof (cases rule: inner_step_cases)
  case lock
  from lock_step_change [OF lock assms(2,4)] one_moves_untouched [OF guard_change_one assms(5)]
  show ?thesis by blast
next
  case try_lock
  from try_lock_step_change [OF try_lock assms(2,4)] one_moves_untouched [OF guard_change_one assms(5)]
  show ?thesis by blast
next
  case unlock
  then show ?thesis
  proof (cases rule: unlock_step_form)
    case (kernel k w v)
    with assms(5) hand_over_untouched [of "goto t (unlocked k) (s\<lparr> futex_word := w \<rparr>)" u]
    show ?thesis by (cases v) simp_all
  qed (use assms(5) in simp_all)
next
  case wait
  from wait_step_change [OF wait assms(4)] one_moves_untouched [OF guard_change_one assms(5)]
  show ?thesis by blast
next
  case notify_one
  then show ?thesis
    by (cases rule: notify_one_form)
      (use assms(5) woken_goto_untouched [OF assms(3) _ assms(2,5)] in \<open>simp_all del: goto_def\<close>, simp_all)
next
  case notify_all
  then show ?thesis
    by (cases rule: notify_all_form)
      (use assms(5) woken_goto_untouched [OF assms(3) _ assms(2,5)] in \<open>simp_all del: goto_def\<close>, simp_all)
qed

lemma act_untouched:
  assumes "pi_act K x s = Some s'" and "kernel_ok K" and "queues_ok s" and "u \<noteq> acts_by x"
  shows "untouched (pcs s u) (pcs s' u)"
proof (cases x)
  case (Begin t op)
  with assms(1) have "begin_call t op s = Some s'" by (simp split: if_splits)
  then show ?thesis
    using assms(4) Begin by (cases rule: begin_call_cases) (auto simp: untouched_def block_forever_def)
next
  case (Moves t a)
  with assms(1) have step: "inner_step K t a s = Some s'" by simp
  then have "pcs s t \<noteq> Out" by (rule inner_step_in_call)
  with assms(3) have "valid_tid t" by (simp add: queues_ok_def)
  from inner_step_untouched [OF step assms(2,3) this] assms(4) Moves show ?thesis by simp
qed

section \<open>Threads that act\<close>

definition quiet :: "tid \<Rightarrow> pi_state \<Rightarrow> pi_state \<Rightarrow> bool" where
  "quiet t s s' \<longleftrightarrow> waiters s' = waiters s \<and> fx s' = fx s \<and> counted (pcs s' t) = counted (pcs s t) \<and>
     (waits (pcs s' t) \<longrightarrow> waits (pcs s t) \<or> has_guard (pcs s t)) \<and>
     (backoff_ok (pcs s t) \<longrightarrow> backoff_ok (pcs s' t)) \<and> calm (pcs s' t)"

lemma lock_step_quiet: "lock_step K t (pcs s t) a s = Some s' \<Longrightarrow> quiet t s s'"
  unfolding quiet_def by (elim lock_step_elim; cases a) (auto split: if_splits)

lemma try_lock_step_quiet:
  assumes "try_lock_step K t (pcs s t) a s = Some s'"
  shows "quiet t s s'"
proof (cases "pcs s t")
  case Try_Check
  with assms have "s' = goto t (if lock_blocked s then Out else Try_Cas) s" by (cases a) simp_all
  with Try_Check show ?thesis by (simp add: quiet_def)
next
  case Try_Cas
  with assms have "s' = (if futex_word s = 0 then goto t (Held None) (s\<lparr> futex_word := t \<rparr>) else goto t Try_Pi s)"
    by (cases a) simp_all
  with Try_Cas show ?thesis by (simp add: quiet_def)
next
  case Try_Pi
  show ?thesis
  proof (cases a)
    case (Acquired w)
    with Try_Pi assms have "s' = goto t (Held None) (s\<lparr> futex_word := w \<rparr>)" by (simp split: if_splits)
    with Try_Pi show ?thesis by (simp add: quiet_def)
  next
    case (Fails w)
    with Try_Pi assms have "s' = goto t Out (s\<lparr> futex_word := w \<rparr>)" by (simp split: if_splits)
    with Try_Pi show ?thesis by (simp add: quiet_def)
  qed (use Try_Pi assms in simp_all)
qed (use assms in simp_all)

lemma hand_over_frame:
  "waiters (hand_over u s) = waiters s" "fx (hand_over u s) = fx s"
  "\<not> is_Queued (pcs s t) \<Longrightarrow> pcs (hand_over u s) t = pcs s t"
  by (cases "pcs s u"; auto simp: hand_over_def)+

lemma unlock_step_quiet:
  assumes "unlock_step K t (pcs s t) a s = Some s'"
  shows "quiet t s s'"
  using assms
proof (cases rule: unlock_step_form)
  case (kernel k w u)
  then show ?thesis
    by (cases u) (simp_all add: quiet_def hand_over_frame)
qed (simp_all add: quiet_def)

lemma woken_goto_quiet:
  assumes "backoff_ok (pcs s t) \<longrightarrow> backoff_ok c" and "counted c = counted (pcs s t)" and "\<not> waits c"
    and "calm c"
  shows "quiet t s (goto t c (woken_up ws s))"
  using assms by (simp add: quiet_def woken_up_def)

lemma notify_one_step_quiet:
  assumes "notify_one_step K t (pcs s t) a s = Some s'"
  shows "quiet t s s'"
  using assms
proof (cases rule: notify_one_form)
  case (woke h n ws)
  then show ?thesis by (simp add: woken_goto_quiet del: goto_def)
next
  case (missed h n)
  then show ?thesis by (simp add: woken_goto_quiet del: goto_def)
qed (simp_all add: quiet_def backoff_next)

lemma notify_all_step_quiet:
  assumes "notify_all_step K t (pcs s t) a s = Some s'"
  shows "quiet t s s'"
  using assms
proof (cases rule: notify_all_form)
  case (woke h n ws)
  then show ?thesis by (simp add: woken_goto_quiet del: goto_def)
next
  case (missed h n)
  then show ?thesis by (simp add: woken_goto_quiet del: goto_def)
qed (simp_all add: quiet_def backoff_next)

lemma call_quiet:
  "call_without_guard op = Some c \<Longrightarrow> \<not> counted c \<and> \<not> waits c \<and> backoff_ok c \<and> calm c"
  "call_with_guard op = Some c \<Longrightarrow> \<not> counted c \<and> \<not> waits c \<and> backoff_ok c \<and> calm c"
  by (cases op; clarsimp simp: backoff_new_def)+

lemma begin_call_quiet:
  assumes "begin_call t op s = Some s'"
  shows "quiet t s s'"
  using assms
proof (cases rule: begin_call_cases)
  case (without c)
  with call_quiet(1) [of op c] show ?thesis by (simp add: quiet_def)
next
  case (with_guard r c)
  with call_quiet(2) [of op c] show ?thesis by (simp add: quiet_def)
next
  case (block r)
  then show ?thesis by (simp add: quiet_def block_forever_def)
next
  case (send r u)
  then show ?thesis by (simp add: quiet_def)
qed

text \<open>The wait is what changes the counter.\<close>

lemma wait_step_counts:
  assumes "wait_step t (pcs s t) a s = Some s'" and "fx s = 0" and "waiters s < 2 ^ 31 - 1"
  shows "quiet t s s' \<or>
    fx s' = fx s \<and> backoff_ok (pcs s' t) \<and> calm (pcs s' t) \<and> \<not> waits (pcs s' t) \<and>
    ((\<not> counted (pcs s t) \<and> has_guard (pcs s t) \<and> counted (pcs s' t) \<and> waiters s' = i32_wrap (waiters s + 1)) \<or>
     (counted (pcs s t) \<and> \<not> counted (pcs s' t) \<and> waiters s' = i32_wrap (waiters s - 1)))"
proof (cases "pcs s t")
  case (Wait_Count b)
  with assms show ?thesis by (cases a) auto
next
  case (Wait_Is_Blocked b)
  with assms have "quiet t s s'" by (cases a; cases "lock_blocked s") (auto simp: quiet_def)
  then show ?thesis ..
next
  case (Wait_Is_Locked b)
  with assms have "quiet t s s'" by (cases a; cases "futex_word s = 0") (auto simp: quiet_def)
  then show ?thesis ..
next
  case (Wait_Enter b)
  with assms have "quiet t s s'" by (cases a; cases b) (auto simp: quiet_def)
  then show ?thesis ..
next
  case (Asleep b)
  with assms have "quiet t s s'" by (cases a; cases b) (auto simp: quiet_def)
  then show ?thesis ..
next
  case (Wait_Leave b)
  with assms show ?thesis by (cases a) auto
qed (use assms in simp_all)

section \<open>The counter is exact\<close>

text \<open>There are fewer threads than the counter can count: a thread id has 30 bits.\<close>

lemma valid_tid_bound: "valid_tid t \<Longrightarrow> unat t < 2 ^ 30"
proof -
  assume "valid_tid t"
  then have "take_bit 30 t = t"
    by (simp add: valid_tid_def futex_owner_def take_bit_eq_mask mask_eq_exp_minus_1)
  then show ?thesis by (metis unsigned_take_bit_eq take_bit_nat_less_exp)
qed

lemma card_valid_tids:
  assumes "\<And>t. t \<in> A \<Longrightarrow> valid_tid t"
  shows "card A \<le> 2 ^ 30"
proof -
  have "card A = card (unat ` A)" by (rule card_image [symmetric], rule inj_onI) (simp add: word_unat_eq_iff)
  also have "\<dots> \<le> card {..<(2 :: nat) ^ 30}"
    by (rule card_mono) (use assms valid_tid_bound in auto)
  finally show ?thesis by simp
qed

definition cv_ok :: "pi_state \<Rightarrow> bool" where
  "cv_ok s \<longleftrightarrow> queues_ok s \<and> fx s = 0 \<and> waiters s = int (card (counting s)) \<and>
     (\<forall>t. calm (pcs s t) \<and> backoff_ok (pcs s t))"

lemma cv_ok_bound: "cv_ok s \<Longrightarrow> waiters s \<le> 2 ^ 30 \<and> waiters s \<ge> 0"
proof -
  assume ok: "cv_ok s"
  have "valid_tid t" if "t \<in> counting s" for t
    using ok that by (cases "pcs s t") (auto simp: cv_ok_def queues_ok_def counting_def)
  then have "card (counting s) \<le> 2 ^ 30" by (rule card_valid_tids)
  with ok show ?thesis by (simp add: cv_ok_def)
qed

text \<open>What the acting thread does, whatever the action.\<close>

definition counts :: "tid \<Rightarrow> pi_state \<Rightarrow> pi_state \<Rightarrow> bool" where
  "counts t s s' \<longleftrightarrow> quiet t s s' \<or>
    fx s' = fx s \<and> backoff_ok (pcs s' t) \<and> calm (pcs s' t) \<and> \<not> waits (pcs s' t) \<and>
    ((\<not> counted (pcs s t) \<and> has_guard (pcs s t) \<and> counted (pcs s' t) \<and> waiters s' = i32_wrap (waiters s + 1)) \<or>
     (counted (pcs s t) \<and> \<not> counted (pcs s' t) \<and> waiters s' = i32_wrap (waiters s - 1)))"

lemma act_counts:
  assumes "pi_act K x s = Some s'" and "fx s = 0" and "waiters s < 2 ^ 31 - 1"
  shows "counts (acts_by x) s s'"
proof (cases x)
  case (Begin t op)
  with assms(1) have "begin_call t op s = Some s'" by (simp split: if_splits)
  from begin_call_quiet [OF this] Begin show ?thesis by (simp add: counts_def)
next
  case (Moves t a)
  with assms(1) have "inner_step K t a s = Some s'" by simp
  then have "counts t s s'"
  proof (cases rule: inner_step_cases)
    case lock
    from lock_step_quiet [OF this] show ?thesis by (simp add: counts_def)
  next
    case try_lock
    from try_lock_step_quiet [OF this] show ?thesis by (simp add: counts_def)
  next
    case unlock
    from unlock_step_quiet [OF this] show ?thesis by (simp add: counts_def)
  next
    case wait
    from wait_step_counts [OF this assms(2,3)] show ?thesis by (simp add: counts_def)
  next
    case notify_one
    from notify_one_step_quiet [OF this] show ?thesis by (simp add: counts_def)
  next
    case notify_all
    from notify_all_step_quiet [OF this] show ?thesis by (simp add: counts_def)
  qed
  with Moves show ?thesis by simp
qed

lemma cv_ok_act:
  assumes "pi_act K x s = Some s'" and "kernel_ok K" and "cv_ok s"
  shows "cv_ok s'"
proof -
  define t where "t = acts_by x"
  from assms(3) have ok: "queues_ok s" "fx s = 0" "waiters s = int (card (counting s))"
    "\<And>u. calm (pcs s u)" "\<And>u. backoff_ok (pcs s u)" by (simp_all add: cv_ok_def)
  note bound = cv_ok_bound [OF assms(3)]
  have others: "untouched (pcs s u) (pcs s' u)" if "u \<noteq> t" for u
    using act_untouched [OF assms(1,2) ok(1)] that by (simp add: t_def)
  have t: "counts t s s'" unfolding t_def by (rule act_counts [OF assms(1) ok(2)]) (use bound in simp)
  have pcs: "calm (pcs s' u) \<and> backoff_ok (pcs s' u)" for u
    using t untouched_facts(3,4) [OF others] ok(4,5) by (cases "u = t") (auto simp: counts_def quiet_def)
  have same: "u \<in> counting s' \<longleftrightarrow> u \<in> counting s" if "u \<noteq> t" for u
    using untouched_facts(1) [OF others [OF that]] by (simp add: counting_def)
  have new: "counting s' = (if counted (pcs s' t) then insert t (counting s) else counting s - {t})"
  proof (rule set_eqI)
    fix u
    show "u \<in> counting s' \<longleftrightarrow> u \<in> (if counted (pcs s' t) then insert t (counting s) else counting s - {t})"
      using same [of u] by (cases "u = t") (simp_all add: counting_def)
  qed
  have old: "t \<in> counting s \<longleftrightarrow> counted (pcs s t)" by (simp add: counting_def)
  have "waiters s' = int (card (counting s')) \<and> fx s' = 0"
    using t unfolding counts_def
  proof (elim disjE conjE, goal_cases)
    case 1
    with new old have "counting s' = counting s" by (cases "counted (pcs s t)") (simp_all add: quiet_def insert_absorb)
    with 1 ok(2,3) show ?case by (simp add: quiet_def)
  next
    case 2
    with new old have "counting s' = insert t (counting s)" "t \<notin> counting s" by simp_all
    with 2 ok(2,3) bound show ?case by simp
  next
    case 3
    with new old have "counting s' = counting s - {t}" "t \<in> counting s" by simp_all
    moreover from this(2) have "card (counting s) > 0" by (auto simp: card_gt_0_iff)
    ultimately show ?case using 3 ok(2,3) bound by (simp add: of_nat_diff)
  qed
  with pcs act_queues [OF assms(1,2) ok(1)] show ?thesis by (simp add: cv_ok_def)
qed

lemma start_cv_ok: "cv_ok pi_new"
  using start_queues by (simp add: cv_ok_def counting_def pi_new_def)

lemma run_cv_ok:
  assumes "pi_run K xs s = Some s'" and "kernel_ok K" and "cv_ok s"
  shows "cv_ok s'"
  by (rule run_invariant [where P = cv_ok and good = "\<lambda>_. True", OF _ assms(1,3)])
    (use cv_ok_act assms(2) in \<open>auto simp: list_all_iff\<close>)

end
