(* ===== verification/Pi_Notify.thy ===== *)
theory Pi_Notify
  imports Pi_Condvar
begin

text \<open>
  Notifications of the condition variable of theory \<open>Pi_Lock\<close>: made under the lock they reach the
  threads that wait, made without it \<open>notify_all\<close> may miss one.
\<close>

section \<open>Notifications under the lock\<close>

lemma run_cv:
  assumes "pi_run K xs pi_new = Some s" and "kernel_ok K"
  shows "exclusive s" and "cv_ok s"
  using run_exclusive [OF assms start_exclusive] run_cv_ok [OF assms start_cv_ok] by simp_all

text \<open>While a thread holds the guard, nobody else starts to wait.\<close>

lemma act_other:
  assumes "pi_act K x s = Some s'" and "kernel_ok K" and "exclusive s" and "cv_ok s"
    and "has_guard (pcs s n)" and "acts_by x \<noteq> n"
  shows "pcs s' n = pcs s n" and "waiting s' \<subseteq> waiting s" and "counting s' \<subseteq> counting s"
proof -
  define t where "t = acts_by x"
  from assms(4) have ok: "queues_ok s" "fx s = 0" by (simp_all add: cv_ok_def)
  have others: "untouched (pcs s u) (pcs s' u)" if "u \<noteq> t" for u
    using act_untouched [OF assms(1,2) ok(1)] that by (simp add: t_def)
  have t: "counts t s s'" unfolding t_def
    by (rule act_counts [OF assms(1) ok(2)]) (use cv_ok_bound [OF assms(4)] in simp)
  have no: "\<not> has_guard (pcs s t)"
  proof
    assume "has_guard (pcs s t)"
    with assms(3,5) have "t = n" by (auto simp: exclusive_def guards_def)
    with assms(6) show False by (simp add: t_def)
  qed
  show "pcs s' n = pcs s n" using untouched_facts(5) [OF others] assms(5,6) by (simp add: t_def)
  have "waits (pcs s' u) \<longrightarrow> waits (pcs s u)" "counted (pcs s' u) \<longrightarrow> counted (pcs s u)" for u
    using t no untouched_facts(1,2) [OF others, of u] by (cases "u = t"; auto simp: counts_def quiet_def)+
  then show "waiting s' \<subseteq> waiting s" "counting s' \<subseteq> counting s"
    by (auto simp: waiting_def counting_def)
qed

text \<open>What the notifying thread itself does to the waiting threads.\<close>

lemma waiting_goto:
  assumes "\<not> waits (pcs s t)" and "\<not> waits c" and "\<not> counted (pcs s t)" and "\<not> counted c"
  shows "waiting (goto t c s) = waiting s" and "counting (goto t c s) = counting s"
  using assms by (auto simp: waiting_def counting_def)

lemma waiting_woken_up:
  assumes "queues_ok s" and "set ws \<subseteq> set (fx_queue s)"
  shows "waiting (woken_up ws s) = waiting s - set ws" and "set ws \<subseteq> waiting s"
proof -
  from assms have ws: "is_Asleep (pcs s u)" if "u \<in> set ws" for u using that by (auto simp: queues_ok_def)
  show "set ws \<subseteq> waiting s"
  proof
    fix u
    assume "u \<in> set ws"
    from ws [OF this] show "u \<in> waiting s" by (cases "pcs s u") (simp_all add: waiting_def)
  qed
  show "waiting (woken_up ws s) = waiting s - set ws"
    by (auto simp: waiting_def woken_up_def)
qed

lemma counting_woken_up:
  assumes "queues_ok s" and "set ws \<subseteq> set (fx_queue s)"
  shows "counting (woken_up ws s) = counting s"
proof -
  from assms have ws: "is_Asleep (pcs s u)" if "u \<in> set ws" for u using that by (auto simp: queues_ok_def)
  have "counted (pcs (woken_up ws s) u) = counted (pcs s u)" for u
  proof (cases "u \<in> set ws")
    case True
    with ws [OF this] show ?thesis by (cases "pcs s u") (simp_all add: woken_up_def)
  next
    case False
    then show ?thesis by (simp add: woken_up_def)
  qed
  then show ?thesis by (simp add: counting_def)
qed

lemma woken_up_nil: "woken_up [] s = s"
  by (simp add: woken_up_def)

lemma waiters_positive: "cv_ok s \<Longrightarrow> \<not> waiters s > 0 \<Longrightarrow> waiting s = {}"
  using waiting_counting [of s] by (auto simp: cv_ok_def)

definition not_begun :: "tid \<Rightarrow> pi_action \<Rightarrow> bool" where
  "not_begun n x \<longleftrightarrow> (case x of Begin t op \<Rightarrow> t \<noteq> n | Moves t a \<Rightarrow> True)"

fun one_phase :: "pc \<Rightarrow> bool" where
  "one_phase (One_Load h n) = h"
| "one_phase (One_Wake h n) = h"
| "one_phase (One_Sleep h n) = h"
| "one_phase _ = False"

lemma one_phase_guard: "one_phase c \<Longrightarrow> has_guard c"
  by (cases c) simp_all

lemma one_phase_step:
  assumes "inner_step K n a s = Some s'" and "one_phase (pcs s n)"
  shows "notify_one_step K n (pcs s n) a s = Some s'"
  using assms(1)
proof (cases rule: inner_step_cases)
  case notify_one
  then show ?thesis .
qed (use assms(2) in \<open>cases "pcs s n"; simp\<close>)+

lemma held_step: "pcs s n = Held r \<Longrightarrow> inner_step K n a s = None"
  by (simp add: inner_step_def)

definition notified_one :: "tid \<Rightarrow> tid set \<Rightarrow> pi_state \<Rightarrow> bool" where
  "notified_one n W s \<longleftrightarrow> exclusive s \<and> cv_ok s \<and>
     (one_phase (pcs s n) \<and> waiting s \<subseteq> W \<or> pcs s n = Held None \<and> (waiting s = {} \<or> waiting s \<subset> W))"

lemma notify_one_own:
  assumes "notify_one_step K n (pcs s n) a s = Some s'" and "kernel_ok K" and "cv_ok s" and "one_phase (pcs s n)"
    and "waiting s \<subseteq> W"
  shows "one_phase (pcs s' n) \<and> waiting s' \<subseteq> W \<or> pcs s' n = Held None \<and> (waiting s' = {} \<or> waiting s' \<subset> W)"
  using assms(1)
proof (cases rule: notify_one_form)
  case (found h k)
  have "waiting s' = waiting s" unfolding found(3) by (rule waiting_goto) (simp_all add: found(1))
  moreover have "one_phase (pcs s' n)" using assms(4) by (simp add: found(1,3))
  ultimately show ?thesis using assms(5) by simp
next
  case (nobody h k)
  have "waiting s' = waiting s" unfolding nobody(3) by (rule waiting_goto) (simp_all add: nobody(1))
  moreover have "pcs s' n = Held None" using assms(4) by (simp add: nobody(1,3) returned_def)
  ultimately show ?thesis using waiters_positive [OF assms(3) nobody(2)] by simp
next
  case (woke h k ws)
  from assms(3) have q: "queues_ok s" by (simp add: cv_ok_def)
  from kernel_okD(5) [OF assms(2) woke(2)] have ws: "set ws \<subseteq> set (fx_queue s)" by blast
  have n: "pcs (woken_up ws s) n = One_Wake h k"
    using woken_up_self(1) [OF q woke(2) assms(2), of n] by (simp add: woke(1))
  have "waiting s' = waiting (woken_up ws s)" unfolding woke(4)
    by (rule waiting_goto) (simp_all add: n)
  then have "waiting s' = waiting s - set ws" by (simp only: waiting_woken_up(1) [OF q ws])
  moreover have "waiting s - set ws \<subset> waiting s"
    using waiting_woken_up(2) [OF q ws] woke(3) by (cases ws) auto
  ultimately have "waiting s' \<subset> W" using assms(5) by simp
  moreover have "h" using assms(4) by (simp add: woke(1))
  then have "pcs s' n = Held None" unfolding woke(4) by (simp add: returned_def)
  ultimately show ?thesis by simp
next
  case (missed h k)
  have "waiting s' = waiting s" unfolding missed(3) woken_up_nil
    by (rule waiting_goto) (simp_all add: missed(1))
  moreover have "one_phase (pcs s' n)" using assms(4) by (simp add: missed(1,3))
  ultimately show ?thesis using assms(5) by simp
next
  case (slept h k)
  have "waiting s' = waiting s" unfolding slept(2) by (rule waiting_goto) (simp_all add: slept(1))
  moreover have "one_phase (pcs s' n)" using assms(4) by (simp add: slept(1,2))
  ultimately show ?thesis using assms(5) by simp
qed

lemma notified_one_act:
  assumes "pi_act K x s = Some s'" and "kernel_ok K" and "notified_one n W s" and "not_begun n x"
  shows "notified_one n W s'"
proof -
  from assms(3) have e: "exclusive s" "cv_ok s" and
    p: "one_phase (pcs s n) \<and> waiting s \<subseteq> W \<or> pcs s n = Held None \<and> (waiting s = {} \<or> waiting s \<subset> W)"
    by (simp_all add: notified_one_def)
  then have g: "has_guard (pcs s n)" using one_phase_guard by auto
  have "one_phase (pcs s' n) \<and> waiting s' \<subseteq> W \<or> pcs s' n = Held None \<and> (waiting s' = {} \<or> waiting s' \<subset> W)"
  proof (cases "acts_by x = n")
    case False
    from act_other [OF assms(1,2) e g False] p show ?thesis by auto
  next
    case True
    with assms(4) obtain a where x: "x = Moves n a" by (cases x) (auto simp: not_begun_def)
    with assms(1) have step: "inner_step K n a s = Some s'" by simp
    with p held_step [of s n None K a] have p': "one_phase (pcs s n)" "waiting s \<subseteq> W" by auto
    from notify_one_own [OF one_phase_step [OF step p'(1)] assms(2) e(2) p'] show ?thesis .
  qed
  with exclusive_act [OF assms(1,2) e(1)] cv_ok_act [OF assms(1,2) e(2)] show ?thesis
    by (simp add: notified_one_def)
qed

fun all_phase :: "int \<Rightarrow> pc \<Rightarrow> bool" where
  "all_phase m (All_Load h n) = h"
| "all_phase m (All_Wake h n k) = (h \<and> m \<le> k)"
| "all_phase m (All_Sleep h n) = h"
| "all_phase m _ = False"

lemma all_phase_guard: "all_phase m c \<Longrightarrow> has_guard c"
  by (cases c) simp_all

lemma all_phase_mono: "all_phase m c \<Longrightarrow> m' \<le> m \<Longrightarrow> all_phase m' c"
  by (cases c) simp_all

lemma all_phase_step:
  assumes "inner_step K n a s = Some s'" and "all_phase m (pcs s n)"
  shows "notify_all_step K n (pcs s n) a s = Some s'"
  using assms(1)
proof (cases rule: inner_step_cases)
  case notify_all
  then show ?thesis .
qed (use assms(2) in \<open>cases "pcs s n"; simp\<close>)+

text \<open>
  While \<open>notify_all\<close> runs under the lock the number it loaded still bounds the threads in a wait.
\<close>

definition notified_all :: "tid \<Rightarrow> pi_state \<Rightarrow> bool" where
  "notified_all n s \<longleftrightarrow> exclusive s \<and> cv_ok s \<and>
     (all_phase (int (card (counting s))) (pcs s n) \<or> pcs s n = Held None \<and> waiting s = {})"

lemma notify_all_own:
  assumes "notify_all_step K n (pcs s n) a s = Some s'" and "kernel_ok K" and "cv_ok s"
    and "all_phase (int (card (counting s))) (pcs s n)"
  shows "all_phase (int (card (counting s'))) (pcs s' n) \<or> pcs s' n = Held None \<and> waiting s' = {}"
  using assms(1)
proof (cases rule: notify_all_form)
  case (found h k)
  have "counting s' = counting s" unfolding found(3) by (rule waiting_goto) (simp_all add: found(1))
  then have "all_phase (int (card (counting s'))) (pcs s' n)"
    using assms(3,4) by (simp add: found(1,3) cv_ok_def)
  then show ?thesis ..
next
  case (nobody h k)
  have "waiting s' = waiting s" unfolding nobody(3) by (rule waiting_goto) (simp_all add: nobody(1))
  moreover have "pcs s' n = Held None" using assms(4) by (simp add: nobody(1,3) returned_def)
  ultimately show ?thesis using waiters_positive [OF assms(3)] nobody(2) by simp
next
  case (woke h k m ws)
  from assms(3) have q: "queues_ok s" by (simp add: cv_ok_def)
  from kernel_okD(5) [OF assms(2) woke(2)] have ws: "set ws \<subseteq> set (fx_queue s)" "distinct ws" by blast+
  have n: "pcs (woken_up ws s) n = All_Wake h k m"
    using woken_up_self(1) [OF q woke(2) assms(2), of n] by (simp add: woke(1))
  note w = waiting_woken_up [OF q ws(1)]
  have "set ws = counting s"
  proof (rule card_seteq)
    show "set ws \<subseteq> counting s" using w(2) waiting_counting by blast
    show "card (counting s) \<le> card (set ws)"
      using assms(4) woke(3) distinct_card [OF ws(2)] by (simp add: woke(1))
  qed simp
  moreover have "waiting s' = waiting (woken_up ws s)" unfolding woke(4)
    by (rule waiting_goto) (simp_all add: n)
  then have "waiting s' = waiting s - set ws" by (simp only: w(1))
  ultimately have "waiting s' = {}" using waiting_counting [of s] by blast
  moreover have "h" using assms(4) by (simp add: woke(1))
  then have "pcs s' n = Held None" unfolding woke(4) by (simp add: returned_def)
  ultimately show ?thesis by simp
next
  case (missed h k m ws)
  have "all_phase (int (card (counting s'))) (pcs s' n)" using assms(4) by (simp add: missed(1,3))
  then show ?thesis ..
next
  case (slept h k)
  have "all_phase (int (card (counting s'))) (pcs s' n)" using assms(4) by (simp add: slept(1,2))
  then show ?thesis ..
qed

lemma notified_all_act:
  assumes "pi_act K x s = Some s'" and "kernel_ok K" and "notified_all n s" and "not_begun n x"
  shows "notified_all n s'"
proof -
  from assms(3) have e: "exclusive s" "cv_ok s" and
    p: "all_phase (int (card (counting s))) (pcs s n) \<or> pcs s n = Held None \<and> waiting s = {}"
    by (simp_all add: notified_all_def)
  then have g: "has_guard (pcs s n)" using all_phase_guard by auto
  have "all_phase (int (card (counting s'))) (pcs s' n) \<or> pcs s' n = Held None \<and> waiting s' = {}"
  proof (cases "acts_by x = n")
    case False
    note other = act_other [OF assms(1,2) e g False]
    have "int (card (counting s')) \<le> int (card (counting s))" by (simp add: card_mono other(3))
    with p other(1,2) all_phase_mono show ?thesis by auto
  next
    case True
    with assms(4) obtain a where x: "x = Moves n a" by (cases x) (auto simp: not_begun_def)
    with assms(1) have step: "inner_step K n a s = Some s'" by simp
    with p held_step [of s n None K a] have p': "all_phase (int (card (counting s))) (pcs s n)" by auto
    from notify_all_own [OF all_phase_step [OF step p'] assms(2) e(2) p'] show ?thesis .
  qed
  with exclusive_act [OF assms(1,2) e(1)] cv_ok_act [OF assms(1,2) e(2)] show ?thesis
    by (simp add: notified_all_def)
qed

section \<open>Properties\<close>

text \<open>
  The concrete runs: thread 1 waits, thread 3 locks and notifies; once while 1 sleeps already and
  once while 1 has not reached the futex yet, so that the first wake call finds nobody.
\<close>

definition wait_by :: "tid \<Rightarrow> pi_action list" where
  "wait_by t = lock_by t @ [Begin t Do_Wait, Moves t Go, Moves t Go, Moves t Go, Moves t Go]"

definition early_run :: "pi_op \<Rightarrow> pi_action list" where
  "early_run op = wait_by 1 @ lock_by 3 @ [Begin 3 op]"

definition early_rest :: "pi_action list" where
  "early_rest = [Moves 3 Go, Moves 3 (Woke []), Moves 3 Go, Moves 1 Go, Moves 3 Go, Moves 3 (Woke [1])]"

lemma early_run_result:
  "map_option pi_shows (pi_run sample_kernel (early_run Do_Notify_One) pi_new) =
   Some ((3, False, []), (1, []), [Wait_Enter False, Out, One_Load True 50])"
  "map_option pi_shows (pi_run sample_kernel (early_run Do_Notify_One @ early_rest) pi_new) =
   Some ((3, False, []), (1, []), [Wait_Leave False, Out, Held None])"
  "map_option pi_shows (pi_run sample_kernel (early_run Do_Notify_All) pi_new) =
   Some ((3, False, []), (1, []), [Wait_Enter False, Out, All_Load True 50])"
  "map_option pi_shows (pi_run sample_kernel (early_run Do_Notify_All @ early_rest) pi_new) =
   Some ((3, False, []), (1, []), [Wait_Leave False, Out, Held None])"
  by code_simp+

text \<open>
  C31: the counter of the condition variable is exact, it never wraps, and no call of it panics:
  neither the assertion that there are not too many waiters nor the \<open>unreachable!\<close> of a futex
  value that changed can be hit; and a notifying thread sleeps between 50 and 200 microseconds.
\<close>

theorem pi_condvar_safe:
  assumes "kernel_ok K" and "pi_run K xs pi_new = Some s"
  shows "pcs s t \<noteq> Panicked \<and> waiters s = int (card (counting s)) \<and> waiters s < 2 ^ 31 - 1 \<and> fx s = 0 \<and>
    (case pcs s t of One_Sleep h n \<Rightarrow> 50 \<le> n \<and> n \<le> 200 | All_Sleep h n \<Rightarrow> 50 \<le> n \<and> n \<le> 200 | _ \<Rightarrow> True)"
proof -
  from run_cv(2) [OF assms(2,1)] have ok: "cv_ok s" .
  then have "calm (pcs s t)" "backoff_ok (pcs s t)" by (simp_all add: cv_ok_def)
  then have "pcs s t \<noteq> Panicked"
    "case pcs s t of One_Sleep h n \<Rightarrow> 50 \<le> n \<and> n \<le> 200 | All_Sleep h n \<Rightarrow> 50 \<le> n \<and> n \<le> 200 | _ \<Rightarrow> True"
    by (cases "pcs s t"; simp)+
  with ok cv_ok_bound [OF ok] show ?thesis by (simp add: cv_ok_def)
qed

theorem pi_condvar_safe_witness:
  "\<exists>s. pi_run sample_kernel (early_run Do_Notify_One @ early_rest) pi_new = Some s \<and>
     waiters s = int (card (counting s)) \<and> fx s = 0 \<and> pcs s 1 = Wait_Leave False \<and> pcs s 1 \<noteq> Panicked"
proof -
  obtain s where s: "pi_run sample_kernel (early_run Do_Notify_One @ early_rest) pi_new = Some s"
    "pcs s 1 = Wait_Leave False"
    by (rule pi_shows_pcs [OF early_run_result(2)])
  from pi_condvar_safe [OF sample_kernel_ok s(1), of 1] s show ?thesis by blast
qed

text \<open>A run from a state with the thread in its call up to its return.\<close>

lemma early_split:
  assumes "map_option pi_shows (pi_run sample_kernel xs pi_new) = Some (x, y, [c1, c2, c3])"
    and "map_option pi_shows (pi_run sample_kernel (xs @ early_rest) pi_new) = Some (x', y', [c1', c2', c3'])"
  obtains s s' where "pi_run sample_kernel xs pi_new = Some s" and "pi_run sample_kernel early_rest s = Some s'"
    and "pcs s 1 = c1" and "pcs s 3 = c3" and "pcs s' 1 = c1'" and "pcs s' 3 = c3'"
proof -
  obtain s where s: "pi_run sample_kernel xs pi_new = Some s" "pcs s 1 = c1" "pcs s 3 = c3"
    by (rule pi_shows_pcs [OF assms(1)])
  obtain s' where s': "pi_run sample_kernel (xs @ early_rest) pi_new = Some s'" "pcs s' 1 = c1'" "pcs s' 3 = c3'"
    by (rule pi_shows_pcs [OF assms(2)])
  from s'(1) s(1) have "pi_run sample_kernel early_rest s = Some s'" by (simp add: pi_run_append)
  from that [OF s(1) this s(2,3) s'(2,3)] show thesis .
qed

lemma early_rest_goes_on: "list_all (not_begun 3) early_rest"
  by (simp add: early_rest_def not_begun_def)



text \<open>
  C33: a \<open>notify_all\<close> made under the lock leaves nobody waiting: when it has returned, every thread
  that waited has been woken or has timed out, those included that were still on their way into
  the futex when it was called.
\<close>

theorem pi_notify_all_wakes_all:
  assumes "kernel_ok K" and "pi_run K xs pi_new = Some s" and "pcs s n = All_Load True k"
    and "pi_run K ys s = Some s'" and "list_all (not_begun n) ys" and "pcs s' n = Held None"
  shows "waiting s' = {}"
proof -
  from run_cv [OF assms(2,1)] assms(3) have start: "notified_all n s"
    by (simp add: notified_all_def)
  have "notified_all n s'"
    by (rule run_invariant [where P = "notified_all n" and good = "not_begun n", OF _ assms(4) start assms(5)])
      (rule notified_all_act [OF _ assms(1)])
  with assms(6) show ?thesis by (simp add: notified_all_def)
qed

theorem pi_notify_all_wakes_all_witness:
  "\<exists>s s'. pi_run sample_kernel (early_run Do_Notify_All) pi_new = Some s \<and> pcs s 1 = Wait_Enter False \<and>
     pi_run sample_kernel early_rest s = Some s' \<and> pcs s' 3 = Held None \<and> waiting s' = {}"
proof -
  obtain s s' where s: "pi_run sample_kernel (early_run Do_Notify_All) pi_new = Some s"
    "pi_run sample_kernel early_rest s = Some s'" "pcs s 1 = Wait_Enter False" "pcs s 3 = All_Load True 50"
    "pcs s' 3 = Held None"
    by (rule early_split [OF early_run_result(3,4)])
  from pi_notify_all_wakes_all [OF sample_kernel_ok s(1,4,2) early_rest_goes_on s(5)] s show ?thesis by blast
qed

section \<open>Notifications without the lock\<close>

definition unlocked_run :: "pi_action list" where
  "unlocked_run = wait_by 1 @ [Begin 3 Do_Notify_All]"

definition unlocked_rest :: "pi_action list" where
  "unlocked_rest = [Moves 3 Go] @ wait_by 2 @ [Moves 2 Go, Moves 3 (Woke [2]), Moves 1 Go]"

lemma unlocked_run_result:
  "map_option pi_shows (pi_run sample_kernel unlocked_run pi_new) =
   Some ((0, False, []), (1, []), [Wait_Enter False, Out, All_Load False 50])"
  "map_option pi_shows (pi_run sample_kernel (unlocked_run @ unlocked_rest) pi_new) =
   Some ((0, False, []), (2, [1]), [Asleep False, Wait_Leave False, Out])"
  by code_simp+

text \<open>
  Without the lock \<open>notify_all\<close> can miss a thread: thread 1 waits when 3 calls it, but is not in
  the futex yet; thread 2 starts to wait after 3 has read the counter, and is woken in its place;
  3 returns, and 1 falls asleep with nobody left to wake it.
\<close>

theorem pi_notify_all_can_miss:
  "\<exists>xs ys s s'. pi_run sample_kernel xs pi_new = Some s \<and> pcs s 1 = Wait_Enter False \<and>
     pcs s 2 = Out \<and> pcs s 3 = All_Load False 50 \<and>
     pi_run sample_kernel ys s = Some s' \<and> pcs s' 1 = Asleep False \<and> pcs s' 3 = Out"
proof -
  obtain s where s: "pi_run sample_kernel unlocked_run pi_new = Some s" "pcs s 1 = Wait_Enter False"
    "pcs s 2 = Out" "pcs s 3 = All_Load False 50"
    by (rule pi_shows_pcs [OF unlocked_run_result(1)])
  obtain s' where s': "pi_run sample_kernel (unlocked_run @ unlocked_rest) pi_new = Some s'"
    "pcs s' 1 = Asleep False" "pcs s' 3 = Out"
    by (rule pi_shows_pcs [OF unlocked_run_result(2)])
  from s'(1) s(1) have "pi_run sample_kernel unlocked_rest s = Some s'" by (simp add: pi_run_append)
  with s s'(2,3) show ?thesis by blast
qed

section \<open>The lock word\<close>

definition word_ok :: "pi_state \<Rightarrow> bool" where
  "word_ok s \<longleftrightarrow> cv_ok s \<and> guards s = (if lock_owner s = 0 then {} else {lock_owner s})"

definition plain :: "pi_action \<Rightarrow> bool" where
  "plain x \<longleftrightarrow> \<not> sends_guard x \<and> \<not> blocks_forever x"

lemma word_ok_act:
  assumes "pi_act K x s = Some s'" and "kernel_ok K" and "word_ok s" and "plain x"
  shows "word_ok s'"
proof -
  from assms(3) have cv: "cv_ok s" and g: "guards s = (if lock_owner s = 0 then {} else {lock_owner s})"
    and q: "queues_ok s" by (simp_all add: word_ok_def cv_ok_def)
  from cv_ok_act [OF assms(1,2) cv] have cv': "cv_ok s'" .
  then have calm: "calm (pcs s' (acts_by x))" by (simp add: cv_ok_def)
  from assms(1,2) q have "guards s' = (if lock_owner s' = 0 then {} else {lock_owner s'})"
  proof (cases rule: act_moves)
    case keep
    with g show ?thesis by (simp add: keeps_def)
  next
    case acquire
    with g show ?thesis by (simp add: acquires_def)
  next
    case release
    with g show ?thesis by (simp add: releases_def split: if_splits)
  next
    case (pass u)
    with g show ?thesis by (auto simp: passes_def split: if_splits)
  next
    case leak
    with assms(4) calm show ?thesis by (auto simp: plain_def)
  next
    case (send u)
    with assms(4) show ?thesis by (simp add: plain_def)
  qed
  with cv' show ?thesis by (simp add: word_ok_def)
qed

text \<open>
  As long as no guard is sent to another thread or given up by \<open>block_forever\<close>, the lock word
  says exactly who holds the guard: it names the holder, and is free when there is none. So a
  mutex whose guard was dropped, or given up by a wait, can be locked again.
\<close>

theorem pi_lock_word_exact:
  assumes "kernel_ok K" and "pi_run K xs pi_new = Some s" and "list_all plain xs"
  shows "guards s = (if lock_owner s = 0 then {} else {lock_owner s})"
proof -
  have start: "word_ok pi_new"
    using start_cv_ok by (simp add: word_ok_def guards_def lock_owner_def pi_new_def)
  have "word_ok s"
    by (rule run_invariant [where P = word_ok and good = plain, OF _ assms(2) start assms(3)])
      (rule word_ok_act [OF _ assms(1)])
  then show ?thesis by (simp add: word_ok_def)
qed

theorem pi_lock_word_exact_witness:
  "\<exists>s. pi_run sample_kernel handed_run pi_new = Some s \<and> futex_word s = 2 \<and> guards s = {2}"
proof -
  obtain s where s: "pi_run sample_kernel handed_run pi_new = Some s" "futex_word s = 2"
    by (rule pi_shows_pcs [OF handed_run_result]) simp
  have "list_all plain handed_run" by (simp add: handed_run_def lock_by_def plain_def)
  from pi_lock_word_exact [OF sample_kernel_ok s(1) this] s show ?thesis
    by (simp add: lock_owner_def futex_owner_def)
qed

end
