(* ===== verification/System.thy ===== *)
theory System
  imports Ordered_Map Rtsc_Error "HOL-Library.Char_ord" "HOL-Library.List_Lexorder"
begin

text \<open>
  The Linux tools of \<open>src/src/system.rs\<close>: the system configuration under \<open>/proc/sys\<close>, the governors
  of the CPUs, and the number of CPUs. The file system is a map from paths to contents, with an
  environment that says which calls fail, and what a file shows after a value was written to it
  (the files of the kernel add a line break, for instance).
\<close>

section \<open>Files\<close>

type_synonym path = string
type_synonym files = "path \<Rightarrow> string"

record file_env =
  read_error :: "path \<Rightarrow> string option"
  write_error :: "path \<Rightarrow> string \<Rightarrow> string option"
  shows_as :: "path \<Rightarrow> string \<Rightarrow> string"

definition read_to_string :: "file_env \<Rightarrow> path \<Rightarrow> files \<Rightarrow> string result" where
  "read_to_string env p fs = (case read_error env p of Some e \<Rightarrow> Inl (IO e) | None \<Rightarrow> Inr (fs p))"

definition write_file :: "file_env \<Rightarrow> path \<Rightarrow> string \<Rightarrow> files \<Rightarrow> files result" where
  "write_file env p v fs =
     (case write_error env p v of Some e \<Rightarrow> Inl (IO e) | None \<Rightarrow> Inr (fs(p := shows_as env p v)))"

section \<open>The system configuration\<close>

record system_config =
  sc_values :: "(string \<times> string) list"
  prev_values :: "(string \<times> string) list"

definition system_config_new :: system_config where
  "system_config_new = \<lparr> sc_values = [], prev_values = [] \<rparr>"

definition set_value :: "string \<Rightarrow> string \<Rightarrow> system_config \<Rightarrow> system_config" where
  "set_value key v c = c\<lparr> sc_values := bt_insert key v (sc_values c) \<rparr>"

definition sys_path :: "string \<Rightarrow> path" where
  "sys_path key = ''/proc/sys/'' @ key"

text \<open>
  The loop of \<open>apply\<close>: the files as they are when it ends, and either the error it stopped at or
  the previous values.
\<close>

fun apply_loop :: "file_env \<Rightarrow> (string \<times> string) list \<Rightarrow> (string \<times> string) list \<Rightarrow> files \<Rightarrow>
    files \<times> (string \<times> string) list result" where
  "apply_loop env [] prev fs = (fs, Inr prev)"
| "apply_loop env ((key, v) # vs) prev fs =
     (case read_to_string env (sys_path key) fs of
        Inl e \<Rightarrow> (fs, Inl e)
      | Inr prev_value \<Rightarrow>
          (case write_file env (sys_path key) v fs of
             Inl e \<Rightarrow> (fs, Inl e)
           | Inr fs' \<Rightarrow> apply_loop env vs (bt_insert key prev_value prev) fs'))"

definition apply_config :: "file_env \<Rightarrow> system_config \<Rightarrow> files \<Rightarrow> files \<times> system_config result" where
  "apply_config env c fs =
     (case apply_loop env (sc_values c) (prev_values c) fs of
        (fs', Inl e) \<Rightarrow> (fs', Inl e)
      | (fs', Inr prev) \<Rightarrow> (fs', Inr (c\<lparr> prev_values := prev \<rparr>)))"

text \<open>A value that cannot be restored is logged and left.\<close>

fun restore_loop :: "file_env \<Rightarrow> (path \<times> string) list \<Rightarrow> files \<Rightarrow> files" where
  "restore_loop env [] fs = fs"
| "restore_loop env ((p, v) # vs) fs =
     restore_loop env vs (case write_file env p v fs of Inl e \<Rightarrow> fs | Inr fs' \<Rightarrow> fs')"

definition config_guard_drop :: "file_env \<Rightarrow> system_config \<Rightarrow> files \<Rightarrow> files" where
  "config_guard_drop env c = restore_loop env (map (\<lambda>(key, v). (sys_path key, v)) (prev_values c))"

section \<open>CPU governors\<close>

text \<open>\<open>str::trim\<close> and \<open>str::trim_end\<close>, for the white space of ASCII.\<close>

definition is_space :: "char \<Rightarrow> bool" where
  "is_space c = (c = CHR '' '' \<or> 9 \<le> (of_char c :: nat) \<and> (of_char c :: nat) \<le> 13)"

definition trim_start :: "string \<Rightarrow> string" where
  "trim_start s = dropWhile is_space s"

definition trim_end :: "string \<Rightarrow> string" where
  "trim_end s = rev (dropWhile is_space (rev s))"

definition trim :: "string \<Rightarrow> string" where
  "trim s = trim_end (trim_start s)"

fun decimal :: "nat \<Rightarrow> string" where
  "decimal n = (if n < 10 then [char_of (48 + n)] else decimal (n div 10) @ [char_of (48 + n mod 10)])"

definition governor_path :: "usize \<Rightarrow> path" where
  "governor_path cpu = ''/sys/devices/system/cpu/cpu'' @ decimal cpu @ ''/cpufreq/scaling_governor''"

fun read_governors :: "file_env \<Rightarrow> usize list \<Rightarrow> (usize \<times> string) list \<Rightarrow> files \<Rightarrow>
    (usize \<times> string) list result" where
  "read_governors env [] prev fs = Inr prev"
| "read_governors env (cpu # cpus) prev fs =
     (case read_to_string env (governor_path cpu) fs of
        Inl e \<Rightarrow> Inl e
      | Inr v \<Rightarrow> read_governors env cpus (bt_insert cpu (trim v) prev) fs)"

fun write_governors :: "file_env \<Rightarrow> usize list \<Rightarrow> files \<Rightarrow> files \<times> unit result" where
  "write_governors env [] fs = (fs, Inr ())"
| "write_governors env (cpu # cpus) fs =
     (case write_file env (governor_path cpu) ''performance'' fs of
        Inl e \<Rightarrow> (fs, Inl e)
      | Inr fs' \<Rightarrow> write_governors env cpus fs')"

record cpu_governor =
  prev_governor :: "(usize \<times> string) list"

definition performance :: "file_env \<Rightarrow> usize list \<Rightarrow> files \<Rightarrow> files \<times> cpu_governor result" where
  "performance env cpus fs =
     (case read_governors env cpus [] fs of
        Inl e \<Rightarrow> (fs, Inl e)
      | Inr prev \<Rightarrow>
          (case write_governors env (map fst prev) fs of
             (fs', Inl e) \<Rightarrow> (fs', Inl e)
           | (fs', Inr _) \<Rightarrow> (fs', Inr \<lparr> prev_governor = prev \<rparr>)))"

definition cpu_governor_drop :: "file_env \<Rightarrow> cpu_governor \<Rightarrow> files \<Rightarrow> files" where
  "cpu_governor_drop env g = restore_loop env (map (\<lambda>(cpu, v). (governor_path cpu, v)) (prev_governor g))"

section \<open>The number of CPUs\<close>

text \<open>The lines of the file, each of which may be an error to read; \<open>split\<close> always has a first part.\<close>

definition first_field :: "string \<Rightarrow> string" where
  "first_field line = takeWhile (\<lambda>c. c \<noteq> CHR '':'') line"

fun count_processors :: "(string + string) list \<Rightarrow> usize \<Rightarrow> usize result" where
  "count_processors [] n = Inr n"
| "count_processors (Inl e # ls) n = Inl (IO e)"
| "count_processors (Inr line # ls) n =
     count_processors ls (if trim_end (first_field line) = ''processor'' then n + 1 else n)"

definition num_cpus :: "string + (string + string) list \<Rightarrow> usize result" where
  "num_cpus cpuinfo = (case cpuinfo of Inl e \<Rightarrow> Inl (IO e) | Inr ls \<Rightarrow> count_processors ls 0)"

definition num_cpus_elsewhere :: "usize result" where
  "num_cpus_elsewhere = Inl Unimplemented"

section \<open>What is restored\<close>

lemma sys_path_inj [simp]: "sys_path k = sys_path k' \<longleftrightarrow> k = k'"
  by (simp add: sys_path_def)

lemma set_bt_insert_sub: "set (bt_insert k v xs) \<subseteq> insert (k, v) (set xs)"
  by (induction k v xs rule: bt_insert.induct) auto

lemma read_to_string_Inr: "read_to_string env p fs = Inr v \<Longrightarrow> v = fs p"
  by (simp add: read_to_string_def split: option.splits)

lemma write_file_Inr: "write_file env p v fs = Inr fs' \<Longrightarrow> fs' = fs(p := shows_as env p v)"
  by (simp add: write_file_def split: option.splits)

text \<open>Restoring from a record of what was there brings everything back.\<close>

lemma restore_to:
  assumes "\<forall>(p, v) \<in> set vs. write_error env p v = None \<and> shows_as env p v = old p"
    and "\<And>p. p \<notin> fst ` set vs \<Longrightarrow> fs p = old p"
  shows "restore_loop env vs fs = old"
  using assms
proof (induction vs arbitrary: fs)
  case Nil
  then show ?case by (simp add: fun_eq_iff)
next
  case (Cons x vs)
  obtain p v where x: "x = (p, v)" by (cases x)
  from Cons.prems x have "write_file env p v fs = Inr (fs(p := old p))" by (simp add: write_file_def)
  moreover have "restore_loop env vs (fs(p := old p)) = old"
    by (rule Cons.IH) (use Cons.prems x in auto)
  ultimately show ?case by (simp add: x)
qed

text \<open>\<open>recorded old path prev fs\<close>: the record has the old contents, and nothing else was changed.\<close>

definition recorded :: "files \<Rightarrow> ('k \<Rightarrow> path) \<Rightarrow> (string \<Rightarrow> string) \<Rightarrow> ('k \<times> string) list \<Rightarrow> files \<Rightarrow> bool" where
  "recorded old path f prev fs \<longleftrightarrow> (\<forall>(k, v) \<in> set prev. v = f (old (path k))) \<and>
     (\<forall>p. p \<notin> path ` fst ` set prev \<longrightarrow> fs p = old p)"

lemma apply_loop_recorded:
  assumes "apply_loop env vs prev fs = (fs', Inr prev')" and "distinct (map fst vs)"
    and "fst ` set vs \<inter> fst ` set prev = {}" and "recorded old sys_path (\<lambda>v. v) prev fs"
  shows "recorded old sys_path (\<lambda>v. v) prev' fs' \<and> fst ` set prev' = fst ` set prev \<union> fst ` set vs"
  using assms
proof (induction vs arbitrary: prev fs)
  case (Cons x vs)
  obtain k v where x: "x = (k, v)" by (cases x)
  from Cons.prems(1) x obtain w fs1 where w: "read_to_string env (sys_path k) fs = Inr w"
    "write_file env (sys_path k) v fs = Inr fs1" "apply_loop env vs (bt_insert k w prev) fs1 = (fs', Inr prev')"
    by (auto split: sum.splits)
  have "sys_path k \<notin> sys_path ` fst ` set prev" using Cons.prems(3) x by (simp add: inj_image_mem_iff inj_def)
  with Cons.prems(4) have "fs (sys_path k) = old (sys_path k)" by (simp add: recorded_def)
  with read_to_string_Inr [OF w(1)] have old: "w = old (sys_path k)" by simp
  note keys = set_bt_insert [of k w prev]
  have "recorded old sys_path (\<lambda>v. v) (bt_insert k w prev) fs1"
    using Cons.prems(4) old set_bt_insert_sub [of k w prev] write_file_Inr [OF w(2)]
    unfolding recorded_def keys by (auto simp del: image_iff)
  moreover have "fst ` set vs \<inter> fst ` set (bt_insert k w prev) = {}"
    unfolding keys using Cons.prems(2,3) x by auto
  ultimately have "recorded old sys_path (\<lambda>v. v) prev' fs' \<and>
      fst ` set prev' = fst ` set (bt_insert k w prev) \<union> fst ` set vs"
    using Cons.IH [OF w(3)] Cons.prems(2) by (simp only: x list.map distinct.simps simp_thms)
  then show ?case unfolding keys by (auto simp: x)
qed simp

text \<open>A configuration that was built from scratch.\<close>

definition built :: "(string \<times> string) list \<Rightarrow> system_config" where
  "built kvs = fold (\<lambda>(key, v). set_value key v) kvs system_config_new"

lemma built_facts: "bt_wf (sc_values (built kvs)) \<and> prev_values (built kvs) = [] \<and>
    fst ` set (sc_values (built kvs)) = fst ` set kvs"
proof -
  have "bt_wf (sc_values c) \<Longrightarrow>
      bt_wf (sc_values (fold (\<lambda>(key, v). set_value key v) kvs c)) \<and>
      prev_values (fold (\<lambda>(key, v). set_value key v) kvs c) = prev_values c \<and>
      fst ` set (sc_values (fold (\<lambda>(key, v). set_value key v) kvs c)) = fst ` set (sc_values c) \<union> fst ` set kvs" for c
  proof (induction kvs arbitrary: c)
    case (Cons x kvs)
    from Cons.prems have "bt_wf (sc_values (set_value (fst x) (snd x) c))"
      by (simp add: set_value_def bt_insert_wf)
    from Cons.IH [OF this] show ?case by (simp add: case_prod_unfold set_value_def set_bt_insert)
  qed simp
  from this [of system_config_new] show ?thesis
    by (simp add: built_def system_config_new_def bt_wf_def)
qed

lemma apply_config_recorded:
  assumes "apply_config env (built kvs) fs = (fs', Inr g)"
  shows "recorded fs sys_path (\<lambda>v. v) (prev_values g) fs' \<and> fst ` set (prev_values g) = fst ` set kvs"
proof -
  from assms have a: "apply_loop env (sc_values (built kvs)) [] fs = (fs', Inr (prev_values g))"
    using built_facts [of kvs] by (auto simp: apply_config_def split: prod.splits sum.splits)
  from apply_loop_recorded [OF a, of fs] bt_wf_distinct [of "sc_values (built kvs)"] built_facts [of kvs] show ?thesis
    by (simp add: recorded_def)
qed


text \<open>\<open>settled env p v w\<close>: writing \<open>v\<close> to the file succeeds, and the file then shows \<open>w\<close>.\<close>

definition settled :: "file_env \<Rightarrow> path \<Rightarrow> string \<Rightarrow> string \<Rightarrow> bool" where
  "settled env p v w \<longleftrightarrow> write_error env p v = None \<and> shows_as env p v = w"

lemma restore_overlay:
  assumes "\<And>p v. (p, v) \<in> set vs \<Longrightarrow> settled env p v (old p)" and "P = fst ` set vs"
  shows "restore_loop env vs fs = (\<lambda>p. if p \<in> P then old p else fs p)"
  by (rule restore_to) (use assms in \<open>force simp: settled_def\<close>)+

lemma fst_set_map: "fst ` set (map (\<lambda>(k, v). (f k, v)) xs) = f ` fst ` set xs"
  by (induction xs) auto

lemma restore_record:
  assumes "\<And>k v. (k, v) \<in> set rs \<Longrightarrow> settled env (path k) v (old (path k))" and "fst ` set rs = K"
  shows "restore_loop env (map (\<lambda>(k, v). (path k, v)) rs) fs =
    (\<lambda>p. if p \<in> path ` K then old p else fs p)"
proof (rule restore_overlay)
  show "settled env p v (old p)" if "(p, v) \<in> set (map (\<lambda>(k, v). (path k, v)) rs)" for p v
    using that assms(1) by auto
qed (simp only: fst_set_map assms(2))


lemma read_governors_recorded:
  assumes "read_governors env cpus prev fs = Inr prev'"
  shows "set prev' \<subseteq> set prev \<union> (\<lambda>cpu. (cpu, trim (fs (governor_path cpu)))) ` set cpus \<and>
    fst ` set prev' = fst ` set prev \<union> set cpus"
  using assms
proof (induction cpus arbitrary: prev)
  case (Cons cpu cpus)
  from Cons.prems obtain v where v: "read_to_string env (governor_path cpu) fs = Inr v"
    "read_governors env cpus (bt_insert cpu (trim v) prev) fs = Inr prev'" by (auto split: sum.splits)
  from Cons.IH [OF v(2)] set_bt_insert_sub [of cpu "trim v" prev] set_bt_insert [of cpu "trim v" prev]
    read_to_string_Inr [OF v(1)]
  show ?case by auto
qed simp

text \<open>A CPU governor guard restores the governors of all its CPUs, in the same sense, and touches
  no other file.\<close>

theorem governor_restored:
  assumes "performance env cpus fs = (fs', Inr g)"
    and "\<And>cpu. cpu \<in> set cpus \<Longrightarrow>
      settled env (governor_path cpu) (trim (fs (governor_path cpu))) (fs (governor_path cpu))"
  shows "cpu_governor_drop env g now =
    (\<lambda>p. if p \<in> governor_path ` set cpus then fs p else now p)"
proof -
  from assms(1) have "read_governors env cpus [] fs = Inr (prev_governor g)"
    by (auto simp: performance_def split: sum.splits prod.splits)
  note r = read_governors_recorded [OF this]
  have "v = trim (fs (governor_path cpu)) \<and> cpu \<in> set cpus" if "(cpu, v) \<in> set (prev_governor g)" for cpu v
    using subsetD [OF conjunct1 [OF r] that] by auto
  with assms(2) show ?thesis
    unfolding cpu_governor_drop_def by (intro restore_record conjunct2 [OF r, simplified]) metis
qed

section \<open>What is left after a failure\<close>

definition write_all :: "file_env \<Rightarrow> (path \<times> string) list \<Rightarrow> files \<Rightarrow> files" where
  "write_all env = fold (\<lambda>(p, v) fs. fs(p := shows_as env p v))"

lemma apply_loop_failed:
  "apply_loop env vs prev fs = (fs', Inl e) \<Longrightarrow>
    \<exists>ds k v rest. vs = ds @ (k, v) # rest \<and>
      fs' = write_all env (map (\<lambda>(k, v). (sys_path k, v)) ds) fs \<and>
      (read_to_string env (sys_path k) fs' = Inl e \<or> write_file env (sys_path k) v fs' = Inl e)"
proof (induction vs arbitrary: prev fs)
  case (Cons x vs)
  obtain k v where x: "x = (k, v)" by (cases x)
  show ?case
  proof (cases "\<exists>w fs1. read_to_string env (sys_path k) fs = Inr w \<and> write_file env (sys_path k) v fs = Inr fs1")
    case True
    then obtain w fs1 where w: "read_to_string env (sys_path k) fs = Inr w"
      "write_file env (sys_path k) v fs = Inr fs1" by blast
    with Cons.prems x have "apply_loop env vs (bt_insert k w prev) fs1 = (fs', Inl e)" by simp
    from Cons.IH [OF this] obtain ds k' v' rest where r: "vs = ds @ (k', v') # rest"
      "fs' = write_all env (map (\<lambda>(k, v). (sys_path k, v)) ds) fs1"
      "read_to_string env (sys_path k') fs' = Inl e \<or> write_file env (sys_path k') v' fs' = Inl e" by blast
    then have "x # vs = (x # ds) @ (k', v') # rest" by simp
    moreover have "fs' = write_all env (map (\<lambda>(k, v). (sys_path k, v)) (x # ds)) fs"
      unfolding r(2) write_file_Inr [OF w(2)] by (simp add: write_all_def x)
    ultimately show ?thesis using r(3) by blast
  next
    case False
    with Cons.prems x have "fs' = fs \<and>
        (read_to_string env (sys_path k) fs = Inl e \<or> write_file env (sys_path k) v fs = Inl e)"
      by (auto split: sum.splits)
    then have "x # vs = [] @ (k, v) # vs \<and> fs' = write_all env (map (\<lambda>(k, v). (sys_path k, v)) []) fs \<and>
        (read_to_string env (sys_path k) fs' = Inl e \<or> write_file env (sys_path k) v fs' = Inl e)"
      by (simp add: x write_all_def)
    then show ?thesis by blast
  qed
qed simp


text \<open>All governors are read before the first one is written: a CPU without one changes nothing.\<close>

lemma performance_reads_first:
  "cpu \<in> set cpus \<Longrightarrow> read_error env (governor_path cpu) = Some e \<Longrightarrow>
    \<exists>e'. performance env cpus fs = (fs, Inl e')"
proof -
  assume "cpu \<in> set cpus" "read_error env (governor_path cpu) = Some e"
  then have "\<exists>e'. read_governors env cpus prev fs = Inl e'" for prev
    by (induction cpus arbitrary: prev) (auto simp: read_to_string_def split: option.splits)
  then show ?thesis by (metis (no_types, lifting) performance_def sum.case(1))
qed

section \<open>The count of the CPUs\<close>

text \<open>A readable file has as many CPUs as it has lines of which the part before the colon is
  \<open>processor\<close>.\<close>

lemma num_cpus_counts:
  "num_cpus (Inr (map Inr ls)) = Inr (length (filter (\<lambda>l. trim_end (first_field l) = ''processor'') ls))"
proof -
  have "count_processors (map Inr ls) n =
      Inr (n + length (filter (\<lambda>l. trim_end (first_field l) = ''processor'') ls))" for n
    by (induction ls arbitrary: n) auto
  then show ?thesis by (simp add: num_cpus_def)
qed

section \<open>Witnesses\<close>

text \<open>A kernel that takes the first character and adds a line break, and refuses \<open>x\<close>.\<close>

definition demo_env :: file_env where
  "demo_env = \<lparr> read_error = (\<lambda>p. if p = sys_path ''c'' then Some ''none'' else None),
     write_error = (\<lambda>p v. if v = ''x'' then Some ''refused'' else None),
     shows_as = (\<lambda>p v. takeWhile (\<lambda>c. c \<noteq> CHR 0x0A) v @ [CHR 0x0A]) \<rparr>"

definition demo_files :: files where
  "demo_files = (\<lambda>p. ''off'' @ [CHR 0x0A])"


theorem governor_restored_witness:
  "\<exists>fs' g. performance demo_env [3, 12, 3] demo_files = (fs', Inr g) \<and>
     fs' (governor_path 12) = ''performance'' @ [CHR 0x0A] \<and>
     cpu_governor_drop demo_env g fs' (governor_path 12) = ''off'' @ [CHR 0x0A]"
proof -
  have p: "\<exists>fs' g. performance demo_env [3, 12, 3] demo_files = (fs', Inr g) \<and>
      fs' (governor_path 12) = ''performance'' @ [CHR 0x0A]"
    by (simp add: performance_def read_to_string_def write_file_def demo_env_def governor_path_def sys_path_def)
  then obtain fs' g where fg: "performance demo_env [3, 12, 3] demo_files = (fs', Inr g)"
    "fs' (governor_path 12) = ''performance'' @ [CHR 0x0A]" by blast
  have "settled demo_env (governor_path cpu) (trim (demo_files (governor_path cpu)))
      (demo_files (governor_path cpu))" for cpu
    by (simp add: settled_def demo_env_def demo_files_def trim_def trim_start_def trim_end_def is_space_def)
  from governor_restored [OF fg(1) this] fg show ?thesis by (auto simp: demo_files_def)
qed


end
