(* ===== verification/Thread_Rt.thy ===== *)
theory Thread_Rt
  imports System "HOL-Library.Word"
begin

text \<open>
  Real-time parameters of threads and the preallocation of the heap: \<open>src/src/thread_rt/mod.rs\<close> and
  its three back ends, \<open>linux_gnu.rs\<close> (system calls), \<open>linux_other.rs\<close> (the commands \<open>taskset\<close> and
  \<open>chrt\<close>) and \<open>unsupported.rs\<close>. The system is a parameter: the calls of the \<open>libc\<close> crate, or of the
  shell commands, on a state of type \<open>'w\<close>. Both back ends are shown to run the same list of requests.
\<close>

section \<open>Parameters\<close>

datatype scheduling = RoundRobin | FIFO | Idle | Batch | DeadLine | Other

record params =
  priority :: "int option"
  scheduling :: scheduling
  cpu_ids :: "usize list"

definition params_new :: params where
  "params_new = \<lparr> priority = None, scheduling = Other, cpu_ids = [] \<rparr>"

definition with_priority :: "int option \<Rightarrow> params \<Rightarrow> params" where
  "with_priority p ps = ps\<lparr> priority := p \<rparr>"

definition with_scheduling :: "scheduling \<Rightarrow> params \<Rightarrow> params" where
  "with_scheduling s ps = ps\<lparr> scheduling := s \<rparr>"

definition with_cpu_ids :: "usize list \<Rightarrow> params \<Rightarrow> params" where
  "with_cpu_ids ids ps = ps\<lparr> cpu_ids := ids \<rparr>"

text \<open>How a call ends: a panic is \<open>None\<close>; and the state of the system after it.\<close>

type_synonym 'w outcome = "unit result option \<times> 'w"

definition show_int :: "int \<Rightarrow> string" where
  "show_int i = (if i < 0 then CHR ''-'' # decimal (nat (- i)) else decimal (nat i))"

section \<open>System calls: linux\_gnu.rs\<close>

record sched_consts =
  sched_rr :: int
  sched_fifo :: int
  sched_idle :: int
  sched_batch :: int
  sched_deadline :: int
  sched_normal :: int

fun c_int_of :: "sched_consts \<Rightarrow> scheduling \<Rightarrow> int" where
  "c_int_of c RoundRobin = sched_rr c"
| "c_int_of c FIFO = sched_fifo c"
| "c_int_of c Idle = sched_idle c"
| "c_int_of c Batch = sched_batch c"
| "c_int_of c DeadLine = sched_deadline c"
| "c_int_of c Other = sched_normal c"

record ('w, 'c) libc =
  getuid :: "'w \<Rightarrow> nat"
  os_consts :: sched_consts
  zeroed :: 'c
  cpu_set :: "usize \<Rightarrow> 'c \<Rightarrow> 'c option"
  sched_setaffinity :: "int \<Rightarrow> 'c \<Rightarrow> 'w \<Rightarrow> int \<times> 'w"
  sched_setscheduler :: "int \<Rightarrow> int \<Rightarrow> int \<Rightarrow> 'w \<Rightarrow> int \<times> 'w"
  no_mmap :: "'w \<Rightarrow> int \<times> 'w"
  no_trim :: "'w \<Rightarrow> int \<times> 'w"
  mlock_future :: "'w \<Rightarrow> int \<times> 'w"
  page_size :: "'w \<Rightarrow> int"
  alloc_zeroed :: "usize \<Rightarrow> 'w \<Rightarrow> (8 word list \<times> 'w) option"

fun cpu_set_all :: "(usize \<Rightarrow> 'c \<Rightarrow> 'c option) \<Rightarrow> usize list \<Rightarrow> 'c \<Rightarrow> 'c option" where
  "cpu_set_all set_cpu [] s = Some s"
| "cpu_set_all set_cpu (cpu # cpus) s = Option.bind (set_cpu cpu s) (cpu_set_all set_cpu cpus)"

text \<open>The policy that is set: the priority zero is only possible without real time.\<close>

definition sched_for :: "int \<Rightarrow> params \<Rightarrow> scheduling" where
  "sched_for prio ps = (if prio = 0 then Other else scheduling ps)"

definition gnu_affinity :: "('w, 'c) libc \<Rightarrow> int \<Rightarrow> usize list \<Rightarrow> 'w \<Rightarrow> 'w outcome" where
  "gnu_affinity os tid cpus w =
     (case cpu_set_all (cpu_set os) cpus (zeroed os) of
        None \<Rightarrow> (None, w)
      | Some cpuset \<Rightarrow>
          (case sched_setaffinity os tid cpuset w of
             (res, w') \<Rightarrow> (Some (if res \<noteq> 0 then Inl (RTSchedSetAffinity (show_int res)) else Inr ()), w')))"

definition gnu_scheduler :: "('w, 'c) libc \<Rightarrow> int \<Rightarrow> scheduling \<Rightarrow> int \<Rightarrow> 'w \<Rightarrow> 'w outcome" where
  "gnu_scheduler os tid sched prio w =
     (case sched_setscheduler os tid (c_int_of (os_consts os) sched) prio w of
        (res, w') \<Rightarrow> (Some (if res \<noteq> 0 then Inl (RTSchedSetScheduler (show_int res)) else Inr ()), w'))"

text \<open>The two halves of \<open>apply\<close>: the CPUs, and, when that went well, the scheduler.\<close>

definition gnu_apply_cpus :: "('w, 'c) libc \<Rightarrow> nat \<Rightarrow> int \<Rightarrow> params \<Rightarrow> 'w \<Rightarrow> 'w outcome" where
  "gnu_apply_cpus os user_id tid ps w =
     (if cpu_ids ps = [] then (Some (Inr ()), w)
      else if user_id \<noteq> 0 then (Some (Inl AccessDenied), w)
      else gnu_affinity os tid (cpu_ids ps) w)"

definition gnu_apply_priority :: "('w, 'c) libc \<Rightarrow> nat \<Rightarrow> int \<Rightarrow> params \<Rightarrow> 'w \<Rightarrow> 'w outcome" where
  "gnu_apply_priority os user_id tid ps w =
     (case priority ps of
        None \<Rightarrow> (Some (Inr ()), w)
      | Some prio \<Rightarrow>
          if user_id \<noteq> 0 then (Some (Inl AccessDenied), w)
          else gnu_scheduler os tid (sched_for prio ps) prio w)"

definition gnu_apply :: "('w, 'c) libc \<Rightarrow> int \<Rightarrow> params \<Rightarrow> 'w \<Rightarrow> 'w outcome" where
  "gnu_apply os tid ps w =
     (let user_id = getuid os w in
      case gnu_apply_cpus os user_id tid ps w of
        (Some (Inr _), w') \<Rightarrow> gnu_apply_priority os user_id tid ps w'
      | r \<Rightarrow> r)"

definition gnu_apply_for_current :: "('w, 'c) libc \<Rightarrow> params \<Rightarrow> 'w \<Rightarrow> 'w outcome" where
  "gnu_apply_for_current os ps w = gnu_apply os 0 ps w"

section \<open>Commands: linux\_other.rs\<close>

text \<open>
  A command that could not be started gives the message; one that ran gives its exit code, unless a
  signal ended it. Output is discarded.
\<close>

record 'w shell =
  sh_getuid :: "'w \<Rightarrow> nat"
  gettid :: "'w \<Rightarrow> int"
  status :: "string \<Rightarrow> string list \<Rightarrow> 'w \<Rightarrow> (string + int option) \<times> 'w"

fun chrt_argument :: "scheduling \<Rightarrow> string" where
  "chrt_argument RoundRobin = ''--rr''"
| "chrt_argument FIFO = ''--fifo''"
| "chrt_argument Idle = ''--idle''"
| "chrt_argument Batch = ''--batch''"
| "chrt_argument DeadLine = ''--deadline''"
| "chrt_argument Other = ''--other''"

fun join :: "string \<Rightarrow> string list \<Rightarrow> string" where
  "join sep [] = []"
| "join sep [s] = s"
| "join sep (s # t # ss) = s @ sep @ join sep (t # ss)"

definition exit_code_text :: "string \<Rightarrow> int option \<Rightarrow> string" where
  "exit_code_text cmd code = cmd @ '' exit code '' @ show_int (case code of None \<Rightarrow> -1 | Some c \<Rightarrow> c)"

definition command :: "'w shell \<Rightarrow> (string \<Rightarrow> error) \<Rightarrow> string \<Rightarrow> string list \<Rightarrow> 'w \<Rightarrow> 'w outcome" where
  "command sh err cmd args w =
     (case status sh cmd args w of
        (Inl e, w') \<Rightarrow> (Some (Inl (err e)), w')
      | (Inr code, w') \<Rightarrow>
          (Some (if code = Some 0 then Inr () else Inl (err (exit_code_text cmd code))), w'))"

definition other_affinity :: "'w shell \<Rightarrow> int \<Rightarrow> usize list \<Rightarrow> 'w \<Rightarrow> 'w outcome" where
  "other_affinity sh tid cpus =
     command sh RTSchedSetAffinity ''taskset'' [''-cp'', join '','' (map decimal cpus), show_int tid]"

definition other_scheduler :: "'w shell \<Rightarrow> int \<Rightarrow> scheduling \<Rightarrow> int \<Rightarrow> 'w \<Rightarrow> 'w outcome" where
  "other_scheduler sh tid sched prio =
     command sh RTSchedSetScheduler ''chrt'' [chrt_argument sched, ''-p'', show_int prio, show_int tid]"

definition other_apply_cpus :: "'w shell \<Rightarrow> nat \<Rightarrow> int \<Rightarrow> params \<Rightarrow> 'w \<Rightarrow> 'w outcome" where
  "other_apply_cpus sh user_id tid ps w =
     (if cpu_ids ps = [] then (Some (Inr ()), w)
      else if user_id \<noteq> 0 then (Some (Inl AccessDenied), w)
      else other_affinity sh tid (cpu_ids ps) w)"

definition other_apply_priority :: "'w shell \<Rightarrow> nat \<Rightarrow> int \<Rightarrow> params \<Rightarrow> 'w \<Rightarrow> 'w outcome" where
  "other_apply_priority sh user_id tid ps w =
     (case priority ps of
        None \<Rightarrow> (Some (Inr ()), w)
      | Some prio \<Rightarrow>
          if user_id \<noteq> 0 then (Some (Inl AccessDenied), w)
          else other_scheduler sh tid (sched_for prio ps) prio w)"

definition other_apply :: "'w shell \<Rightarrow> int \<Rightarrow> params \<Rightarrow> 'w \<Rightarrow> 'w outcome" where
  "other_apply sh tid ps w =
     (let user_id = sh_getuid sh w in
      case other_apply_cpus sh user_id tid ps w of
        (Some (Inr _), w') \<Rightarrow> other_apply_priority sh user_id tid ps w'
      | r \<Rightarrow> r)"

definition fits_i32 :: "int \<Rightarrow> bool" where
  "fits_i32 i \<longleftrightarrow> - (2 ^ 31) \<le> i \<and> i < 2 ^ 31"

definition other_apply_for_current :: "'w shell \<Rightarrow> params \<Rightarrow> 'w \<Rightarrow> 'w outcome" where
  "other_apply_for_current sh ps w =
     (if fits_i32 (gettid sh w) then other_apply sh (gettid sh w) ps w
      else (Some (Inl (Failed ''out of range integral type conversion attempted'')), w))"

section \<open>Elsewhere: unsupported.rs\<close>

definition unsupported_apply :: "int \<Rightarrow> params \<Rightarrow> 'w \<Rightarrow> 'w outcome" where
  "unsupported_apply tid ps w = (Some (Inl Unimplemented), w)"

definition unsupported_apply_for_current :: "params \<Rightarrow> 'w \<Rightarrow> 'w outcome" where
  "unsupported_apply_for_current ps w = (Some (Inl Unimplemented), w)"

section \<open>Preallocating the heap\<close>

text \<open>\<open>(0..size).step_by(page)\<close>, which panics for a step of zero.\<close>

function steps :: "nat \<Rightarrow> nat \<Rightarrow> nat \<Rightarrow> nat list" where
  "steps i sz page = (if i < sz \<and> 0 < page then i # steps (i + page) sz page else [])"
  by auto
termination by (relation "measure (\<lambda>(i, sz, page). sz - i)") auto

declare steps.simps [simp del]

definition step_by :: "nat \<Rightarrow> nat \<Rightarrow> nat list option" where
  "step_by sz page = (if page = 0 then None else Some (steps 0 sz page))"

text \<open>A write to an index that is out of range panics.\<close>

fun touch :: "nat list \<Rightarrow> 8 word list \<Rightarrow> 8 word list option" where
  "touch [] heap_mem = Some heap_mem"
| "touch (i # is) heap_mem = (if i < length heap_mem then touch is (heap_mem[i := 0xff]) else None)"

text \<open>The result also has the memory as it is just before it is released.\<close>

definition prealloc_heap :: "('w, 'c) libc \<Rightarrow> usize \<Rightarrow> 'w \<Rightarrow> 'w outcome \<times> 8 word list" where
  "prealloc_heap os sz w =
     (if sz = 0 then ((Some (Inr ()), w), [])
      else if getuid os w \<noteq> 0 then ((Some (Inl AccessDenied), w), [])
      else case no_mmap os w of (r1, w1) \<Rightarrow>
        if r1 \<noteq> 1 then
          ((Some (Inl (Failed ''unable to disable mmap for allocation of large mem regions'')), w1), [])
        else case no_trim os w1 of (r2, w2) \<Rightarrow>
          if r2 \<noteq> 1 then ((Some (Inl (Failed ''unable to disable trimming'')), w2), [])
          else case mlock_future os w2 of (r3, w3) \<Rightarrow>
            if r3 = -1 then ((Some (Inl (Failed ''unable to lock memory pages'')), w3), [])
            else if page_size os w3 < 0 then ((None, w3), [])
            else (case alloc_zeroed os sz w3 of
                    None \<Rightarrow> ((None, w3), [])
                  | Some (heap_mem, w4) \<Rightarrow>
                      (case Option.bind (step_by sz (nat (page_size os w3))) (\<lambda>is. touch is heap_mem) of
                         None \<Rightarrow> ((None, w4), [])
                       | Some mem \<Rightarrow> ((Some (Inr ()), w4), mem))))"

definition prealloc_heap_elsewhere :: "usize \<Rightarrow> 'w \<Rightarrow> 'w outcome" where
  "prealloc_heap_elsewhere sz w = (Some (if sz = 0 then Inr () else Inl Unimplemented), w)"

section \<open>Both back ends run the same requests\<close>

datatype request = Affinity "usize list" | Scheduler scheduling int

definition requests :: "params \<Rightarrow> request list" where
  "requests ps = (if cpu_ids ps = [] then [] else [Affinity (cpu_ids ps)]) @
     (case priority ps of None \<Rightarrow> [] | Some prio \<Rightarrow> [Scheduler (sched_for prio ps) prio])"

text \<open>Requests are carried out one after the other, up to the first that fails; only root may ask.\<close>

fun run_requests :: "(request \<Rightarrow> 'w \<Rightarrow> 'w outcome) \<Rightarrow> request list \<Rightarrow> 'w \<Rightarrow> 'w outcome" where
  "run_requests exec [] w = (Some (Inr ()), w)"
| "run_requests exec (r # rs) w =
     (case exec r w of (Some (Inr _), w') \<Rightarrow> run_requests exec rs w' | other \<Rightarrow> other)"

definition apply_spec :: "bool \<Rightarrow> (request \<Rightarrow> 'w \<Rightarrow> 'w outcome) \<Rightarrow> params \<Rightarrow> 'w \<Rightarrow> 'w outcome" where
  "apply_spec root exec ps w =
     (if requests ps \<noteq> [] \<and> \<not> root then (Some (Inl AccessDenied), w) else run_requests exec (requests ps) w)"

fun gnu_exec :: "('w, 'c) libc \<Rightarrow> int \<Rightarrow> request \<Rightarrow> 'w \<Rightarrow> 'w outcome" where
  "gnu_exec os tid (Affinity cpus) = gnu_affinity os tid cpus"
| "gnu_exec os tid (Scheduler s prio) = gnu_scheduler os tid s prio"

fun other_exec :: "'w shell \<Rightarrow> int \<Rightarrow> request \<Rightarrow> 'w \<Rightarrow> 'w outcome" where
  "other_exec sh tid (Affinity cpus) = other_affinity sh tid cpus"
| "other_exec sh tid (Scheduler s prio) = other_scheduler sh tid s prio"

lemma spec_two_requests:
  "apply_spec root exec ps w =
     (case (if cpu_ids ps = [] then (Some (Inr ()), w)
            else if \<not> root then (Some (Inl AccessDenied), w) else exec (Affinity (cpu_ids ps)) w) of
        (Some (Inr _), w') \<Rightarrow>
          (case priority ps of
             None \<Rightarrow> (Some (Inr ()), w')
           | Some prio \<Rightarrow> if \<not> root then (Some (Inl AccessDenied), w')
               else exec (Scheduler (sched_for prio ps) prio) w')
      | r \<Rightarrow> r)"
  by (cases root; cases "priority ps"; cases "cpu_ids ps = []")
    (simp_all add: apply_spec_def requests_def split: prod.split option.split sum.split)


section \<open>The pages that are touched\<close>

lemma set_steps: "0 < page \<Longrightarrow> set (steps i sz page) = {j. \<exists>k. j = i + k * page \<and> j < sz}"
proof (induction i sz page rule: steps.induct)
  case (1 i sz page)
  show ?case
  proof (cases "i < sz")
    case True
    have "{j. \<exists>k. j = i + k * page \<and> j < sz} = insert i {j. \<exists>k. j = i + page + k * page \<and> j < sz}"
      (is "?A = ?B")
    proof
      show "?A \<subseteq> ?B"
      proof
        fix j assume "j \<in> ?A"
        then obtain k where k: "j = i + k * page" "j < sz" by blast
        then show "j \<in> ?B" by (cases k) auto
      qed
      show "?B \<subseteq> ?A"
      proof
        fix j assume "j \<in> ?B"
        then consider "j = i + 0 * page" | k where "j = i + page + k * page" "j < sz" by auto
        then show "j \<in> ?A"
        proof cases
          case 1
          with True have "j = i + 0 * page \<and> j < sz" by simp
          then show ?thesis by blast
        next
          case 2
          then have "j = i + Suc k * page \<and> j < sz" by simp
          then show ?thesis by blast
        qed
      qed
    qed
    with 1 True show ?thesis by (simp add: steps.simps [of i])
  next
    case False
    then show ?thesis by (auto simp: steps.simps [of i])
  qed
qed

lemma touch_Some:
  "\<forall>i \<in> set is. i < length mem \<Longrightarrow>
    \<exists>mem'. touch is mem = Some mem' \<and> length mem' = length mem \<and>
      (\<forall>i < length mem. mem' ! i = (if i \<in> set is then 0xff else mem ! i))"
proof (induction "is" arbitrary: mem)
  case (Cons i "is")
  with Cons.IH [of "mem[i := 0xff]"] obtain mem' where m: "touch is (mem[i := 0xff]) = Some mem'"
    "length mem' = length mem" "\<forall>j < length mem. mem' ! j = (if j \<in> set is then 0xff else mem[i := 0xff] ! j)"
    by auto
  with Cons.prems show ?case by (auto simp: nth_list_update intro!: exI [of _ mem'])
qed simp

lemma touch_steps:
  assumes "0 < page" and "length mem = sz"
  shows "\<exists>mem'. Option.bind (step_by sz page) (\<lambda>is. touch is mem) = Some mem' \<and> length mem' = sz \<and>
    (\<forall>i < sz. mem' ! i = (if page dvd i then 0xff else mem ! i))"
proof -
  have "i \<in> set (steps 0 sz page) \<longleftrightarrow> page dvd i \<and> i < sz" for i
    using assms(1) by (auto simp: set_steps dvd_def mult.commute)
  with touch_Some [of "steps 0 sz page" mem] assms show ?thesis
    by (simp add: step_by_def del: steps.simps)
qed

text \<open>C40: when the system's calls succeed, preallocating does too, and wherever in memory the region
  lies, every page it covers is written to, except possibly the one of its last byte.\<close>

theorem prealloc_touches_pages:
  assumes "getuid os w = 0" and "no_mmap os w = (1, w1)" and "no_trim os w1 = (1, w2)"
    and "mlock_future os w2 = (0, w3)" and "page_size os w3 = int page" and "0 < page"
    and "alloc_zeroed os sz w3 = Some (replicate sz 0, w4)" and "0 < sz"
  shows "fst (prealloc_heap os sz w) = (Some (Inr ()), w4) \<and>
    {base div page ..< (base + sz - 1) div page} \<subseteq>
      (\<lambda>i. (base + i) div page) ` {i. i < sz \<and> snd (prealloc_heap os sz w) ! i = 0xff}"
proof -
  from touch_steps [OF \<open>0 < page\<close>, of "replicate sz 0" sz] obtain mem where
    m: "Option.bind (step_by sz page) (\<lambda>is. touch is (replicate sz 0)) = Some mem"
      "\<forall>i < sz. mem ! i = (if page dvd i then 0xff else replicate sz 0 ! i)" by auto
  with assms have p: "prealloc_heap os sz w = ((Some (Inr ()), w4), mem)"
    by (simp add: prealloc_heap_def)
  have "q \<in> (\<lambda>i. (base + i) div page) ` {i. i < sz \<and> mem ! i = 0xff}"
    if "base div page \<le> q" "q < (base + sz - 1) div page" for q
  proof
    define i where "i = (q - base div page) * page"
    have "base + i = q * page + base mod page"
      using div_mult_mod_eq [of base page] mult_le_mono1 [OF that(1), of page]
      unfolding i_def diff_mult_distrib by linarith
    moreover have "q * page + page \<le> base + sz - 1"
      using that(2) \<open>0 < page\<close> by (metis Suc_leI add.commute less_eq_div_iff_mult_less_eq mult_Suc)
    ultimately show "q = (base + i) div page" "i \<in> {i. i < sz \<and> mem ! i = 0xff}"
      using m(2) mod_less_divisor [OF \<open>0 < page\<close>, of base] by (auto simp: i_def)
  qed
  then show ?thesis by (auto simp: p)
qed

section \<open>Witnesses\<close>

definition demo_libc :: "(nat, nat) libc" where
  "demo_libc = \<lparr> getuid = (\<lambda>_. 0), os_consts = \<lparr> sched_rr = 2, sched_fifo = 1, sched_idle = 5,
       sched_batch = 3, sched_deadline = 6, sched_normal = 0 \<rparr>,
     zeroed = 0, cpu_set = (\<lambda>cpu s. if cpu < 1024 then Some (s + 2 ^ cpu) else None),
     sched_setaffinity = (\<lambda>_ _ w. (0, w)), sched_setscheduler = (\<lambda>_ _ _ w. (0, w)),
     no_mmap = (\<lambda>w. (1, w)), no_trim = (\<lambda>w. (1, w)), mlock_future = (\<lambda>w. (0, w)),
     page_size = (\<lambda>_. 4), alloc_zeroed = (\<lambda>n w. Some (replicate n 0, Suc w)) \<rparr>"

theorem prealloc_touches_pages_witness:
  "fst (prealloc_heap demo_libc 10 0) = (Some (Inr ()), 1) \<and>
   {0 ..< 2} \<subseteq> (\<lambda>i. (2 + i) div 4) ` {i. i < 10 \<and> snd (prealloc_heap demo_libc 10 0) ! i = 0xff}"
  using prealloc_touches_pages [of demo_libc 0 0 0 0 4 10 1 2] by (simp add: demo_libc_def)

text \<open>The page of the last byte may be left out.\<close>

lemma last_page_untouched:
  "snd (prealloc_heap demo_libc 4 0) = [0xff, 0, 0, 0]"
  by code_simp

end
