(* ===== verification/Spec2Isabelle.thy ===== *)
theory Spec2Isabelle
  imports Channel Policy_Channel Data_Buffer Semaphore Coupler Ttl_Cell Ops Interval Event_Map
    Channel_Async Policy_Channel_Async Derive_Policy Pi_Mutex Pi_Notify System Thread_Rt
begin

text \<open>
  A verification library of \<open>rtsc\<close>, a Rust crate with components for real-time programs: channels
  between threads and between asynchronous tasks, with and without delivery policies; cells,
  couplers, a semaphore and buffers; locks with priority inheritance; timing helpers; and tools for
  the Linux scheduler. All source names below are relative to \<open>src/\<close>. The definitions are
  translations of the Rust code: a \<open>struct\<close> is a record, an \<open>enum\<close> a datatype, \<open>Result\<close> a sum
  with the error on the left (theory \<open>Rtsc_Error\<close>), a panic \<open>None\<close> or an outcome of its own.

  \<^bold>\<open>Parts and theories.\<close>

  \<^item> Foundations. \<open>Prelude\<close>: the collections \<open>op_defs\<close> and \<open>inv_defs\<close>, lemmas on lists. \<open>Vec_Deque\<close>:
    the ring buffer of the standard library with its two slices, since \<open>sort_by_priority\<close> depends on
    where the buffer wraps. \<open>Ordered_Map\<close>: \<open>BTreeMap\<close> as the ordered list of its entries.
    \<open>Monotonic\<close>: the clock.
  \<^item> Storage. \<open>Data_Policy\<close> (\<open>src/data_policy.rs\<close>) has the policies with their parser and printer and
    the trait \<open>DataDeliveryPolicy\<close> as a record of functions; \<open>PDeque\<close> (\<open>src/pdeque.rs\<close>) the bounded
    deque that obeys them, with a list description \<open>make_room\<close> and \<open>arranged\<close> of a push that
    \<open>try_push\<close> is proved to meet. \<open>Channel_Storage\<close> is the trait \<open>ChannelStorage\<close>, its contract as the
    locales \<open>storage_contract\<close> and \<open>fifo_storage_contract\<close>, and their interpretations on the policy
    deque and on the plain \<open>VecDeque\<close>.
  \<^item> Blocking components. \<open>Monitor\<close> states once how they all work: an operation runs in stretches
    under one mutex, and a stretch ends by returning, by waiting on a condition variable, or in a
    panic. A run interleaves the stretches of any number of threads; timed waits may run out at any
    moment, condition variables may wake spuriously where a run says so. The locales
    \<open>monitored\<close>, \<open>no_lost_wakeup\<close> and \<open>wakes_on_close\<close> carry the invariant, the absence of lost
    wake-ups, and the wake-ups on closing; \<open>Simulation\<close> relates two components. Instances:
    \<open>Base_Channel\<close> (\<open>src/base_channel.rs\<close>) with \<open>Channel\<close> (\<open>src/channel.rs\<close>) and \<open>Policy_Channel\<close>
    (\<open>src/policy_channel.rs\<close>); \<open>Semaphore\<close> (\<open>src/semaphore.rs\<close>); \<open>Data_Cell\<close>
    (\<open>src/cell/datacell.rs\<close>); \<open>Coupler\<close> (\<open>src/cell/coupler.rs\<close> and \<open>triplecoupler.rs\<close>), which
    simulates the data cell; \<open>Data_Buffer\<close> (\<open>src/buf.rs\<close>), whose operations never wait.
  \<^item> Asynchronous channels. \<open>Base_Channel_Async\<close> (\<open>src/base_channel_async.rs\<close>): the polls of the two
    futures, their drops, the tries and the blocking calls over one waker queue per side.
    \<open>Handoff\<close> is the contract of a queue that hands each unit to its head, \<open>Async_Wakeups\<close> the
    moves of one side, \<open>Async_Moves\<close> shows that every operation is a move on both sides, and
    \<open>Async_Liveness\<close> concludes. \<open>Channel_Async\<close> and \<open>Policy_Channel_Async\<close> are the two channels.
  \<^item> Locks. \<open>Pi_Lock\<close> (\<open>src/pi.rs\<close>) models \<open>PiLock\<close> and \<open>Condvar\<close> below the level of the monitors:
    every atomic operation and every futex call is a step of a thread with a program counter.
    \<open>Pi_Mutex\<close> shows exclusion, \<open>Pi_Condvar\<close> that the counter of waiters is exact, \<open>Pi_Notify\<close>
    that notifications under the lock are not lost. All notifications of the components
    above are made under their mutex, so these are the laws the monitors rely on.
  \<^item> Time. \<open>Ops\<close> (\<open>src/ops.rs\<close>), \<open>Interval\<close> (\<open>src/time.rs\<close>), \<open>Ttl_Cell\<close> (\<open>src/cell/ttlcell.rs\<close>)
    and \<open>Event_Map\<close> (\<open>src/event_map.rs\<close>). Each reading of the clock is an argument.
  \<^item> Derive macro. \<open>Derive_Policy\<close> (\<open>rtsc-derive/src/lib.rs\<close>): from the syntax tree to the
    generated \<open>impl\<close>, a check of its names and types, and its meaning.
  \<^item> Linux. \<open>System\<close> (\<open>src/system.rs\<close>): the files under \<open>/proc/sys\<close>, the CPU governors, the number
    of CPUs. \<open>Thread_Rt\<close> (\<open>src/thread_rt\<close>): the parameters of threads, the back ends with system
    calls and with commands, and the preallocation of the heap.

  \<^bold>\<open>What the theorems show.\<close> Functional behaviour: a push on every branch, first in first out for
  both plain channels over all interleavings, the nearest event, the answers of a derived policy.
  Invariants: counters, capacities and handles of channels, semaphore and condition variable.
  Liveness: when everybody who was woken has run, nobody waits for what is there. Refinement:
  the buffer implements an abstract ring, a coupler a cell, both back ends of \<open>apply\<close> one list of
  requests. Round trips: policy names, the restored system configuration. Termination: \<open>tick\<close>, with the
  one case in which it loops. Errors: what makes the macro panic and what a failing \<open>apply\<close> leaves
  behind. Where the code does not do what its documentation says, the theorem states what it does:
  a sender that is never woken after the last receiver went away, policy channels in which both
  sides sleep after a value expired, a closed cell whose waiters wait on, an asynchronous receiver
  stranded by a stale waker, values of equal priority that overtake each other, a guard that cannot
  be dropped by another thread, a configuration that is left half applied.

  \<^bold>\<open>Parameters and what is assumed of them.\<close>

  \<^item> The allocator of \<open>VecDeque\<close> (\<open>allocator_ok\<close>: at least the requested capacity, growth grows).
  \<^item> The delivery policy of the values is a record of functions; at each step of a run it may be
    another one (values expire), so nothing is assumed about when.
  \<^item> The clock (locale \<open>monotonic\<close>, interpreted on \<open>duration_clock\<close>), and the subtraction of keys in
    the event map (locale \<open>key_distance\<close>, interpreted on unsigned and signed numbers).
  \<^item> The futex calls of the kernel, \<open>kernel_ok\<close>: a lock call that succeeds found no owner and makes
    the caller the owner, an unlock by another thread than the owner is refused, a wake call wakes
    as many of the sleeping threads as it is asked to.
  \<^item> Files: which reads and writes fail, and what a written file shows. Threads: the calls of
    \<open>libc\<close>, the commands, and the memory the allocator returns.
  \<^item> Liveness on the asynchronous channels is for tasks that are polled when they were woken, in
    runs without timeouts and spurious wake-ups; what happens otherwise is shown too.

  \<^bold>\<open>Bounds.\<close> There is no fuel. Loops that may not end are \<open>partial_function (option)\<close>, and that
  they end is proved (\<open>make_space\<close>, \<open>skip_loop\<close>); runs of threads are finite sequences of steps
  of any length. The tick counter is a 64-bit word, lock words are 32-bit words, the counter
  of waiters wraps as an \<open>AtomicI32\<close> does and is shown not to. Handle counters and lengths are
  natural numbers: a \<open>usize\<close> that counts existing handles or elements cannot overflow.

  \<^bold>\<open>Not modelled.\<close> \<open>src/condvar_api.rs\<close>, the delegation of the trait \<open>RawCondvar\<close> to the
  \<open>parking_lot\<close> crates, whose documented behaviour is the step relation of \<open>Monitor\<close>;
  \<open>src/cell/mod.rs\<close> and the aliases of \<open>src/lib.rs\<close>, which declare names; \<open>Debug\<close> output, clones of
  the shared pointer and the comparison of channels by their identity; log messages; tests and
  examples. White space and case are those of ASCII.
\<close>

end
